(* ===== verification/Prelude.thy ===== *)
theory Prelude
  imports Main "HOL-Library.Word" "HOL-Library.Monad_Syntax"
begin

text \<open>
  Shared vocabulary of the development: the machine integer types of \<open>NyLPC_stdlib.h\<close>, checked
  accesses to arrays (\<open>rd\<close>, \<open>wr\<close>: \<open>None\<close> is an access outside the object, which C leaves
  undefined), the functions of the C library the sources call (\<open>ctype.h\<close>, \<open>strchr\<close>,
  \<open>strncmp\<close>, \<open>strtol\<close>, \<open>memcpy\<close>), and the generic lemmas on lists and words that the
  components use.

  A C string is a \<open>string\<close> (a list of characters) that holds the characters before the
  terminator; reading at its length gives the terminator (\<open>cget\<close>). Plain \<open>char\<close> is unsigned,
  as on the ARM targets of the build; \<open>long\<close> and \<open>int\<close> have 32 bits.
\<close>

unbundle bit_operations_syntax

named_theorems accesses \<open>checked reads and writes of arrays\<close>
named_theorems cchars \<open>the C library's character classes, as arithmetic on codes\<close>

section \<open>Types\<close>

type_synonym u8 = "8 word"
type_synonym u16 = "16 word"
type_synonym u32 = "32 word"

section \<open>Checked array accesses\<close>

definition rd :: "'a list \<Rightarrow> nat \<Rightarrow> 'a option" where
  "rd xs i = (if i < length xs then Some (xs ! i) else None)"

definition wr :: "'a list \<Rightarrow> nat \<Rightarrow> 'a \<Rightarrow> 'a list option" where
  "wr xs i v = (if i < length xs then Some (xs[i := v]) else None)"

text \<open>\<open>memcpy\<close> and \<open>memmove\<close> of a list of elements to offset \<open>i\<close> of an array.\<close>

definition blit :: "'a list \<Rightarrow> nat \<Rightarrow> 'a list \<Rightarrow> 'a list option" where
  "blit xs i ys = (if i + length ys \<le> length xs
     then Some (take i xs @ ys @ drop (i + length ys) xs) else None)"

lemma rd_Some_iff [accesses]: "rd xs i = Some v \<longleftrightarrow> i < length xs \<and> xs ! i = v"
  by (auto simp: rd_def)

lemma rd_None_iff [accesses]: "rd xs i = None \<longleftrightarrow> length xs \<le> i"
  by (auto simp: rd_def)

lemma wr_Some_iff [accesses]: "wr xs i v = Some ys \<longleftrightarrow> i < length xs \<and> ys = xs[i := v]"
  by (auto simp: wr_def)

lemma wr_None_iff [accesses]: "wr xs i v = None \<longleftrightarrow> length xs \<le> i"
  by (auto simp: wr_def)

lemma blit_Some_iff [accesses]:
  "blit xs i ys = Some zs \<longleftrightarrow>
     i + length ys \<le> length xs \<and> zs = take i xs @ ys @ drop (i + length ys) xs"
  by (auto simp: blit_def)

lemma blit_None_iff [accesses]: "blit xs i ys = None \<longleftrightarrow> length xs < i + length ys"
  by (auto simp: blit_def)

lemma blit_length: "blit xs i ys = Some zs \<Longrightarrow> length zs = length xs"
  by (auto simp: accesses)

lemma blit_Nil [simp]: "i \<le> length xs \<Longrightarrow> blit xs i [] = Some xs"
  by (simp add: blit_def)

text \<open>A block written at \<open>i\<close> leaves what is before it and after it.\<close>

lemma take_blit:
  "blit xs i ys = Some zs \<Longrightarrow> n \<le> i \<Longrightarrow> take n zs = take n xs"
  by (auto simp: accesses min_def)

lemma drop_blit:
  "blit xs i ys = Some zs \<Longrightarrow> i + length ys \<le> n \<Longrightarrow> drop n zs = drop n xs"
  by (auto simp: accesses)

lemma slice_blit:
  "blit xs i ys = Some zs \<Longrightarrow> take (length ys) (drop i zs) = ys"
  by (auto simp: accesses)

text \<open>\<open>memcpy(dst+i,src+k,n)\<close>, or the loop \<open>*(p++)=*(q++)\<close> run \<open>n\<close> times.\<close>

definition copy_at :: "'a list \<Rightarrow> nat \<Rightarrow> 'a list \<Rightarrow> nat \<Rightarrow> nat \<Rightarrow> 'a list option" where
  "copy_at dst i src k n =
     (if k + n \<le> length src then blit dst i (take n (drop k src)) else None)"

lemma copy_at_Some_iff [accesses]:
  "copy_at dst i src k n = Some zs \<longleftrightarrow> k + n \<le> length src \<and> i + n \<le> length dst \<and>
     zs = take i dst @ take n (drop k src) @ drop (i + n) dst"
  by (auto simp: copy_at_def accesses)

lemma copy_at_length: "copy_at dst i src k n = Some zs \<Longrightarrow> length zs = length dst"
  by (auto simp: accesses)

lemma copy_at_append:
  "length p = i \<Longrightarrow> length m = length xs \<Longrightarrow> length xs = n \<Longrightarrow> length a = k \<Longrightarrow>
   copy_at (p @ m @ s) i (a @ xs @ b) k n = Some (p @ xs @ s)"
  by (auto simp: copy_at_def blit_def)

section \<open>Characters\<close>

abbreviation ord :: "char \<Rightarrow> nat" where
  "ord c \<equiv> of_char c"

abbreviation NUL :: char where
  "NUL \<equiv> CHR 0x00"

lemma ord_less [simp]: "ord c < 256"
  using mod_less_divisor [of 256 "of_char c"] by (simp del: mod_less_divisor)

lemma ord_eq_iff: "c = d \<longleftrightarrow> ord c = ord d"
  by (simp add: of_char_eq_iff)

lemma ord_pos_iff [simp]: "0 < ord c \<longleftrightarrow> c \<noteq> NUL" "ord c = 0 \<longleftrightarrow> c = NUL"
  by (auto simp: ord_eq_iff)

definition isdigit :: "char \<Rightarrow> bool" where
  [cchars]: "isdigit c \<longleftrightarrow> 48 \<le> ord c \<and> ord c \<le> 57"

definition isxdigit :: "char \<Rightarrow> bool" where
  [cchars]: "isxdigit c \<longleftrightarrow> isdigit c \<or> 97 \<le> ord c \<and> ord c \<le> 102 \<or> 65 \<le> ord c \<and> ord c \<le> 70"

definition isalpha :: "char \<Rightarrow> bool" where
  [cchars]: "isalpha c \<longleftrightarrow> 97 \<le> ord c \<and> ord c \<le> 122 \<or> 65 \<le> ord c \<and> ord c \<le> 90"

definition isalnum :: "char \<Rightarrow> bool" where
  [cchars]: "isalnum c \<longleftrightarrow> isalpha c \<or> isdigit c"

definition isspace :: "char \<Rightarrow> bool" where
  [cchars]: "isspace c \<longleftrightarrow> ord c = 32 \<or> 9 \<le> ord c \<and> ord c \<le> 13"

definition toupper :: "char \<Rightarrow> char" where
  "toupper c = (if 97 \<le> ord c \<and> ord c \<le> 122 then char_of (ord c - 32) else c)"

section \<open>C strings\<close>

definition cget :: "string \<Rightarrow> nat \<Rightarrow> char" where
  "cget s i = (if i < length s then s ! i else NUL)"

definition no_nul :: "string \<Rightarrow> bool" where
  "no_nul s \<longleftrightarrow> NUL \<notin> set s"

text \<open>The C string that an array of characters holds: everything before its first terminator.\<close>

definition cstr :: "char list \<Rightarrow> string" where
  "cstr buf = takeWhile (\<lambda>c. c \<noteq> NUL) buf"

text \<open>\<open>strchr(set,c)!=NULL\<close>: the terminator of \<open>set\<close> is part of the search.\<close>

definition in_strchr :: "string \<Rightarrow> char \<Rightarrow> bool" where
  "in_strchr s c \<longleftrightarrow> c \<in> set s \<or> c = NUL"

text \<open>\<open>strncmp(a,b,n)==0\<close>: compares up to \<open>n\<close> characters and stops at a common terminator.\<close>

fun strncmp_eq :: "string \<Rightarrow> string \<Rightarrow> nat \<Rightarrow> bool" where
  "strncmp_eq a b 0 = True"
| "strncmp_eq [] [] (Suc n) = True"
| "strncmp_eq [] (b # bs) (Suc n) = (b = NUL)"
| "strncmp_eq (a # as) [] (Suc n) = (a = NUL)"
| "strncmp_eq (a # as) (b # bs) (Suc n) = (a = b \<and> (a = NUL \<or> strncmp_eq as bs n))"

lemma strncmp_eq_iff:
  "no_nul a \<Longrightarrow> no_nul b \<Longrightarrow> strncmp_eq a b n \<longleftrightarrow> take n a = take n b"
  by (induction a b n rule: strncmp_eq.induct) (auto simp: no_nul_def)

lemma cstr_no_nul [simp]: "no_nul (cstr buf)"
  by (auto simp: cstr_def no_nul_def dest: set_takeWhileD)

lemma cstr_ident: "no_nul s \<Longrightarrow> cstr (s @ NUL # rest) = s"
  by (auto simp: cstr_def no_nul_def takeWhile_tail intro: takeWhile_eq_all_conv [THEN iffD2])

lemma no_nul_simps [simp]:
  "no_nul []" "no_nul (c # s) \<longleftrightarrow> c \<noteq> NUL \<and> no_nul s" "no_nul (s @ t) \<longleftrightarrow> no_nul s \<and> no_nul t"
  by (auto simp: no_nul_def)

section \<open>strtol\<close>

text \<open>
  \<open>strtol(p,&e,10)\<close> with a 32-bit \<open>long\<close>: white space, an optional sign, decimal digits; the
  value saturates at the ends of the range. The second component is the number of characters
  before \<open>e\<close>; it is 0 (and the value 0) where no digit is found.
\<close>

fun dec_value :: "nat \<Rightarrow> string \<Rightarrow> nat" where
  "dec_value acc [] = acc"
| "dec_value acc (c # s) = (if isdigit c then dec_value (10 * acc + (ord c - 48)) s else acc)"

definition strtol10 :: "string \<Rightarrow> int \<times> nat" where
  "strtol10 s =
     (let ws = length (takeWhile isspace s); t = drop ws s;
          neg = (cget t 0 = CHR ''-'');
          sg = (if neg \<or> cget t 0 = CHR ''+'' then 1 else 0);
          ds = takeWhile isdigit (drop sg t);
          v = int (dec_value 0 ds)
      in if ds = [] then (0, 0)
         else (if neg then max (- (2 ^ 31)) (- v) else min (2 ^ 31 - 1) v, ws + sg + length ds))"

text \<open>\<open>strtoul(p,&e,10)\<close>, with a 32-bit \<open>unsigned long\<close>.\<close>

definition strtoul10 :: "string \<Rightarrow> u32 \<times> nat" where
  "strtoul10 s =
     (let ws = length (takeWhile isspace s); t = drop ws s;
          neg = (cget t 0 = CHR ''-'');
          sg = (if neg \<or> cget t 0 = CHR ''+'' then 1 else 0);
          ds = takeWhile isdigit (drop sg t);
          v = dec_value 0 ds
      in if ds = [] then (0, 0)
         else (if v \<ge> 2 ^ 32 then - 1 else if neg then - of_nat v else of_nat v,
               ws + sg + length ds))"

section \<open>Words\<close>

lemma unat_add_small:
  fixes a b :: "'n::len word"
  assumes "unat a + unat b < 2 ^ LENGTH('n)"
  shows "unat (a + b) = unat a + unat b"
  using assms by (simp add: unat_word_ariths)

lemma unat_sub_le:
  fixes a b :: "'n::len word"
  assumes "b \<le> a"
  shows "unat (a - b) = unat a - unat b"
  using assms by (rule unat_sub)

lemma unat_u16_less [simp]: "unat (x :: u16) < 65536"
  using unsigned_less [of x, where ?'a = nat] by simp

lemma unat_u8_less [simp]: "unat (x :: u8) < 256"
  using unsigned_less [of x, where ?'a = nat] by simp

lemma unat_u32_less [simp]: "unat (x :: u32) < 4294967296"
  using unsigned_less [of x, where ?'a = nat] by simp

lemma uint_u16_bounds [simp]: "0 \<le> uint (x :: u16)" "uint (x :: u16) < 65536"
  using uint_lt2p [of x] by simp_all

lemma uint_of_int_u16: "0 \<le> k \<Longrightarrow> k < 65536 \<Longrightarrow> uint (word_of_int k :: u16) = k"
  by (simp add: uint_word_of_int)

lemma sint_u16_small: "uint (x :: u16) < 32768 \<Longrightarrow> sint x = uint x"
  using signed_take_bit_int_eq_self [of 15 "uint x"] uint_u16_bounds(1) [of x]
  by (simp add: sint_uint)

lemma unat_of_nat_u16: "n < 65536 \<Longrightarrow> unat (of_nat n :: u16) = n"
  by (simp add: unat_of_nat)

lemma of_nat_u16_le: "n \<le> unat (x :: u16) \<Longrightarrow> unat (of_nat n :: u16) = n"
  using unat_u16_less [of x] by (intro unat_of_nat_u16) linarith

text \<open>16-bit words that stand for small numbers, as those numbers.\<close>

lemma u16_of_nat_unat: "of_nat (unat x) = (x :: u16)"
  by simp

lemma u16_of_nat_le: "m < 65536 \<Longrightarrow> n < 65536 \<Longrightarrow> (of_nat m :: u16) \<le> of_nat n \<longleftrightarrow> m \<le> n"
  by (simp add: word_le_nat_alt unat_of_nat_u16)

lemma u16_of_nat_less: "m < 65536 \<Longrightarrow> n < 65536 \<Longrightarrow> (of_nat m :: u16) < of_nat n \<longleftrightarrow> m < n"
  by (simp add: word_less_nat_alt unat_of_nat_u16)

lemma uint_of_nat_u16: "n < 65536 \<Longrightarrow> uint (of_nat n :: u16) = int n"
  by (metis of_nat_unat unat_of_nat_u16)

lemma sint_of_nat_u16: "n < 32768 \<Longrightarrow> sint (of_nat n :: u16) = int n"
  by (simp add: sint_u16_small uint_of_nat_u16)

lemma of_nat_diff_u16: "m \<le> n \<Longrightarrow> (of_nat n :: u16) - of_nat m = of_nat (n - m)"
  by (simp add: of_nat_diff)

lemmas u16_nat = u16_of_nat_le u16_of_nat_less uint_of_nat_u16 sint_of_nat_u16 of_nat_diff_u16
  unat_of_nat_u16

lemma unat_ucast_u8_u32: "unat (ucast (b :: u8) :: u32) = unat b"
proof -
  have "unat b < 2 ^ 32" by (rule order.strict_trans [OF unat_u8_less]) simp
  then show ?thesis unfolding unsigned_ucast_eq by (simp add: take_bit_nat_eq_self)
qed

lemma ucast_u8_u32_u8: "(ucast (ucast (b :: u8) :: u32) :: u8) = b"
  by (rule bit_word_eqI) (simp add: bit_ucast_iff)

end
