(* ===== verification/Stdlib.thy ===== *)
theory Stdlib
  imports Prelude
begin

text \<open>
  \<open>NyLPC_stdlib.c\<close> and \<open>NyLPC_stdlib.h\<close>: byte order, the array cursors \<open>NyLPC_TCharArrayPtr\<close>
  and \<open>NyLPC_TUInt32ArrayPtr\<close>, the text/id tables, the number printers \<open>NyLPC_itoa\<close>,
  \<open>NyLPC_uitoa\<close> and \<open>NyLPC_uitoa2\<close> with the in-place \<open>NyLPC_reverse\<close> they call, the
  case-insensitive comparisons and the digit conversions.
\<close>

unbundle bit_operations_syntax

section \<open>Byte order\<close>

definition TUInt32_bswap :: "u32 \<Rightarrow> u32" where
  "TUInt32_bswap n =
     (push_bit 24 n AND 0xff000000) OR (push_bit 8 n AND 0x00ff0000)
     OR (drop_bit 8 n AND 0x0000ff00) OR (drop_bit 24 n AND 0x000000ff)"

definition TUInt16_BSWAP :: "u16 \<Rightarrow> u16" where
  "TUInt16_BSWAP n = (push_bit 8 n AND 0xff00) OR (drop_bit 8 n AND 0x00ff)"

definition TUInt16_bswap :: "u16 \<Rightarrow> u16" where
  "TUInt16_bswap n = TUInt16_BSWAP n"

section \<open>Array cursors\<close>

text \<open>\<open>ptr\<close> is the offset into the array that the cursor was set on.\<close>

record array_ptr =
  ptr :: nat
  len :: u16

definition TCharArrayPtr_seek :: "array_ptr \<Rightarrow> u16 \<Rightarrow> bool \<times> array_ptr" where
  "TCharArrayPtr_seek p seek =
     (if len p < seek then (False, p)
      else (True, p\<lparr>ptr := ptr p + unat seek, len := len p - seek\<rparr>))"

definition TUInt32ArrayPtr_seek :: "array_ptr \<Rightarrow> u16 \<Rightarrow> bool \<times> array_ptr" where
  "TUInt32ArrayPtr_seek p seek =
     (if len p < seek then (False, p)
      else (True, p\<lparr>ptr := ptr p + unat seek, len := len p - seek\<rparr>))"

definition TUInt32ArrayPtr_setBuf :: "array_ptr \<Rightarrow> nat \<Rightarrow> u16 \<Rightarrow> array_ptr" where
  "TUInt32ArrayPtr_setBuf p i_ptr i_len = p\<lparr>ptr := i_ptr, len := i_len\<rparr>"

section \<open>Digits\<close>

definition ctoi :: "char \<Rightarrow> nat" where
  "ctoi c = (if 48 \<le> ord c \<and> ord c \<le> 57 then ord c - 48 else 0)"

definition ctox :: "char \<Rightarrow> nat" where
  "ctox c = (if 48 \<le> ord c \<and> ord c \<le> 57 then ord c - 48
     else if 97 \<le> ord c \<and> ord c \<le> 102 then ord c - 97 + 10
     else if 65 \<le> ord c \<and> ord c \<le> 70 then ord c - 65 + 10
     else 0)"

text \<open>\<open>(v<10)?(v+'0'):(v+'a'-10)\<close>, stored in a \<open>char\<close>.\<close>

definition digit_char :: "int \<Rightarrow> char" where
  "digit_char v = char_of (nat ((if v < 10 then v + 48 else v + 97 - 10) mod 256))"

section \<open>Case-insensitive comparison\<close>

definition tolower :: "char \<Rightarrow> char" where
  "tolower c = (if 65 \<le> ord c \<and> ord c \<le> 90 then char_of (ord c + 97 - 65) else c)"

text \<open>The loop stops at the terminator of the first string or at the first difference.\<close>

fun stricmp :: "string \<Rightarrow> string \<Rightarrow> int" where
  "stricmp [] s2 = - int (ord (cget s2 0))"
| "stricmp (c # s1) s2 =
     (if c = NUL then - int (ord (cget s2 0))
      else if c \<noteq> cget s2 0 \<and> tolower c \<noteq> tolower (cget s2 0)
      then int (ord c) - int (ord (cget s2 0))
      else stricmp s1 (tl s2))"

text \<open>
  \<open>NyLPC_strnicmp\<close> compares exactly \<open>n\<close> characters: it does not stop at a terminator
  (\<open>None\<close> where it reads behind one), and the difference is narrowed to a \<open>char\<close>.
\<close>

fun strnicmp :: "string \<Rightarrow> string \<Rightarrow> nat \<Rightarrow> int option" where
  "strnicmp s1 s2 0 = Some 0"
| "strnicmp s1 s2 (Suc n) =
     (let a = cget s1 0; b = cget s2 0;
          c = (int (ord (tolower a)) - int (ord (tolower b))) mod 256
      in if a \<noteq> b \<and> c \<noteq> 0 then Some c
         else if n > 0 \<and> (s1 = [] \<or> s2 = []) then None
         else strnicmp (tl s1) (tl s2) n)"

section \<open>Text and id tables\<close>

text \<open>An array of \<open>NyLPC_TTextIdTbl\<close>, with the id of its terminating entry.\<close>

record text_id_tbl =
  tbl_items :: "(string \<times> u8) list"
  tbl_end :: u8

fun find_item :: "(string \<times> u8 \<Rightarrow> bool) \<Rightarrow> (string \<times> u8) list \<Rightarrow> (string \<times> u8) option" where
  "find_item f [] = None"
| "find_item f (x # xs) = (if f x then Some x else find_item f xs)"

definition TTextIdTbl_getMatchId :: "string \<Rightarrow> text_id_tbl \<Rightarrow> u8" where
  "TTextIdTbl_getMatchId s t =
     (case find_item (\<lambda>x. s = fst x) (tbl_items t) of Some x \<Rightarrow> snd x | None \<Rightarrow> tbl_end t)"

definition TTextIdTbl_getMatchIdIgnoreCase :: "string \<Rightarrow> text_id_tbl \<Rightarrow> u8" where
  "TTextIdTbl_getMatchIdIgnoreCase s t =
     (case find_item (\<lambda>x. stricmp s (fst x) = 0) (tbl_items t) of
        Some x \<Rightarrow> snd x | None \<Rightarrow> tbl_end t)"

definition TTextIdTbl_getTextById :: "u8 \<Rightarrow> text_id_tbl \<Rightarrow> string option" where
  "TTextIdTbl_getTextById i t = map_option fst (find_item (\<lambda>x. i = snd x) (tbl_items t))"

section \<open>Printing numbers\<close>

text \<open>\<open>NyLPC_reverse\<close>: two cursors walk towards each other and swap.\<close>

function reverse_loop :: "string \<Rightarrow> nat \<Rightarrow> int \<Rightarrow> string" where
  "reverse_loop cs s j =
     (if int s < j then reverse_loop (cs[s := cs ! nat j, nat j := cs ! s]) (Suc s) (j - 1)
      else cs)"
  by pat_completeness auto
termination
  by (relation "measure (\<lambda>(cs, s, j). nat (j - int s))") auto

declare reverse_loop.simps [simp del]

definition reverse_str :: "string \<Rightarrow> string" where
  "reverse_str cs = reverse_loop cs 0 (int (length cs) - 1)"

text \<open>
  The digit loop of \<open>NyLPC_uitoa\<close>: least significant digit first. It runs for \<open>base\<close> at
  least 2 (a base of 1 never ends, a base of 0 divides by zero).
\<close>

function udigits :: "nat \<Rightarrow> nat \<Rightarrow> string" where
  "udigits base n =
     digit_char (int (n mod base)) #
     (if n div base > 0 \<and> 2 \<le> base then udigits base (n div base) else [])"
  by pat_completeness auto
termination
  by (relation "measure (\<lambda>(base, n). n)") (auto intro!: div_less_dividend gr0I)

declare udigits.simps [simp del]

definition uitoa :: "u32 \<Rightarrow> nat \<Rightarrow> (string \<times> nat) option" where
  "uitoa n base = (if base < 2 then None
     else let ds = udigits base (unat n) in Some (reverse_str ds, length ds))"

definition uitoa2 :: "u32 \<Rightarrow> nat \<Rightarrow> nat \<Rightarrow> (string \<times> nat) option" where
  "uitoa2 n base digit = (if base < 2 then None
     else let ds = udigits base (unat n); ds' = ds @ replicate (digit - length ds) (CHR ''0'')
          in Some (reverse_str ds', length ds'))"

text \<open>
  \<open>NyLPC_itoa\<close> negates a negative argument as a 32-bit \<open>int\<close>, so the least one stays as it is;
  its remainder is then negative and the loop ends after one digit (\<open>/\<close> and \<open>%\<close> truncate).
\<close>

definition itoa :: "u32 \<Rightarrow> nat \<Rightarrow> (string \<times> nat) option" where
  "itoa i_n base = (if base < 2 then None
     else let n = sint (if sint i_n < 0 then - i_n else i_n);
              ds = (if n < 0 then [digit_char (- ((- n) mod int base))]
                    else udigits base (nat n));
              ds' = (if sint i_n < 0 then ds @ ''-'' else ds)
          in Some (reverse_str ds', length ds'))"

section \<open>Byte order: the swaps are involutions\<close>

lemma byte_masks:
  "(0xff000000 :: u32) = push_bit 24 (mask 8)" "(0x00ff0000 :: u32) = push_bit 16 (mask 8)"
  "(0x0000ff00 :: u32) = push_bit 8 (mask 8)" "(0x000000ff :: u32) = mask 8"
  "(0xff00 :: u16) = push_bit 8 (mask 8)" "(0x00ff :: u16) = mask 8"
  by (simp_all add: mask_eq_exp_minus_1)

lemma bit_TUInt32_bswap:
  assumes "i < 8"
  shows "bit (TUInt32_bswap n) i = bit n (i + 24)"
    "bit (TUInt32_bswap n) (i + 8) = bit n (i + 16)"
    "bit (TUInt32_bswap n) (i + 16) = bit n (i + 8)"
    "bit (TUInt32_bswap n) (i + 24) = bit n i"
  using assms unfolding TUInt32_bswap_def byte_masks by (simp_all add: bit_simps ac_simps)

lemma bit_TUInt16_BSWAP:
  assumes "i < 8"
  shows "bit (TUInt16_BSWAP n) i = bit n (i + 8)" "bit (TUInt16_BSWAP n) (i + 8) = bit n i"
  using assms unfolding TUInt16_BSWAP_def byte_masks by (simp_all add: bit_simps ac_simps)

text \<open>A bit position is a byte position plus a bit of that byte.\<close>

lemma bit_in_byte:
  assumes "(k::nat) < 32"
  obtains i where "i < 8" "k = i \<or> k = i + 8 \<or> k = i + 16 \<or> k = i + 24"
proof (rule that [of "k mod 8"])
  show "k = k mod 8 \<or> k = k mod 8 + 8 \<or> k = k mod 8 + 16 \<or> k = k mod 8 + 24"
    using assms by presburger
qed simp

lemma TUInt32_bswap_invol [simp]: "TUInt32_bswap (TUInt32_bswap n) = n"
proof (rule bit_word_eqI)
  fix k :: nat
  assume "k < LENGTH(32)"
  then have "k < 32" by simp
  then show "bit (TUInt32_bswap (TUInt32_bswap n)) k \<longleftrightarrow> bit n k"
    by (rule bit_in_byte) (auto simp only: bit_TUInt32_bswap)
qed

lemma TUInt16_bswap_invol [simp]: "TUInt16_bswap (TUInt16_bswap n) = n"
proof (rule bit_word_eqI)
  fix k :: nat
  assume "k < LENGTH(16)"
  then have k: "k < 16" by simp
  then have "k < 32" by simp
  then show "bit (TUInt16_bswap (TUInt16_bswap n)) k \<longleftrightarrow> bit n k"
  proof (rule bit_in_byte)
    fix i assume i: "i < 8" and "k = i \<or> k = i + 8 \<or> k = i + 16 \<or> k = i + 24"
    then have "k = i \<or> k = i + 8" using k by linarith
    with i show ?thesis by (auto simp only: bit_TUInt16_BSWAP TUInt16_bswap_def)
  qed
qed

section \<open>Array cursors\<close>

text \<open>A cursor never leaves the part of the array it was set on: its end does not move.\<close>

lemma seek_end:
  "TCharArrayPtr_seek p n = (b, q) \<Longrightarrow> ptr q + unat (len q) = ptr p + unat (len p)"
  by (auto simp: TCharArrayPtr_seek_def not_less unat_sub_le dest: word_le_nat_alt [THEN iffD1, THEN le_add_diff_inverse]
      split: if_splits)

lemma TUInt32ArrayPtr_seek_eq: "TUInt32ArrayPtr_seek = TCharArrayPtr_seek"
  by (simp add: fun_eq_iff TUInt32ArrayPtr_seek_def TCharArrayPtr_seek_def)

section \<open>Case-insensitive comparison\<close>

lemma tolower_NUL [simp]: "tolower NUL = NUL"
  by (simp add: tolower_def)

lemma tolower_NUL_iff [simp]: "tolower c = NUL \<longleftrightarrow> c = NUL"
  by (auto simp: tolower_def ord_eq_iff simp del: ord_pos_iff)

lemma stricmp_eq_0_iff:
  "no_nul s1 \<Longrightarrow> no_nul s2 \<Longrightarrow> stricmp s1 s2 = 0 \<longleftrightarrow> map tolower s1 = map tolower s2"
proof (induction s1 arbitrary: s2)
  case Nil
  then show ?case by (cases s2) (auto simp: cget_def)
next
  case (Cons c s1)
  show ?case
  proof (cases s2)
    case Nil
    then show ?thesis using Cons by (simp add: cget_def)
  next
    case s2: (Cons d ds)
    show ?thesis
    proof (cases "tolower c = tolower d")
      case True
      then show ?thesis using Cons s2 by (simp add: cget_def)
    next
      case False
      then have "ord c \<noteq> ord d" by auto
      then show ?thesis using Cons False s2 by (auto simp: cget_def)
    qed
  qed
qed

section \<open>Text and id tables\<close>

lemma find_item_eq_find: "find_item = List.find"
proof (intro ext)
  show "find_item f xs = List.find f xs" for f xs
    by (induction xs) auto
qed

lemma find_item_Some:
  "find_item f xs = Some x \<Longrightarrow> x \<in> set xs \<and> f x"
  by (auto simp: find_item_eq_find find_Some_iff in_set_conv_nth)

lemma find_item_key:
  "distinct (map h xs) \<Longrightarrow> x \<in> set xs \<Longrightarrow> find_item (\<lambda>y. h x = h y) xs = Some x"
  by (induction xs) (auto simp: image_iff)

text \<open>In a table with no id and no text twice, text to id and id to text are inverse.\<close>

lemma text_id_inverse:
  assumes "distinct (map fst (tbl_items t))" "distinct (map snd (tbl_items t))"
    and "(s, i) \<in> set (tbl_items t)"
  shows "TTextIdTbl_getMatchId s t = i" "TTextIdTbl_getTextById i t = Some s"
  using find_item_key [OF assms(1,3)] find_item_key [OF assms(2,3)]
  by (simp_all add: TTextIdTbl_getMatchId_def TTextIdTbl_getTextById_def)

section \<open>Reversal\<close>

lemma length_reverse_loop [simp]: "length (reverse_loop cs s j) = length cs"
proof (induction cs s j rule: reverse_loop.induct)
  case (1 cs s j)
  then show ?case by (subst reverse_loop.simps) simp
qed

lemma reverse_step:
  assumes "length cs = Suc (s + j)" "s < j" "i < length cs"
    and ds: "ds = cs[s := cs ! j, j := cs ! s]"
  shows "(if Suc s \<le> i \<and> i + Suc s < length cs then ds ! (length cs - 1 - i) else ds ! i)
    = (if s \<le> i \<and> i + s < length cs then cs ! (length cs - 1 - i) else cs ! i)"
proof -
  consider "i < s" | "i = s" | "s < i" "i < j" | "i = j" | "j < i" by linarith
  then show ?thesis
    using assms(1-3) unfolding ds by cases (simp_all add: nth_list_update)
qed

lemma nth_reverse_loop:
  assumes "j = int (length cs) - 1 - int s" "i < length cs"
  shows "reverse_loop cs s j ! i =
    (if s \<le> i \<and> i + s < length cs then cs ! (length cs - 1 - i) else cs ! i)"
  using assms
proof (induction cs s j rule: reverse_loop.induct)
  case (1 cs s j)
  show ?case
  proof (cases "int s < j")
    case True
    let ?cs = "cs[s := cs ! nat j, nat j := cs ! s]"
    have nj: "nat j = length cs - 1 - s" using 1 by linarith
    have lt: "nat j < length cs" "s < nat j" using 1 True by linarith+
    have "reverse_loop cs s j ! i = reverse_loop ?cs (Suc s) (j - 1) ! i"
      using True by (subst reverse_loop.simps) simp
    also have "\<dots> = (if Suc s \<le> i \<and> i + Suc s < length cs
        then ?cs ! (length cs - 1 - i) else ?cs ! i)"
      using 1 True by (subst 1(1)) auto
    also have "\<dots> = (if s \<le> i \<and> i + s < length cs then cs ! (length cs - 1 - i) else cs ! i)"
      by (rule reverse_step) (use 1 lt nj in simp_all)
    finally show ?thesis .
  next
    case False
    then have "i = length cs - 1 - i" if "s \<le> i" "i + s < length cs"
      using 1(2,3) that by linarith
    then show ?thesis
      using False by (subst reverse_loop.simps) auto
  qed
qed

lemma reverse_str_rev [simp]: "reverse_str cs = rev cs"
  by (rule nth_equalityI) (auto simp: reverse_str_def nth_reverse_loop rev_nth)

section \<open>Printing and reading numbers\<close>

text \<open>The number that a string of digits denotes.\<close>

definition num_value :: "nat \<Rightarrow> string \<Rightarrow> nat" where
  "num_value base s = foldl (\<lambda>a c. base * a + ctox c) 0 s"

lemma ord_digit_char: "d < 16 \<Longrightarrow> ord (digit_char (int d)) = (if d < 10 then d + 48 else d + 87)"
  by (simp add: digit_char_def nat_add_distrib nat_mod_distrib)

lemma ctox_digit_char [simp]: "d < 16 \<Longrightarrow> ctox (digit_char (int d)) = d"
  by (simp add: ctox_def ord_digit_char)

lemma isxdigit_digit_char [simp]: "d < 16 \<Longrightarrow> isxdigit (digit_char (int d))"
  by (auto simp: cchars ord_digit_char)

lemma udigits_value:
  assumes "2 \<le> base" "base \<le> 16"
  shows "foldr (\<lambda>c a. base * a + ctox c) (udigits base n) 0 = n"
  using assms
proof (induction base n rule: udigits.induct)
  case (1 base n)
  have "n mod base < base" using 1(2) by simp
  then have "n mod base < 16" using 1(3) by linarith
  moreover have "n div base = 0 \<Longrightarrow> n mod base = n" using 1(2) by (simp add: div_eq_0_iff)
  ultimately show ?case using 1 by (subst udigits.simps) auto
qed

lemma udigits_xdigit:
  assumes "2 \<le> base" "base \<le> 16"
  shows "list_all isxdigit (udigits base n)"
  using assms
proof (induction base n rule: udigits.induct)
  case (1 base n)
  have "n mod base < base" using 1(2) by simp
  then have "n mod base < 16" using 1(3) by linarith
  then show ?case using 1 by (subst udigits.simps) auto
qed

lemma length_udigits:
  assumes "2 \<le> base" "n < base ^ Suc k"
  shows "length (udigits base n) \<le> Suc k"
  using assms
proof (induction base n arbitrary: k rule: udigits.induct)
  case (1 base n)
  show ?case
  proof (cases "n div base > 0")
    case True
    then obtain k' where k: "k = Suc k'" using 1(3) by (cases k) auto
    have "n div base < base ^ k" using 1(3) by (simp add: less_mult_imp_div_less mult.commute)
    then show ?thesis using 1 True k by (subst udigits.simps) auto
  next
    case False
    then show ?thesis by (subst udigits.simps) simp
  qed
qed

lemma num_value_rev_udigits:
  "2 \<le> base \<Longrightarrow> base \<le> 16 \<Longrightarrow> num_value base (rev (udigits base n)) = n"
  by (simp add: num_value_def foldl_conv_foldr udigits_value)

lemma udigits_isdigit: "list_all isdigit (udigits 10 n)"
proof (induction "10 :: nat" n rule: udigits.induct)
  case (1 n)
  have "isdigit (digit_char (int (n mod 10)))"
    using ord_digit_char [of "n mod 10"] by (simp add: cchars)
  then show ?case using 1 by (subst udigits.simps) simp
qed

text \<open>\<open>strtol\<close> reads back the decimal text of a number below \<open>2 ^ 31\<close>.\<close>

definition dec_text :: "nat \<Rightarrow> string" where
  "dec_text n = rev (udigits 10 n)"

lemma dec_text_digits: "list_all isdigit (dec_text n)" "dec_text n \<noteq> []"
  using udigits_isdigit [of n] by (simp_all add: dec_text_def list_all_iff udigits.simps [of 10 n])

lemma isdigit_facts:
  "isdigit c \<Longrightarrow> \<not> isspace c \<and> c \<noteq> CHR ''-'' \<and> c \<noteq> CHR ''+'' \<and> c \<noteq> NUL \<and> c \<noteq> CHR 0x20 \<and> c \<noteq> CHR 0x0D \<and> c \<noteq> CHR 0x0A"
  by (auto simp: cchars)

lemma dec_value_foldl: "list_all isdigit s \<Longrightarrow> dec_value a s = foldl (\<lambda>a c. 10 * a + ctox c) a s"
  by (induction s arbitrary: a) (auto simp: ctox_def isdigit_def)

lemma dec_value_text: "dec_value 0 (dec_text n) = n"
  using num_value_rev_udigits [of 10 n] dec_value_foldl [OF dec_text_digits(1), of 0 n]
  by (simp add: num_value_def dec_text_def)

lemma strtol10_digits:
  assumes "s \<noteq> []" "list_all isdigit s" "dec_value 0 s < 2 ^ 31"
  shows "strtol10 s = (int (dec_value 0 s), length s)"
proof -
  have h: "isdigit (cget s 0)" "takeWhile isdigit s = s"
    using assms by (cases s; auto simp: cget_def takeWhile_eq_all_conv list_all_iff)+
  have "takeWhile isspace s = []" using h(1) assms(1) isdigit_facts by (cases s) (auto simp: cget_def)
  moreover have "int (dec_value 0 s) \<le> 2 ^ 31 - 1" using assms(3) by simp
  ultimately show ?thesis using assms(1) isdigit_facts [OF h(1)] by (simp add: strtol10_def Let_def h(2))
qed

lemma strtol10_dec_text: "n < 2 ^ 31 \<Longrightarrow> strtol10 (dec_text n) = (int n, length (dec_text n))"
  using strtol10_digits [OF dec_text_digits(2,1), of n] by (simp add: dec_value_text)

lemma length_dec_text: "n < 10 ^ Suc k \<Longrightarrow> length (dec_text n) \<le> Suc k"
  by (simp add: dec_text_def length_udigits)

lemma num_value_zeros: "num_value base (replicate k (CHR ''0'') @ s) = num_value base s"
  by (induction k) (auto simp: num_value_def ctox_def)

text \<open>What \<open>NyLPC_itoa\<close> prints for the least 32-bit integer: \<open>-(\<close>, and not its digits.\<close>

lemma itoa_least: "itoa 0x80000000 10 = Some (''-('', 2)"
proof -
  have "sint (0x80000000 :: u32) = - 2147483648" by simp
  moreover have "- (0x80000000 :: u32) = 0x80000000" by simp
  moreover have "digit_char (- 8) = CHR ''(''" by (simp add: digit_char_def ord_eq_iff)
  ultimately show ?thesis by (simp add: itoa_def)
qed

lemma nat_sint: "0 \<le> sint n \<Longrightarrow> nat (sint n) = unat n" for n :: u32
  using sint_less [of n] by (simp add: uint_sint [of n] take_bit_int_eq_self flip: nat_uint_eq)

lemma itoa_nonneg: "0 \<le> sint n \<Longrightarrow> itoa n base = uitoa n base"
  by (simp add: itoa_def uitoa_def Let_def nat_sint)

end
