(* ===== verification/ByteQueue.thy ===== *)
theory ByteQueue
  imports Prelude
begin

text \<open>
  The contract of a bounded byte queue, which \<open>NyLPC_cFifoBuffer\<close> and \<open>NyLPC_cRingBuffer\<close>
  provide and the sockets and streams above them rely on: data goes in at the back while there
  is room, a part of the queue can be looked at in place, and any part of what was looked at can
  be dropped. The lemmas of the locale hold of every provider: nothing is lost, duplicated or
  reordered by a sequence of operations, and repeated look-and-drop empties the queue.
\<close>

datatype 'a queue_op = Put "'a list" | Drop nat

text \<open>
  A client's sequence of operations: it puts data only where there is room for it and drops at
  most what it can see. The result has the bytes that went in and the bytes that were read.
\<close>

fun queue_run :: "('s \<Rightarrow> nat) \<Rightarrow> ('s \<Rightarrow> 'a list \<Rightarrow> 's option) \<Rightarrow> ('s \<Rightarrow> 'a list) \<Rightarrow>
    ('s \<Rightarrow> nat \<Rightarrow> 's option) \<Rightarrow> 's \<Rightarrow> 'a queue_op list \<Rightarrow> ('s \<times> 'a list \<times> 'a list) option" where
  "queue_run room put peek discard s [] = Some (s, [], [])"
| "queue_run room put peek discard s (Put xs # ops) = (if length xs \<le> room s
     then Option.bind (put s xs) (\<lambda>s'.
       map_option (\<lambda>(t, ins, outs). (t, xs @ ins, outs)) (queue_run room put peek discard s' ops))
     else queue_run room put peek discard s ops)"
| "queue_run room put peek discard s (Drop n # ops) = (let m = min n (length (peek s)) in
     Option.bind (discard s m) (\<lambda>s'.
       map_option (\<lambda>(t, ins, outs). (t, ins, take m (peek s) @ outs))
         (queue_run room put peek discard s' ops)))"

text \<open>Reading all that can be seen and dropping it, at most \<open>k\<close> times.\<close>

fun queue_drain :: "('s \<Rightarrow> 'a list) \<Rightarrow> ('s \<Rightarrow> nat \<Rightarrow> 's option) \<Rightarrow> nat \<Rightarrow> 's \<Rightarrow> ('s \<times> 'a list) option" where
  "queue_drain peek discard 0 s = Some (s, [])"
| "queue_drain peek discard (Suc k) s = (if peek s = [] then Some (s, [])
     else Option.bind (discard s (length (peek s)))
       (\<lambda>s'. map_option (\<lambda>(t, ys). (t, peek s @ ys)) (queue_drain peek discard k s')))"

locale byte_queue =
  fixes inv :: "'s \<Rightarrow> bool"
    and content :: "'s \<Rightarrow> 'a list"
    and room :: "'s \<Rightarrow> nat"
    and put :: "'s \<Rightarrow> 'a list \<Rightarrow> 's option"
    and peek :: "'s \<Rightarrow> 'a list"
    and discard :: "'s \<Rightarrow> nat \<Rightarrow> 's option"
  assumes put_ok: "inv s \<Longrightarrow> length xs \<le> room s \<Longrightarrow>
      \<exists>s'. put s xs = Some s' \<and> inv s' \<and> content s' = content s @ xs \<and> room s' = room s - length xs"
    and peek_front: "inv s \<Longrightarrow> \<exists>rest. content s = peek s @ rest"
    and peek_progress: "inv s \<Longrightarrow> content s \<noteq> [] \<Longrightarrow> peek s \<noteq> []"
    and discard_ok: "inv s \<Longrightarrow> n \<le> length (peek s) \<Longrightarrow>
      \<exists>s'. discard s n = Some s' \<and> inv s' \<and> content s' = drop n (content s) \<and> room s' = room s + n"
begin

lemma peek_length: "inv s \<Longrightarrow> length (peek s) \<le> length (content s)"
  using peek_front by fastforce

lemma take_peek: "inv s \<Longrightarrow> n \<le> length (peek s) \<Longrightarrow> take n (peek s) = take n (content s)"
  using peek_front by fastforce

lemma run_fifo:
  "inv s \<Longrightarrow> \<exists>t ins outs. queue_run room put peek discard s ops = Some (t, ins, outs) \<and> inv t \<and>
     outs @ content t = content s @ ins \<and>
     room t + length (content t) = room s + length (content s)"
proof (induction ops arbitrary: s)
  case (Cons op ops)
  show ?case
  proof (cases op)
    case (Put xs)
    show ?thesis
    proof (cases "length xs \<le> room s")
      case True
      then obtain s' where "put s xs = Some s'" "inv s'" "content s' = content s @ xs"
          "room s' = room s - length xs"
        using put_ok Cons(2) by blast
      then show ?thesis using Cons(1) [of s'] True Put by fastforce
    next
      case False
      then show ?thesis using Cons Put by simp
    qed
  next
    case (Drop n)
    let ?m = "min n (length (peek s))"
    obtain s' where s': "discard s ?m = Some s'" "inv s'" "content s' = drop ?m (content s)"
        "room s' = room s + ?m"
      using discard_ok Cons(2) min.cobounded2 by metis
    then obtain t ins outs where t: "queue_run room put peek discard s' ops = Some (t, ins, outs)"
        "inv t" "outs @ content t = content s' @ ins"
        "room t + length (content t) = room s' + length (content s')"
      using Cons(1) by blast
    have "take ?m (peek s) @ outs @ content t = content s @ ins"
      using s' t(3) take_peek [OF Cons(2), of ?m] by (simp flip: append_assoc)
    moreover have "room t + length (content t) = room s + length (content s)"
      using s' t(4) peek_length [OF Cons(2)] by simp
    ultimately show ?thesis
      using s'(1) t Drop by (simp add: Let_def)
  qed
qed simp

lemma drain_all:
  "inv s \<Longrightarrow> length (content s) \<le> k \<Longrightarrow>
     \<exists>t. queue_drain peek discard k s = Some (t, content s) \<and> inv t \<and> content t = []"
proof (induction k arbitrary: s)
  case (Suc k)
  show ?case
  proof (cases "peek s = []")
    case True
    then have "content s = []" using peek_progress Suc(2) by blast
    then show ?thesis using True Suc(2) by simp
  next
    case False
    obtain s' where s': "discard s (length (peek s)) = Some s'" "inv s'"
        "content s' = drop (length (peek s)) (content s)"
      using discard_ok Suc(2) by blast
    moreover have "content s = peek s @ content s'"
      using peek_front [OF Suc(2)] s'(3) by auto
    moreover have "length (content s') \<le> k"
      using Suc(3) s'(3) False by (cases "peek s") auto
    ultimately show ?thesis using Suc(1) [of s'] False by fastforce
  qed
qed simp

end

end
