(* ===== verification/FifoBuffer.thy ===== *)
theory FifoBuffer
  imports ByteQueue
begin

text \<open>
  \<open>NyLPC_cFifoBuffer.c\<close>: a flat buffer used as a queue. Data is appended behind the first
  \<open>len\<close> bytes; \<open>pop\<close> moves the rest of the data to the front. An access outside the buffer
  is \<open>None\<close>. \<open>NyLPC_ArgAssert\<close> only counts its failures (\<open>NyLPC_assertHook\<close>), so execution
  goes on behind it; \<open>push_assertion\<close> and \<open>pop_assertion\<close> show that it holds where the
  operation stays inside the buffer.
\<close>

record fifo_buffer =
  fsize :: u16
  flen :: u16
  fbuf :: "u8 list"

definition cFifoBuffer_initialize :: "u8 list \<Rightarrow> u16 \<Rightarrow> fifo_buffer" where
  "cFifoBuffer_initialize i_buf i_buf_size = \<lparr>fsize = i_buf_size, flen = 0, fbuf = i_buf\<rparr>"

definition cFifoBuffer_clear :: "fifo_buffer \<Rightarrow> fifo_buffer" where
  "cFifoBuffer_clear q = q\<lparr>flen := 0\<rparr>"

definition cFifoBuffer_getLength :: "fifo_buffer \<Rightarrow> u16" where
  "cFifoBuffer_getLength q = flen q"

definition cFifoBuffer_getSpace :: "fifo_buffer \<Rightarrow> u16" where
  "cFifoBuffer_getSpace q = fsize q - flen q"

definition cFifoBuffer_push :: "fifo_buffer \<Rightarrow> u8 list \<Rightarrow> u16 \<Rightarrow> fifo_buffer option" where
  "cFifoBuffer_push q i_data i_data_len =
     (case copy_at (fbuf q) (unat (flen q)) i_data 0 (unat i_data_len) of
        None \<Rightarrow> None
      | Some b \<Rightarrow> Some (q\<lparr>fbuf := b, flen := flen q + i_data_len\<rparr>))"

text \<open>\<open>prePush\<close> reserves the bytes and gives the offset at which the caller writes them.\<close>

definition cFifoBuffer_prePush :: "fifo_buffer \<Rightarrow> u16 \<Rightarrow> nat \<times> fifo_buffer" where
  "cFifoBuffer_prePush q i_data_len = (unat (flen q), q\<lparr>flen := flen q + i_data_len\<rparr>)"

definition cFifoBuffer_pop :: "fifo_buffer \<Rightarrow> u16 \<Rightarrow> fifo_buffer option" where
  "cFifoBuffer_pop q i_len =
     (let n = flen q - i_len
      in case copy_at (fbuf q) 0 (fbuf q) (unat i_len) (unat n) of
           None \<Rightarrow> None
         | Some b \<Rightarrow> Some (q\<lparr>flen := n, fbuf := b\<rparr>))"

text \<open>What \<open>getPtr\<close> and \<open>getLength\<close> together let the caller read.\<close>

definition cFifoBuffer_getPtr :: "fifo_buffer \<Rightarrow> u8 list" where
  "cFifoBuffer_getPtr q = take (unat (flen q)) (fbuf q)"

section \<open>The buffer is a bounded queue\<close>

definition fifo_inv :: "fifo_buffer \<Rightarrow> bool" where
  "fifo_inv q \<longleftrightarrow> flen q \<le> fsize q \<and> unat (fsize q) = length (fbuf q)"

definition fifo_room :: "fifo_buffer \<Rightarrow> nat" where
  "fifo_room q = unat (cFifoBuffer_getSpace q)"

definition fifo_put :: "fifo_buffer \<Rightarrow> u8 list \<Rightarrow> fifo_buffer option" where
  "fifo_put q xs = cFifoBuffer_push q xs (of_nat (length xs))"

definition fifo_discard :: "fifo_buffer \<Rightarrow> nat \<Rightarrow> fifo_buffer option" where
  "fifo_discard q n = cFifoBuffer_pop q (of_nat n)"

lemma fifo_inv_len:
  assumes "fifo_inv q"
  shows "unat (flen q) \<le> length (fbuf q)" "length (fbuf q) < 65536"
  using assms unat_u16_less [of "fsize q"]
  by (simp_all add: fifo_inv_def word_le_nat_alt del: unat_u16_less)

lemma fifo_room_eq: "fifo_inv q \<Longrightarrow> fifo_room q = length (fbuf q) - unat (flen q)"
  by (simp add: fifo_room_def cFifoBuffer_getSpace_def fifo_inv_def unat_sub_le)

lemma fifo_initialize_inv:
  "unat n = length b \<Longrightarrow> fifo_inv (cFifoBuffer_initialize b n)"
  "cFifoBuffer_getPtr (cFifoBuffer_initialize b n) = []"
  by (simp_all add: fifo_inv_def cFifoBuffer_initialize_def cFifoBuffer_getPtr_def)

lemma fifo_clear_inv:
  "fifo_inv q \<Longrightarrow> fifo_inv (cFifoBuffer_clear q)" "cFifoBuffer_getPtr (cFifoBuffer_clear q) = []"
  by (simp_all add: fifo_inv_def cFifoBuffer_clear_def cFifoBuffer_getPtr_def)

text \<open>The argument assertions of the sources: an operation that stays in the buffer meets them.\<close>

lemma push_assertion:
  assumes "fifo_inv q" "cFifoBuffer_push q xs n = Some q'"
  shows "cFifoBuffer_getSpace q \<ge> n"
  using assms fifo_room_eq [OF assms(1)]
  by (auto simp: cFifoBuffer_push_def accesses word_le_nat_alt fifo_room_def split: option.splits)

lemma pop_assertion:
  assumes "fifo_inv q" "cFifoBuffer_pop q n = Some q'" "unat n \<le> length (fbuf q)"
    "length (fbuf q) < 32768"
  shows "cFifoBuffer_getLength q \<ge> n"
proof (rule ccontr)
  assume "\<not> cFifoBuffer_getLength q \<ge> n"
  then have lt: "unat (flen q) < unat n"
    by (simp add: cFifoBuffer_getLength_def word_less_nat_alt not_le)
  then have "unat (flen q - n) = unat (flen q) + 65536 - unat n"
    by (simp add: unat_sub_if')
  with assms lt show False
    by (auto simp: cFifoBuffer_pop_def accesses Let_def split: option.splits)
qed

lemma fifo_put_ok:
  assumes "fifo_inv q" "length xs \<le> fifo_room q"
  shows "\<exists>q'. fifo_put q xs = Some q' \<and> fifo_inv q' \<and>
    cFifoBuffer_getPtr q' = cFifoBuffer_getPtr q @ xs \<and> fifo_room q' = fifo_room q - length xs"
proof -
  note inv = fifo_inv_len [OF assms(1)]
  have n: "unat (of_nat (length xs) :: u16) = length xs"
    using assms(2) unfolding fifo_room_def by (rule of_nat_u16_le)
  have le: "length xs + unat (flen q) \<le> length (fbuf q)"
    using assms inv by (simp add: fifo_room_eq)
  have l: "unat (flen q + of_nat (length xs)) = unat (flen q) + length xs"
    using le inv n by (subst unat_add_small) simp_all
  let ?b = "take (unat (flen q)) (fbuf q) @ xs @ drop (unat (flen q) + length xs) (fbuf q)"
  let ?q = "q\<lparr>fbuf := ?b, flen := flen q + of_nat (length xs)\<rparr>"
  have "copy_at (fbuf q) (unat (flen q)) xs 0 (length xs) = Some ?b"
    using le by (simp add: copy_at_def blit_def add.commute)
  then have put: "fifo_put q xs = Some ?q"
    by (simp add: fifo_put_def cFifoBuffer_push_def n)
  have inv': "fifo_inv ?q"
    using assms(1) le inv l by (simp add: fifo_inv_def word_le_nat_alt)
  moreover have "cFifoBuffer_getPtr ?q = cFifoBuffer_getPtr q @ xs"
    using l inv by (simp add: cFifoBuffer_getPtr_def)
  moreover have "fifo_room ?q = fifo_room q - length xs"
    using fifo_room_eq [OF inv'] fifo_room_eq [OF assms(1)] l le inv by simp
  ultimately show ?thesis using put by blast
qed

lemma fifo_discard_ok:
  assumes "fifo_inv q" "n \<le> length (cFifoBuffer_getPtr q)"
  shows "\<exists>q'. fifo_discard q n = Some q' \<and> fifo_inv q' \<and>
    cFifoBuffer_getPtr q' = drop n (cFifoBuffer_getPtr q) \<and> fifo_room q' = fifo_room q + n"
proof -
  note inv = fifo_inv_len [OF assms(1)]
  have le: "n \<le> unat (flen q)"
    using assms(2) by (simp add: cFifoBuffer_getPtr_def)
  have n: "unat (of_nat n :: u16) = n"
    using le by (rule of_nat_u16_le)
  have nle: "of_nat n \<le> flen q"
    using le n by (simp add: word_le_nat_alt)
  have l: "unat (flen q - of_nat n) = unat (flen q) - n"
    using unat_sub_le [OF nle] n by simp
  let ?b = "take (unat (flen q) - n) (drop n (fbuf q)) @ drop (unat (flen q) - n) (fbuf q)"
  let ?q = "q\<lparr>flen := flen q - of_nat n, fbuf := ?b\<rparr>"
  have "fifo_discard q n = Some ?q"
    using nle n l le inv diff_le_mono [OF inv(1), of n]
    by (simp add: fifo_discard_def cFifoBuffer_pop_def cFifoBuffer_getLength_def copy_at_def
        blit_def Let_def)
  moreover have inv': "fifo_inv ?q"
    using assms(1) inv le l by (auto simp: fifo_inv_def word_le_nat_alt)
  moreover have "cFifoBuffer_getPtr ?q = drop n (cFifoBuffer_getPtr q)"
    using l inv by (simp add: cFifoBuffer_getPtr_def drop_take)
  moreover have "fifo_room ?q = fifo_room q + n"
    using fifo_room_eq [OF inv'] fifo_room_eq [OF assms(1)] l le inv by simp
  ultimately show ?thesis by blast
qed

interpretation fq: byte_queue fifo_inv cFifoBuffer_getPtr fifo_room fifo_put cFifoBuffer_getPtr
  fifo_discard
  by unfold_locales (use fifo_put_ok fifo_discard_ok in auto)

section \<open>Properties\<close>

text \<open>
  The FIFO buffer is a first-in first-out queue of fixed capacity: whatever pushes and pops a
  client makes within the space and length it is told, no access leaves the
  buffer, and the bytes read followed by those still buffered are the bytes buffered before
  followed by the bytes pushed.
\<close>

theorem fifo_fifo:
  assumes "fifo_inv q"
  shows "\<exists>t ins outs. queue_run fifo_room fifo_put cFifoBuffer_getPtr fifo_discard q ops =
      Some (t, ins, outs) \<and> fifo_inv t \<and>
    outs @ cFifoBuffer_getPtr t = cFifoBuffer_getPtr q @ ins \<and>
    fifo_room t + length (cFifoBuffer_getPtr t) = fifo_room q + length (cFifoBuffer_getPtr q)"
  by (rule fq.run_fifo [OF assms])

theorem fifo_fifo_witness:
  "fifo_inv (cFifoBuffer_initialize [0, 0, 0] 3) \<and>
   (\<exists>t ins outs. queue_run fifo_room fifo_put cFifoBuffer_getPtr fifo_discard
      (cFifoBuffer_initialize [0, 0, 0] 3) [Put [5, 6], Drop 1, Put [7]] = Some (t, ins, outs) \<and>
    outs @ cFifoBuffer_getPtr t = ins)"
  using fifo_fifo [OF fifo_initialize_inv(1) [where n = 3 and b = "[0, 0, 0]"], of "[Put [5, 6], Drop 1, Put [7]]"]
    fifo_initialize_inv [where n = 3 and b = "[0, 0, 0]"] by auto

end
