(* ===== verification/RingBuffer.thy ===== *)
theory RingBuffer
  imports ByteQueue
begin

text \<open>
  \<open>NyLPC_cRingBuffer.c\<close>: a ring of \<open>bl\<close> bytes with a read offset \<open>ro\<close> and a write offset
  \<open>wo\<close>; one byte stays free, so that equal offsets mean an empty ring. Arithmetic on the 16-bit
  fields is done in \<open>int\<close>, as the integer promotions do it, and narrowed where it is stored.
  \<open>None\<close> is an access outside the buffer or a division by a zero \<open>bl\<close>. \<open>NyLPC_Assert\<close>
  only counts its failures (\<open>NyLPC_assertHook\<close>), so execution goes on behind it.
\<close>

record ring_buffer =
  rbuf :: "u8 list"
  bl :: u16
  wo :: u16
  ro :: u16

definition cRingBuffer_initialize :: "u8 list \<Rightarrow> u16 \<Rightarrow> ring_buffer" where
  "cRingBuffer_initialize i_buf sizeof_buf = \<lparr>rbuf = i_buf, bl = sizeof_buf, wo = 0, ro = 0\<rparr>"

definition cRingBuffer_reset :: "ring_buffer \<Rightarrow> ring_buffer" where
  "cRingBuffer_reset r = r\<lparr>wo := 0, ro := 0\<rparr>"

text \<open>The sizes are returned as \<open>NyLPC_TInt16\<close>.\<close>

definition cRingBuffer_getReadableSize :: "ring_buffer \<Rightarrow> int" where
  "cRingBuffer_getReadableSize r =
     (if wo r \<ge> ro r then sint (wo r - ro r) else sint (bl r - ro r))"

definition cRingBuffer_getWritableSize :: "ring_buffer \<Rightarrow> int" where
  "cRingBuffer_getWritableSize r =
     (if wo r \<ge> ro r then sint (bl r - (wo r - ro r) - 1) else sint (ro r - wo r - 1))"

text \<open>The second half of \<open>write\<close>: the part that goes to the left end of the buffer.\<close>

definition ring_write_left ::
    "ring_buffer \<Rightarrow> u8 list \<Rightarrow> u16 \<Rightarrow> nat \<Rightarrow> int \<Rightarrow> u16 \<Rightarrow> (int \<times> ring_buffer) option" where
  "ring_write_left r i_data w k l wsize =
     (if l > 0 then
        case copy_at (rbuf r) (unat w) i_data k (nat l) of
          None \<Rightarrow> None
        | Some b \<Rightarrow> Some (uint wsize, r\<lparr>rbuf := b, wo := w + word_of_int l\<rparr>)
      else Some (uint wsize, r\<lparr>wo := w\<rparr>))"

definition cRingBuffer_write :: "ring_buffer \<Rightarrow> u8 list \<Rightarrow> int \<Rightarrow> (int \<times> ring_buffer) option" where
  "cRingBuffer_write r i_data i_len =
     (if wo r \<ge> ro r then
        let wsize = (word_of_int (uint (bl r) - (uint (wo r) - uint (ro r)) - 1) :: u16)
        in if wsize < 1 then Some (0, r)
           else
             let wsize = (if uint wsize > i_len then word_of_int i_len else wsize);
                 rw = bl r - wo r;
                 l = (if wsize < rw then uint wsize else uint rw)
             in case copy_at (rbuf r) (unat (wo r)) i_data 0 (nat l) of
                  None \<Rightarrow> None
                | Some b \<Rightarrow>
                    if bl r = 0 then None
                    else ring_write_left (r\<lparr>rbuf := b\<rparr>) i_data
                      (word_of_int ((uint (wo r) + l) mod uint (bl r))) (nat l)
                      (uint wsize - l) wsize
      else
        let wsize = (word_of_int (uint (ro r) - uint (wo r) - 1) :: u16);
            wsize = (if uint wsize > i_len then word_of_int i_len else wsize)
        in ring_write_left r i_data (wo r) 0 (uint wsize) wsize)"

text \<open>\<open>pread\<close>: the offset of the data and its length, narrowed to 16 bits.\<close>

definition cRingBuffer_pread :: "ring_buffer \<Rightarrow> nat \<times> u16" where
  "cRingBuffer_pread r = (unat (ro r), word_of_int (cRingBuffer_getReadableSize r))"

definition cRingBuffer_preadSeek :: "ring_buffer \<Rightarrow> u16 \<Rightarrow> ring_buffer option" where
  "cRingBuffer_preadSeek r i_seek =
     (if bl r = 0 then None
      else Some (r\<lparr>ro := word_of_int ((uint (ro r) + uint i_seek) mod uint (bl r))\<rparr>))"

section \<open>The ring is a bounded queue\<close>

definition ring_inv :: "ring_buffer \<Rightarrow> bool" where
  "ring_inv r \<longleftrightarrow> unat (bl r) = length (rbuf r) \<and> length (rbuf r) \<le> 32768 \<and>
     wo r < bl r \<and> ro r < bl r"

text \<open>What a client reads: from the read offset to the write offset, around the end.\<close>

definition ring_content :: "ring_buffer \<Rightarrow> u8 list" where
  "ring_content r =
     (if ro r \<le> wo r then drop (unat (ro r)) (take (unat (wo r)) (rbuf r))
      else drop (unat (ro r)) (rbuf r) @ take (unat (wo r)) (rbuf r))"

definition ring_room :: "ring_buffer \<Rightarrow> nat" where
  "ring_room r = nat (cRingBuffer_getWritableSize r)"

definition ring_peek :: "ring_buffer \<Rightarrow> u8 list" where
  "ring_peek r = (case cRingBuffer_pread r of (i, n) \<Rightarrow> take (unat n) (drop i (rbuf r)))"

definition ring_put :: "ring_buffer \<Rightarrow> u8 list \<Rightarrow> ring_buffer option" where
  "ring_put r xs = (case cRingBuffer_write r xs (int (length xs)) of
     Some (n, r') \<Rightarrow> if n = int (length xs) then Some r' else None | None \<Rightarrow> None)"

definition ring_discard :: "ring_buffer \<Rightarrow> nat \<Rightarrow> ring_buffer option" where
  "ring_discard r n = cRingBuffer_preadSeek r (of_nat n)"

text \<open>A ring within the invariant, by the numbers its fields stand for.\<close>

abbreviation ring :: "u8 list \<Rightarrow> nat \<Rightarrow> nat \<Rightarrow> ring_buffer" where
  "ring b w p \<equiv> \<lparr>rbuf = b, bl = of_nat (length b), wo = of_nat w, ro = of_nat p\<rparr>"

lemma ring_inv_ring [simp]:
  "length b \<le> 32768 \<Longrightarrow> w < length b \<Longrightarrow> p < length b \<Longrightarrow> ring_inv (ring b w p)"
  by (simp add: ring_inv_def u16_nat)

lemma ring_invE:
  assumes "ring_inv r"
  obtains b w p where "r = ring b w p" "length b \<le> 32768" "w < length b" "p < length b"
proof (rule that [of "rbuf r" "unat (wo r)" "unat (ro r)"])
  have "of_nat (length (rbuf r)) = bl r"
    using assms unfolding ring_inv_def by (metis u16_of_nat_unat)
  then show "r = ring (rbuf r) (unat (wo r)) (unat (ro r))"
    by (cases r) (simp add: u16_of_nat_unat)
qed (use assms in \<open>auto simp: ring_inv_def word_less_nat_alt\<close>)

lemma ring_content_ring:
  "length b \<le> 32768 \<Longrightarrow> w < length b \<Longrightarrow> p < length b \<Longrightarrow> ring_content (ring b w p) =
     (if p \<le> w then drop p (take w b) else drop p b @ take w b)"
  by (simp add: ring_content_def u16_nat)

lemma ring_room_ring:
  "length b \<le> 32768 \<Longrightarrow> w < length b \<Longrightarrow> p < length b \<Longrightarrow> ring_room (ring b w p) =
     (if p \<le> w then length b - (w - p) - 1 else p - w - 1)"
  using of_nat_diff_u16 [of 1 "length b + p - w"] of_nat_diff_u16 [of 1 "p - w"]
  by (simp add: ring_room_def cRingBuffer_getWritableSize_def u16_nat del: of_nat_diff)

lemma readable_ring:
  "length b \<le> 32768 \<Longrightarrow> w < length b \<Longrightarrow> p < length b \<Longrightarrow>
     cRingBuffer_getReadableSize (ring b w p) = int (if p \<le> w then w - p else length b - p)"
  by (simp add: cRingBuffer_getReadableSize_def u16_nat del: of_nat_diff)

lemma ring_peek_ring:
  "length b \<le> 32768 \<Longrightarrow> w < length b \<Longrightarrow> p < length b \<Longrightarrow>
     ring_peek (ring b w p) = (if p \<le> w then drop p (take w b) else drop p b)"
  by (simp add: ring_peek_def cRingBuffer_pread_def readable_ring u16_nat drop_take
      del: of_nat_diff)

text \<open>Initialising or resetting empties the ring.\<close>

lemma ring_initialize_inv:
  assumes "unat n = length b" "0 < length b" "length b \<le> 32768"
  shows "ring_inv (cRingBuffer_initialize b n)" "ring_content (cRingBuffer_initialize b n) = []"
  using assms by (auto simp: ring_inv_def cRingBuffer_initialize_def ring_content_def
      word_less_nat_alt)

lemma ring_reset_inv:
  assumes "ring_inv r"
  shows "ring_inv (cRingBuffer_reset r)" "ring_content (cRingBuffer_reset r) = []"
  using assms by (auto simp: ring_inv_def cRingBuffer_reset_def ring_content_def word_less_nat_alt)

text \<open>
  Writing within the room there is: the bytes up to the end of the buffer, then the rest at its
  start. The three cases are a write that does not reach the end, one that goes around it and one
  into the gap before the read offset.
\<close>

lemma ring_write_left_ring:
  "w + l < 65536 \<Longrightarrow> ring_write_left (ring b w0 p) xs (of_nat w) k (int l) ws =
     (case copy_at b w xs k l of
        None \<Rightarrow> if l = 0 then Some (uint ws, ring b w p) else None
      | Some b' \<Rightarrow> if l = 0 then Some (uint ws, ring b w p)
          else Some (uint ws, ring b' (w + l) p))"
  by (auto simp: ring_write_left_def unat_of_nat_u16 copy_at_length split: option.split)

lemma cRingBuffer_write_ge:
  assumes b: "length b \<le> 32768" "w < length b" "p \<le> w"
    and N: "N + w + 1 = length b + p" and M: "M + w = length b" and n: "n \<le> N"
  shows "cRingBuffer_write (ring b w p) xs (int n) =
    (if N = 0 then Some (0, ring b w p)
     else case copy_at b w xs 0 (min n M) of
            None \<Rightarrow> None
          | Some b' \<Rightarrow> ring_write_left (ring b' w p) xs (of_nat ((w + min n M) mod length b))
              (min n M) (int (n - min n M)) (of_nat n))"
proof -
  have lt: "N < 65536" "M < 65536" "n < 65536" "w < 65536" "p < 65536" "length b < 65536"
    using b N M n by linarith+
  have ws: "int (length b) - (int w - int p) - 1 = int N"
    using N by linarith
  have rw: "(of_nat (length b) :: u16) - of_nat w = of_nat M"
    by (simp flip: M)
  have nN: "(if int n < int N then of_nat n else of_nat N) = (of_nat n :: u16)"
    using n by auto
  have one: "(of_nat N :: u16) < 1 \<longleftrightarrow> N = 0"
    using u16_of_nat_less [OF lt(1), of 1] by simp
  have l: "(if (of_nat n :: u16) < of_nat M then int n else int M) = int (min n M)"
    using lt by (simp add: u16_of_nat_less min_def)
  have pw: "(of_nat p :: u16) \<le> of_nat w"
    using lt b by (simp add: u16_of_nat_le)
  have bl: "(of_nat (length b) :: u16) \<noteq> 0"
    using b unat_of_nat_u16 [OF lt(6)] by auto
  have m: "int w + int (min n M) = int (w + min n M)" "int n - int (min n M) = int (n - min n M)"
    by (simp_all add: of_nat_diff)
  show ?thesis
    unfolding cRingBuffer_write_def ring_buffer.simps Let_def uint_of_nat_u16 [OF lt(1)]
      uint_of_nat_u16 [OF lt(2)] uint_of_nat_u16 [OF lt(3)] uint_of_nat_u16 [OF lt(4)]
      uint_of_nat_u16 [OF lt(5)] uint_of_nat_u16 [OF lt(6)] ws of_int_of_nat_eq one nN rw l m
      unat_of_nat_u16 [OF lt(4)] nat_int
    using pw bl by (auto simp: copy_at_length zmod_int [symmetric] simp del: of_nat_add of_nat_diff split: option.split)
qed

lemma cRingBuffer_write_less:
  assumes b: "length b \<le> 32768" "p < length b" "w < p" and N: "N + w + 1 = p" and n: "n \<le> N"
  shows "cRingBuffer_write (ring b w p) xs (int n) =
    ring_write_left (ring b w p) xs (of_nat w) 0 (int n) (of_nat n)"
proof -
  have lt: "N < 65536" "n < 65536" "w < 65536" "p < 65536"
    using b N n by linarith+
  have ws: "int p - int w - 1 = int N"
    using N by linarith
  have nN: "(if int n < int N then of_nat n else of_nat N) = (of_nat n :: u16)"
    using n by auto
  have pw: "\<not> (of_nat p :: u16) \<le> of_nat w"
    using lt b by (simp add: u16_of_nat_le)
  show ?thesis
    unfolding cRingBuffer_write_def ring_buffer.simps Let_def uint_of_nat_u16 [OF lt(1)]
      uint_of_nat_u16 [OF lt(2)] uint_of_nat_u16 [OF lt(3)] uint_of_nat_u16 [OF lt(4)]
      ws of_int_of_nat_eq nN
    using pw by simp
qed

text \<open>The three ways a write goes, by the parts of the buffer.\<close>

lemma write_right:
  assumes b: "length b \<le> 32768" "w < length b" "p \<le> w" and "w + length xs < length b"
  shows "cRingBuffer_write (ring b w p) (xs @ zs) (int (length xs)) =
    Some (int (length xs), ring (take w b @ xs @ drop (w + length xs) b) (w + length xs) p)"
proof -
  obtain M where M: "M + w = length b"
    using b by (metis add.commute less_imp_add_positive)
  obtain N where N: "N + w + 1 = length b + p"
    using assms M by (metis Suc_eq_plus1 add.assoc add.commute less_natE less_add_eq_less b(2) le_add1 trans_less_add1)
  have m: "length xs \<le> N" "min (length xs) M = length xs" "length xs < 65536"
    "w + length xs < 65536" "w + length xs + 0 < 65536"
    using assms M N by linarith+
  let ?b = "take w b @ xs @ drop (w + length xs) b"
  have "copy_at b w (xs @ zs) 0 (length xs) = Some ?b" "N = 0 \<Longrightarrow> xs = []"
    using assms m by (simp_all add: copy_at_def blit_def)
  moreover have "length ?b = length b"
    using assms by simp
  moreover have "(w + length xs) mod length b = w + length xs"
    using assms by simp
  ultimately show ?thesis
    using cRingBuffer_write_ge [OF b N M m(1), of "xs @ zs"] m(2-4)
      ring_write_left_ring [OF m(5), of ?b w p "xs @ zs" "length xs" "of_nat (length xs)"]
    by (auto simp: uint_of_nat_u16 simp del: of_nat_add split: option.splits)
qed

lemma write_around:
  assumes b: "length b \<le> 32768" "w < length b" "p \<le> w"
    and M: "m + w = length b" and xs: "length xs = m + k" "k < p"
  shows "cRingBuffer_write (ring b w p) (xs @ zs) (int (length xs)) =
    Some (int (length xs), ring (drop m xs @ drop k (take w b) @ take m xs) k p)"
proof -
  obtain N where N: "N + w + 1 = length b + p"
    using xs M by (metis Suc_eq_plus1 less_natE add.commute add.assoc)
  have m: "length xs \<le> N" "min (length xs) m = m" "N \<noteq> 0" "length xs - m = k" "k \<le> w"
    "length xs < 65536" "0 + k < 65536"
    using assms N by linarith+
  have "copy_at b w (xs @ zs) 0 m = Some (take w b @ take m xs)"
    using M xs by (simp add: copy_at_def blit_def)
  moreover have "copy_at (take w b @ take m xs) 0 (xs @ zs) m k =
      Some (drop m xs @ drop k (take w b) @ take m xs)"
    using M xs m by (simp add: copy_at_def blit_def)
  moreover have "length (take w b @ take m xs) = length b"
    "length (drop m xs @ drop k (take w b) @ take m xs) = length b"
    using M xs m by simp_all
  moreover have "k = 0 \<Longrightarrow> drop m xs = []" using xs by simp
  ultimately show ?thesis
    using cRingBuffer_write_ge [OF b N M m(1), of "xs @ zs"] m M b
      ring_write_left_ring [OF m(7), of "take w b @ take m xs" w p "xs @ zs" m "of_nat (length xs)"]
    by (auto simp: uint_of_nat_u16 add.commute simp del: of_nat_add)
qed

lemma write_gap:
  assumes "length b \<le> 32768" "p < length b" "w + length xs < p"
  shows "cRingBuffer_write (ring b w p) (xs @ zs) (int (length xs)) =
    Some (int (length xs), ring (take w b @ xs @ drop (w + length xs) b) (w + length xs) p)"
proof -
  obtain N where N: "N + w + 1 = p"
    using assms by (metis Suc_eq_plus1 less_natE add.commute add.assoc)
  then have "length xs \<le> N" "w < p" using assms by linarith+
  then show ?thesis
    using cRingBuffer_write_less [OF assms(1,2) _ N, of "length xs" "xs @ zs"] assms
    by (auto simp: ring_write_left_ring copy_at_def blit_def u16_nat)
qed

lemma ring_result:
  assumes "f = Some (ring b w p)" "length b \<le> 32768" "w < length b" "p < length b"
    and "c = (if p \<le> w then drop p (take w b) else drop p b @ take w b)"
    and "m = (if p \<le> w then length b - (w - p) - 1 else p - w - 1)"
  shows "\<exists>r'. f = Some r' \<and> ring_inv r' \<and> ring_content r' = c \<and> ring_room r' = m"
  using assms by (simp add: ring_content_ring ring_room_ring)

lemma ring_write_result:
  assumes "f = Some (x, ring b w p)" "length b \<le> 32768" "w < length b" "p < length b"
    and "c = (if p \<le> w then drop p (take w b) else drop p b @ take w b)"
    and "m = (if p \<le> w then length b - (w - p) - 1 else p - w - 1)"
  shows "\<exists>r'. f = Some (x, r') \<and> ring_inv r' \<and> ring_content r' = c \<and> ring_room r' = m"
  using assms by (simp add: ring_content_ring ring_room_ring)

lemma ring_write_fits:
  assumes "ring_inv r" "length xs \<le> ring_room r"
  shows "\<exists>r'. cRingBuffer_write r (xs @ zs) (int (length xs)) = Some (int (length xs), r') \<and>
    ring_inv r' \<and> ring_content r' = ring_content r @ xs \<and> ring_room r' = ring_room r - length xs"
proof -
  obtain b w p where r: "r = ring b w p" and b: "length b \<le> 32768" "w < length b" "p < length b"
    using assms(1) by (rule ring_invE)
  have room: "length xs \<le> (if p \<le> w then length b - (w - p) - 1 else p - w - 1)"
    using assms(2) b unfolding r by (simp add: ring_room_ring)
  consider "p \<le> w" "w + length xs < length b" | "p \<le> w" "length b \<le> w + length xs" | "w < p"
    by linarith
  then show ?thesis
  proof cases
    case 1
    show ?thesis unfolding r ring_content_ring [OF b] ring_room_ring [OF b]
      by (rule ring_write_result [OF write_right [OF b(1,2) 1]]) (use 1 b in simp_all)
  next
    case 2
    obtain m where m: "m + w = length b"
      using b by (metis add.commute less_imp_add_positive)
    then obtain k where k: "length xs = m + k"
      using 2 by (metis add.commute add_le_cancel_right le_iff_add)
    have lt: "k < p" using room b m k 2(1) by auto
    show ?thesis unfolding r ring_content_ring [OF b] ring_room_ring [OF b]
      by (rule ring_write_result [OF write_around [OF b(1,2) 2(1) m k lt]])
        (use 2(1) b lt k in \<open>simp_all add: drop_take flip: m\<close>)
  next
    case 3
    then have lt: "w + length xs < p" using room by auto
    show ?thesis unfolding r ring_content_ring [OF b] ring_room_ring [OF b]
      by (rule ring_write_result [OF write_gap [OF b(1,3) lt]]) (use 3 b lt in simp_all)
  qed
qed

text \<open>A longer write is cut to the room there is.\<close>

lemma ring_write_clip:
  assumes "ring_inv r" "ring_room r \<le> n"
  shows "cRingBuffer_write r xs (int n) = cRingBuffer_write r xs (int (ring_room r))"
proof -
  obtain b w p where r: "r = ring b w p" and b: "length b \<le> 32768" "w < length b" "p < length b"
    using assms(1) by (rule ring_invE)
  define N where "N = ring_room r"
  have N: "N < 65536" "N \<le> n" using assms(2) b by (auto simp: N_def r ring_room_ring)
  have eq: "p \<le> w \<Longrightarrow> int (length b) - (int w - int p) - 1 = int N"
    "w < p \<Longrightarrow> int p - int w - 1 = int N"
    using b by (auto simp: N_def r ring_room_ring)
  show ?thesis
    using b eq N unfolding N_def [symmetric] unfolding r
    by (cases "p \<le> w") (simp_all add: cRingBuffer_write_def u16_nat Let_def del: of_nat_diff)
qed

lemma ring_put_ok:
  assumes "ring_inv r" "length xs \<le> ring_room r"
  shows "\<exists>r'. ring_put r xs = Some r' \<and> ring_inv r' \<and> ring_content r' = ring_content r @ xs \<and>
    ring_room r' = ring_room r - length xs"
  using ring_write_fits [OF assms, of "[]"] by (auto simp: ring_put_def)

lemma ring_discard_ok:
  assumes "ring_inv r" "n \<le> length (ring_peek r)"
  shows "\<exists>r'. ring_discard r n = Some r' \<and> ring_inv r' \<and> ring_content r' = drop n (ring_content r) \<and>
    ring_room r' = ring_room r + n"
proof -
  obtain b w p where r: "r = ring b w p" and b: "length b \<le> 32768" "w < length b" "p < length b"
    using assms(1) by (rule ring_invE)
  have n: "n \<le> (if p \<le> w then w - p else length b - p)"
    using assms(2) b unfolding r by (auto simp: ring_peek_ring split: if_splits)
  then have lt: "n < 65536" "p + n \<le> length b" using b by (auto split: if_splits)
  have "word_of_int (int (p + n) mod int (length b)) = (of_nat ((p + n) mod length b) :: u16)"
    by (metis of_int_of_nat_eq of_nat_mod)
  moreover have "(of_nat (length b) :: u16) \<noteq> 0"
    using b unat_of_nat_u16 [of "length b"] by auto
  ultimately have "ring_discard (ring b w p) n = Some (ring b w ((p + n) mod length b))"
    using n b lt
    by (simp add: ring_discard_def cRingBuffer_preadSeek_def readable_ring u16_nat
        del: of_nat_mod of_nat_diff)
  then show ?thesis unfolding r ring_content_ring [OF b] ring_room_ring [OF b]
  proof (rule ring_result)
    have "p \<le> w \<Longrightarrow> n + p \<le> w" using n by simp
    then show "drop n (if p \<le> w then drop p (take w b) else drop p b @ take w b) =
      (if (p + n) mod length b \<le> w then drop ((p + n) mod length b) (take w b)
       else drop ((p + n) mod length b) b @ take w b)"
      using n b lt by (cases "p \<le> w"; cases "p + n = length b") (simp_all add: add.commute)
    show "(if p \<le> w then length b - (w - p) - 1 else p - w - 1) + n =
      (if (p + n) mod length b \<le> w then length b - (w - (p + n) mod length b) - 1
       else (p + n) mod length b - w - 1)"
      using n b lt by (cases "p + n = length b"; cases "p \<le> w") (simp_all add: add.assoc)
  qed (use b in \<open>auto intro!: mod_less_divisor le_less_trans [of 0 w]\<close>)
qed

lemma ring_peek_content:
  assumes "ring_inv r"
  shows "\<exists>rest. ring_content r = ring_peek r @ rest" "ring_content r \<noteq> [] \<Longrightarrow> ring_peek r \<noteq> []"
  using assms by (auto elim!: ring_invE simp: ring_content_ring ring_peek_ring split: if_splits)

interpretation rq: byte_queue ring_inv ring_content ring_room ring_put ring_peek ring_discard
  by unfold_locales (use ring_put_ok ring_discard_ok ring_peek_content in auto)

section \<open>Properties\<close>

text \<open>
  \<open>NyLPC_cRingBuffer_write\<close> stores as many of the given bytes as there is room for, behind
  what the ring already holds, around the end of the buffer where needed; it returns that number,
  stays inside the buffer and keeps the ring well formed.
\<close>

theorem ring_write_correct:
  assumes "ring_inv r"
  shows "\<exists>r'. cRingBuffer_write r xs (int (length xs)) =
      Some (int (min (length xs) (ring_room r)), r') \<and> ring_inv r' \<and>
    ring_content r' = ring_content r @ take (ring_room r) xs"
proof (cases "length xs \<le> ring_room r")
  case True
  then show ?thesis using ring_write_fits [OF assms True, of "[]"] by auto
next
  case False
  then show ?thesis
    using ring_write_fits [OF assms, of "take (ring_room r) xs" "drop (ring_room r) xs"]
      ring_write_clip [OF assms, of "length xs" xs] by (auto simp: min_def)
qed

theorem ring_write_correct_witness:
  "ring_inv (ring [1, 2, 3, 4] 3 2) \<and> (\<exists>r'. cRingBuffer_write (ring [1, 2, 3, 4] 3 2) [7, 8, 9] 3 =
     Some (2, r') \<and> ring_content r' = [3, 7, 8])"
  using ring_write_correct [of "ring [1, 2, 3, 4] 3 2" "[7, 8, 9]"]
    ring_inv_ring [of "[1, 2, 3, 4]" 3 2] ring_room_ring [of "[1, 2, 3, 4]" 3 2]
    ring_content_ring [of "[1, 2, 3, 4]" 3 2]
  by auto

text \<open>
  C7: The ring buffer is a first-in first-out queue of fixed capacity: whatever puts and seeks a
  client makes, the bytes read followed by the bytes still in the ring are the bytes it held
  before followed by the bytes written; no operation faults, and room plus content is constant.
\<close>

theorem ring_fifo:
  assumes "ring_inv r"
  shows "\<exists>t ins outs. queue_run ring_room ring_put ring_peek ring_discard r ops = Some (t, ins, outs) \<and>
    ring_inv t \<and> outs @ ring_content t = ring_content r @ ins \<and>
    ring_room t + length (ring_content t) = ring_room r + length (ring_content r)"
  by (rule rq.run_fifo [OF assms])

theorem ring_fifo_witness:
  "ring_inv (cRingBuffer_initialize [0, 0, 0] 3) \<and>
   (\<exists>t ins outs. queue_run ring_room ring_put ring_peek ring_discard
      (cRingBuffer_initialize [0, 0, 0] 3) [Put [5, 6], Drop 1, Put [7], Drop 2] = Some (t, ins, outs) \<and>
    outs @ ring_content t = ins)"
  using ring_fifo [OF ring_initialize_inv(1) [of 3 "[0, 0, 0]"],
      of "[Put [5, 6], Drop 1, Put [7], Drop 2]"]
    ring_initialize_inv [of 3 "[0, 0, 0]"] by auto

text \<open>
  Reading what \<open>pread\<close> shows and seeking over it, again and again, delivers everything the
  ring holds in order and ends with an empty ring, although one look shows only the part up to
  the end of the buffer; as many rounds as there are bytes are enough.
\<close>

theorem ring_drain:
  assumes "ring_inv r"
  shows "\<exists>t. queue_drain ring_peek ring_discard (length (ring_content r)) r = Some (t, ring_content r) \<and>
    ring_inv t \<and> ring_content t = []"
  by (rule rq.drain_all [OF assms order_refl])

theorem ring_drain_witness:
  "ring_inv (ring [1, 2, 3, 4] 1 2) \<and> (\<exists>t. queue_drain ring_peek ring_discard
     (length (ring_content (ring [1, 2, 3, 4] 1 2))) (ring [1, 2, 3, 4] 1 2) = Some (t, [3, 4, 1]))"
  using ring_drain [of "ring [1, 2, 3, 4] 1 2"]
    ring_inv_ring [of "[1, 2, 3, 4]" 1 2] ring_content_ring [of "[1, 2, 3, 4]" 1 2]
  by auto

end
