(* ===== verification/PtrTbl.thy ===== *)
theory PtrTbl
  imports Prelude
begin

text \<open>
  \<open>NyLPC_cPtrTbl.c\<close>: a fixed array of pointers with the number of those that are not
  \<open>NULL\<close>. A pointer is an \<open>option\<close>, \<open>None\<close> is \<open>NULL\<close>; an access outside the array is
  the outer \<open>None\<close> of an operation. Indices are returned as \<open>NyLPC_TInt16\<close>.
\<close>

record 'p ptr_tbl =
  tsize :: u16
  tlen :: u16
  tbuf :: "'p option list"

definition cPtrTbl_initialize :: "'p option list \<Rightarrow> u16 \<Rightarrow> 'p ptr_tbl option" where
  "cPtrTbl_initialize i_buf i_size =
     map_option (\<lambda>b. \<lparr>tsize = i_size, tlen = 0, tbuf = b\<rparr>) (blit i_buf 0 (replicate (unat i_size) None))"

definition cPtrTbl_get :: "'p ptr_tbl \<Rightarrow> u16 \<Rightarrow> 'p option option" where
  "cPtrTbl_get t i_index = rd (tbuf t) (unat i_index)"

definition cPtrTbl_set :: "'p ptr_tbl \<Rightarrow> u16 \<Rightarrow> 'p option \<Rightarrow> 'p ptr_tbl option" where
  "cPtrTbl_set t i_index i_val =
     (case rd (tbuf t) (unat i_index) of
        None \<Rightarrow> None
      | Some p \<Rightarrow>
          let n = (if p = None then if i_val \<noteq> None then tlen t + 1 else tlen t
                   else if i_val = None then tlen t - 1 else tlen t)
          in map_option (\<lambda>b. t\<lparr>tlen := n, tbuf := b\<rparr>) (wr (tbuf t) (unat i_index) i_val))"

text \<open>The loops of \<open>add\<close> and \<open>getIndex\<close>: from \<open>size-1\<close> down to 0.\<close>

fun scan_down :: "'p option list \<Rightarrow> 'p option \<Rightarrow> nat \<Rightarrow> nat option option" where
  "scan_down b v 0 = Some None"
| "scan_down b v (Suc i) = (case rd b i of
     None \<Rightarrow> None | Some p \<Rightarrow> if p = v then Some (Some i) else scan_down b v i)"

definition cPtrTbl_add :: "'p ptr_tbl \<Rightarrow> 'p option \<Rightarrow> (int \<times> 'p ptr_tbl) option" where
  "cPtrTbl_add t i_val =
     (case scan_down (tbuf t) None (unat (tsize t)) of
        None \<Rightarrow> None
      | Some None \<Rightarrow> Some (- 1, t)
      | Some (Some i) \<Rightarrow>
          map_option (\<lambda>t'. (sint (of_nat i :: u16), t')) (cPtrTbl_set t (of_nat i) i_val))"

definition cPtrTbl_remove :: "'p ptr_tbl \<Rightarrow> u16 \<Rightarrow> 'p ptr_tbl option" where
  "cPtrTbl_remove t i_index = cPtrTbl_set t i_index None"

definition cPtrTbl_getIndex :: "'p ptr_tbl \<Rightarrow> 'p option \<Rightarrow> int option" where
  "cPtrTbl_getIndex t i_val =
     (case scan_down (tbuf t) i_val (unat (tsize t)) of
        None \<Rightarrow> None
      | Some None \<Rightarrow> Some (- 1)
      | Some (Some i) \<Rightarrow> Some (sint (of_nat i :: u16)))"

definition cPtrTbl_getLength :: "'p ptr_tbl \<Rightarrow> int" where
  "cPtrTbl_getLength t = sint (tlen t)"

definition cPtrTbl_hasEmpty :: "'p ptr_tbl \<Rightarrow> bool" where
  "cPtrTbl_hasEmpty t \<longleftrightarrow> tlen t < tsize t"

section \<open>Invariant\<close>

definition live :: "'p option list \<Rightarrow> nat" where
  "live b = length (filter (\<lambda>p. p \<noteq> None) b)"

definition ptr_tbl_inv :: "'p ptr_tbl \<Rightarrow> bool" where
  "ptr_tbl_inv t \<longleftrightarrow> unat (tsize t) = length (tbuf t) \<and> length (tbuf t) \<le> 32767 \<and>
     unat (tlen t) = live (tbuf t)"

lemma live_simps [simp]:
  "live [] = 0" "live (p # b) = live b + (if p = None then 0 else 1)"
  by (simp_all add: live_def)

lemma live_le: "live b \<le> length b"
  by (simp add: live_def)

lemma live_full_iff: "live b = length b \<longleftrightarrow> None \<notin> set b"
proof (induction b)
  case (Cons p b)
  then show ?case using live_le [of b] by auto
qed simp

lemma live_update:
  "i < length b \<Longrightarrow> live (b[i := v]) + (if b ! i = None then 0 else 1) =
     live b + (if v = None then 0 else 1)"
proof (induction b arbitrary: i)
  case (Cons p b)
  then show ?case by (cases i) auto
qed simp

lemma set_inv:
  assumes "ptr_tbl_inv t" "unat i < length (tbuf t)"
  shows "\<exists>t'. cPtrTbl_set t i v = Some t' \<and> ptr_tbl_inv t' \<and>
    tbuf t' = (tbuf t)[unat i := v] \<and> tsize t' = tsize t"
proof -
  have le: "live (tbuf t) \<le> length (tbuf t)" "live ((tbuf t)[unat i := v]) \<le> length (tbuf t)"
    using live_le [of "tbuf t"] live_le [of "(tbuf t)[unat i := v]"] by simp_all
  have "unat (tlen t + 1) = unat (tlen t) + 1"
    using assms le by (subst unat_add_small) (simp_all add: ptr_tbl_inv_def)
  moreover have "0 < unat (tlen t) \<Longrightarrow> unat (tlen t - 1) = unat (tlen t) - 1"
    by (subst unat_sub_le) (simp_all add: word_le_nat_alt)
  ultimately show ?thesis
    using assms le live_update [OF assms(2), of v]
    by (auto simp: cPtrTbl_set_def ptr_tbl_inv_def rd_def wr_def Let_def split: if_splits)
qed

lemma getLength_live:
  assumes "ptr_tbl_inv t"
  shows "cPtrTbl_getLength t = int (live (tbuf t))"
proof -
  have "unat (tlen t) < 32768" "unat (tlen t) = live (tbuf t)"
    using assms live_le [of "tbuf t"] by (simp_all add: ptr_tbl_inv_def)
  then show ?thesis
    using sint_of_nat_u16 [of "unat (tlen t)"] by (metis cPtrTbl_getLength_def u16_of_nat_unat)
qed

text \<open>The scan finds the last slot that holds the pointer.\<close>

lemma scan_down_eq:
  "n \<le> length b \<Longrightarrow> scan_down b v n =
     Some (if v \<in> set (take n b) then Some (Max {i. i < n \<and> b ! i = v}) else None)"
proof (induction n)
  case (Suc n)
  then have tk: "set (take (Suc n) b) = insert (b ! n) (set (take n b))"
    by (simp add: take_Suc_conv_app_nth)
  have "{i. i < Suc n \<and> b ! i = v} = (if b ! n = v then insert n {i. i < n \<and> b ! i = v}
      else {i. i < n \<and> b ! i = v})"
    by (auto simp: less_Suc_eq)
  moreover have "Max (insert n {i. i < n \<and> b ! i = v}) = n"
    by (rule Max_eqI) auto
  ultimately show ?case
    using Suc tk by (auto simp: rd_def)
qed simp

lemma scan_down_full:
  assumes "ptr_tbl_inv t"
  obtains (absent) "v \<notin> set (tbuf t)" "scan_down (tbuf t) v (unat (tsize t)) = Some None"
  | (found) i where "i < length (tbuf t)" "tbuf t ! i = v" "i < 32768"
      "scan_down (tbuf t) v (unat (tsize t)) = Some (Some i)"
      "\<And>j. i < j \<Longrightarrow> j < length (tbuf t) \<Longrightarrow> tbuf t ! j \<noteq> v"
proof (cases "v \<in> set (tbuf t)")
  case True
  let ?S = "{i. i < length (tbuf t) \<and> tbuf t ! i = v}"
  have "?S \<noteq> {}" "finite ?S" using True by (auto simp: in_set_conv_nth)
  then have "Max ?S \<in> ?S" "\<And>j. j \<in> ?S \<Longrightarrow> \<not> Max ?S < j"
    using Max_in [of ?S] Max_ge [of ?S] not_less by blast+
  then show ?thesis
    using True assms by (intro found [of "Max ?S"]) (auto simp: scan_down_eq ptr_tbl_inv_def)
next
  case False
  then show ?thesis using assms by (intro absent) (simp_all add: scan_down_eq ptr_tbl_inv_def)
qed

section \<open>Properties\<close>

text \<open>
  \<open>NyLPC_cPtrTbl_add\<close> on a well-formed table either finds no \<open>NULL\<close> slot, exactly when
  \<open>hasEmpty\<close> is false, and returns -1 with the table unchanged; or it stores the pointer in the
  free slot whose index it returns, touches no other slot, and the table stays well formed, its
  count of pointers one larger.
\<close>

theorem ptr_tbl_add_correct:
  assumes "ptr_tbl_inv t"
  shows "if cPtrTbl_hasEmpty t
    then \<exists>i t'. cPtrTbl_add t (Some p) = Some (int i, t') \<and> ptr_tbl_inv t' \<and>
      i < length (tbuf t) \<and> tbuf t ! i = None \<and> tbuf t' = (tbuf t)[i := Some p] \<and>
      cPtrTbl_getLength t' = cPtrTbl_getLength t + 1
    else cPtrTbl_add t (Some p) = Some (- 1, t)"
proof -
  have empty: "cPtrTbl_hasEmpty t \<longleftrightarrow> None \<in> set (tbuf t)"
    using assms live_full_iff [of "tbuf t"] live_le [of "tbuf t"]
    by (auto simp: cPtrTbl_hasEmpty_def ptr_tbl_inv_def word_less_nat_alt)
  from assms show ?thesis
  proof (cases rule: scan_down_full [where v = None])
    case absent
    then show ?thesis using empty by (simp add: cPtrTbl_add_def)
  next
    case (found i)
    have u: "unat (of_nat i :: u16) = i" using found(3) by (simp add: unat_of_nat_u16)
    obtain t' where t': "cPtrTbl_set t (of_nat i) (Some p) = Some t'" "ptr_tbl_inv t'"
        "tbuf t' = (tbuf t)[i := Some p]"
      using set_inv [OF assms, of "of_nat i" "Some p"] found(1) u by auto
    have "live (tbuf t') = live (tbuf t) + 1"
      using live_update [OF found(1), of "Some p"] found(2) t'(3) by simp
    then have "cPtrTbl_getLength t' = cPtrTbl_getLength t + 1"
      by (simp add: getLength_live [OF assms] getLength_live [OF t'(2)])
    moreover have "None \<in> set (tbuf t)" using found(1,2) by (metis nth_mem)
    ultimately show ?thesis
      using t' found empty by (auto simp: cPtrTbl_add_def sint_of_nat_u16)
  qed
qed

theorem ptr_tbl_add_correct_witness:
  "ptr_tbl_inv \<lparr>tsize = 2, tlen = 1, tbuf = [None, Some (7 :: nat)]\<rparr> \<and>
   (\<exists>i t'. cPtrTbl_add \<lparr>tsize = 2, tlen = 1, tbuf = [None, Some (7 :: nat)]\<rparr> (Some 9) = Some (int i, t') \<and>
     i < 2 \<and> [None, Some 7 :: nat option] ! i = None \<and> cPtrTbl_getLength t' = 2)"
proof
  show inv: "ptr_tbl_inv \<lparr>tsize = 2, tlen = 1, tbuf = [None, Some (7 :: nat)]\<rparr>"
    by (simp add: ptr_tbl_inv_def live_def)
  show "\<exists>i t'. cPtrTbl_add \<lparr>tsize = 2, tlen = 1, tbuf = [None, Some (7 :: nat)]\<rparr> (Some 9) = Some (int i, t') \<and>
     i < 2 \<and> [None, Some 7 :: nat option] ! i = None \<and> cPtrTbl_getLength t' = 2"
    using ptr_tbl_add_correct [OF inv, of 9]
    by (simp add: cPtrTbl_hasEmpty_def cPtrTbl_getLength_def numeral_2_eq_2 del: nth_Cons_Suc) blast
qed

end
