(* ===== verification/MiMicVM.thy ===== *)
theory MiMicVM
  imports Prelude
begin

text \<open>
  \<open>NyLPC_cMiMicVM.c\<close>, \<open>NyLPC_cMiMicVM.h\<close> and \<open>NyLPC_cMiMicVM_protected.h\<close>: the MiMic virtual
  machine, which runs remote procedures on eight 32-bit work registers \<open>wm\<close>. A program is an
  array of 32-bit words; an instruction is one or two of them, read through the little-endian
  union \<open>NyLPC_TcMiMicVM_TInstruction\<close>. The event handler (the streams, \<open>sleep\<close>, native calls)
  and the memory that \<open>MGET\<close> and \<open>MPUT\<close> reach by address are parameters: a record of functions
  on an environment \<open>'e\<close>. \<open>None\<close> is behaviour C leaves undefined: a register index of 8 or
  more, a shift of 32 or more, an instruction outside the program.
\<close>

unbundle bit_operations_syntax

section \<open>Codes\<close>

abbreviation (input) "OP_TYPE_AND \<equiv> (0x11 :: u8)"
abbreviation (input) "OP_TYPE_OR \<equiv> (0x12 :: u8)"
abbreviation (input) "OP_TYPE_XOR \<equiv> (0x13 :: u8)"
abbreviation (input) "OP_TYPE_NOT \<equiv> (0x14 :: u8)"
abbreviation (input) "OP_TYPE_SHL \<equiv> (0x21 :: u8)"
abbreviation (input) "OP_TYPE_SHR \<equiv> (0x22 :: u8)"
abbreviation (input) "OP_TYPE_ADD \<equiv> (0x31 :: u8)"
abbreviation (input) "OP_TYPE_SUB \<equiv> (0x32 :: u8)"
abbreviation (input) "OP_TYPE_MUL \<equiv> (0x33 :: u8)"
abbreviation (input) "OP_TYPE_MGET \<equiv> (0x41 :: u8)"
abbreviation (input) "OP_TYPE_MPUT \<equiv> (0x42 :: u8)"
abbreviation (input) "OP_TYPE_SGET \<equiv> (0x51 :: u8)"
abbreviation (input) "OP_TYPE_SPUT \<equiv> (0x52 :: u8)"
abbreviation (input) "OP_TYPE_NOP \<equiv> (0x61 :: u8)"
abbreviation (input) "OP_TYPE_EXIT \<equiv> (0x62 :: u8)"
abbreviation (input) "OP_TYPE_CALL \<equiv> (0x63 :: u8)"
abbreviation (input) "OP_TYPE_LD \<equiv> (0x71 :: u8)"
abbreviation (input) "CP_TYPE_END \<equiv> (0x01 :: u8)"

abbreviation (input) "OPR_TYPE_NONE \<equiv> (0x01 :: u8)"
abbreviation (input) "OPR_TYPE_WM_WM \<equiv> (0x11 :: u8)"
abbreviation (input) "OPR_TYPE_WM_H08 \<equiv> (0x12 :: u8)"
abbreviation (input) "OPR_TYPE_WM_H16 \<equiv> (0x13 :: u8)"
abbreviation (input) "OPR_TYPE_WM_H32 \<equiv> (0x14 :: u8)"
abbreviation (input) "OPR_TYPE_WM \<equiv> (0x21 :: u8)"
abbreviation (input) "OPR_TYPE_H08 \<equiv> (0x22 :: u8)"
abbreviation (input) "OPR_TYPE_H16 \<equiv> (0x23 :: u8)"
abbreviation (input) "OPR_TYPE_H32 \<equiv> (0x24 :: u8)"

abbreviation (input) "RESULT_OK \<equiv> (0x00000000 :: u32)"
abbreviation (input) "RESULT_RUNTIME_NG \<equiv> (0x80010000 :: u32)"

abbreviation (input) "NUMBER_OF_WM \<equiv> 8"

definition RESULT_isOK :: "u32 \<Rightarrow> bool" where
  "RESULT_isOK v \<longleftrightarrow> v AND 0x80000000 = 0"

section \<open>State\<close>

record 'e vm =
  wm :: "u32 list"
  env :: 'e

text \<open>
  \<open>get_stream\<close> is given the register it may overwrite; \<open>native_call\<close> is given the whole
  machine. \<open>bus_read\<close> and \<open>bus_write\<close> are the loads and stores of \<open>MGET\<close> and \<open>MPUT\<close>.
\<close>

record 'e events =
  put_stream :: "'e \<Rightarrow> u32 \<Rightarrow> bool \<times> 'e"
  get_stream :: "'e \<Rightarrow> u32 \<Rightarrow> bool \<times> u32 \<times> 'e"
  sleep :: "'e \<Rightarrow> u32 \<Rightarrow> 'e"
  native_call :: "'e vm \<Rightarrow> u32 \<Rightarrow> u32 \<times> 'e vm"
  bus_read :: "'e \<Rightarrow> u32 \<Rightarrow> u32 \<times> 'e"
  bus_write :: "'e \<Rightarrow> u32 \<Rightarrow> u32 \<Rightarrow> 'e"

text \<open>The bytes of an instruction's first word.\<close>

definition byte_of :: "u32 \<Rightarrow> nat \<Rightarrow> u8" where
  "byte_of w k = ucast (drop_bit (8 * k) w)"

datatype 'e outcome = Next "'e vm" | Stop u32 "'e vm"

section \<open>One instruction\<close>

definition set_wm :: "'e vm \<Rightarrow> u8 \<Rightarrow> u32 \<Rightarrow> 'e vm option" where
  "set_wm s i v = map_option (\<lambda>w. s\<lparr>wm := w\<rparr>) (wr (wm s) (unat i) v)"

text \<open>The instructions of the shape \<open>wm op= operand\<close>; \<open>LD\<close> is plain assignment.\<close>

definition alu_op :: "u8 \<Rightarrow> (u32 \<Rightarrow> u32 \<Rightarrow> u32) option" where
  "alu_op opc =
     (if opc = OP_TYPE_AND then Some (AND)
      else if opc = OP_TYPE_OR then Some (OR)
      else if opc = OP_TYPE_XOR then Some (XOR)
      else if opc = OP_TYPE_ADD then Some (+)
      else if opc = OP_TYPE_SUB then Some (-)
      else if opc = OP_TYPE_MUL then Some (*)
      else if opc = OP_TYPE_LD then Some (\<lambda>_ y. y)
      else None)"

definition shift_op :: "u8 \<Rightarrow> (nat \<Rightarrow> u32 \<Rightarrow> u32) option" where
  "shift_op opc =
     (if opc = OP_TYPE_SHL then Some push_bit
      else if opc = OP_TYPE_SHR then Some drop_bit
      else None)"

definition native :: "'e events \<Rightarrow> 'e vm \<Rightarrow> u32 \<Rightarrow> 'e outcome" where
  "native ev s i = (case native_call ev s i of (tret, s') \<Rightarrow>
     if RESULT_isOK tret then Next s' else Stop tret s')"

definition sput :: "'e events \<Rightarrow> 'e vm \<Rightarrow> u32 \<Rightarrow> 'e outcome" where
  "sput ev s v = (case put_stream ev (env s) v of (ok, e) \<Rightarrow>
     if ok then Next (s\<lparr>env := e\<rparr>) else Stop RESULT_RUNTIME_NG (s\<lparr>env := e\<rparr>))"

text \<open>The \<open>switch\<close> on the opcode and, inside it, on the operand type.\<close>

definition exec_switch :: "'e events \<Rightarrow> 'e vm \<Rightarrow> u32 list \<Rightarrow> nat \<Rightarrow> 'e outcome option" where
  "exec_switch ev s code pc =
     do {
       w \<leftarrow> rd code pc;
       let opc = byte_of w 0; t = byte_of w 1; b2 = byte_of w 2; b3 = byte_of w 3;
           h32 = rd code (pc + 1); NG = Some (Stop RESULT_RUNTIME_NG s)
       in if alu_op opc \<noteq> None then
            (if t = OPR_TYPE_WM_WM then
               do { x \<leftarrow> rd (wm s) (unat b2); y \<leftarrow> rd (wm s) (unat b3);
                    map_option Next (set_wm s b2 (the (alu_op opc) x y)) }
             else if t = OPR_TYPE_WM_H32 then
               do { h \<leftarrow> h32; x \<leftarrow> rd (wm s) (unat b2);
                    map_option Next (set_wm s b2 (the (alu_op opc) x h)) }
             else NG)
          else if opc = OP_TYPE_NOT then
            (if t = OPR_TYPE_WM then
               do { x \<leftarrow> rd (wm s) (unat b2); map_option Next (set_wm s b2 (NOT x)) }
             else NG)
          else if shift_op opc \<noteq> None then
            (if t = OPR_TYPE_WM_H08 then
               do { x \<leftarrow> rd (wm s) (unat b2);
                    if b3 < 32 then map_option Next (set_wm s b2 (the (shift_op opc) (unat b3) x))
                    else None }
             else if t = OPR_TYPE_WM_WM then
               do { x \<leftarrow> rd (wm s) (unat b2); y \<leftarrow> rd (wm s) (unat b3);
                    if y < 32 then map_option Next (set_wm s b2 (the (shift_op opc) (unat y) x))
                    else None }
             else NG)
          else if opc = OP_TYPE_MGET then
            (if t = OPR_TYPE_WM_H32 then
               do { h \<leftarrow> h32; (let (v, e) = bus_read ev (env s) h in
                    map_option Next (set_wm (s\<lparr>env := e\<rparr>) b2 v)) }
             else if t = OPR_TYPE_WM_WM then
               do { a \<leftarrow> rd (wm s) (unat b3); (let (v, e) = bus_read ev (env s) a in
                    map_option Next (set_wm (s\<lparr>env := e\<rparr>) b2 v)) }
             else NG)
          else if opc = OP_TYPE_MPUT then
            (if t = OPR_TYPE_WM_H32 then
               do { h \<leftarrow> h32; x \<leftarrow> rd (wm s) (unat b2);
                    Some (Next (s\<lparr>env := bus_write ev (env s) h x\<rparr>)) }
             else if t = OPR_TYPE_WM_WM then
               do { a \<leftarrow> rd (wm s) (unat b3); x \<leftarrow> rd (wm s) (unat b2);
                    Some (Next (s\<lparr>env := bus_write ev (env s) a x\<rparr>)) }
             else NG)
          else if opc = OP_TYPE_SGET then
            (if t = OPR_TYPE_WM then
               do { x \<leftarrow> rd (wm s) (unat b2); (let (ok, v, e) = get_stream ev (env s) x in
                    do { s' \<leftarrow> set_wm (s\<lparr>env := e\<rparr>) b2 v;
                         Some (if ok then Next s' else Stop RESULT_RUNTIME_NG s') }) }
             else NG)
          else if opc = OP_TYPE_SPUT then
            (if t = OPR_TYPE_WM then do { x \<leftarrow> rd (wm s) (unat b2); Some (sput ev s x) }
             else if t = OPR_TYPE_H32 then do { h \<leftarrow> h32; Some (sput ev s h) }
             else NG)
          else if opc = OP_TYPE_NOP then
            (if t = OPR_TYPE_NONE then Some (Next s)
             else if t = OPR_TYPE_H08 then Some (Next (s\<lparr>env := sleep ev (env s) (ucast b2)\<rparr>))
             else NG)
          else if opc = OP_TYPE_CALL then
            (if t = OPR_TYPE_WM then do { x \<leftarrow> rd (wm s) (unat b2); Some (native ev s x) }
             else if t = OPR_TYPE_H32 then do { h \<leftarrow> h32; Some (native ev s h) }
             else NG)
          else if opc = OP_TYPE_EXIT then Some (Stop RESULT_OK s)
          else NG
     }"

text \<open>The second \<open>switch\<close>: the number of words of the instruction.\<close>

definition word_length :: "u8 \<Rightarrow> u8 option" where
  "word_length t =
     (if t \<in> {OPR_TYPE_NONE, OPR_TYPE_WM_WM, OPR_TYPE_WM_H08, OPR_TYPE_WM, OPR_TYPE_H08, OPR_TYPE_H16}
      then Some 1
      else if t \<in> {OPR_TYPE_WM_H16, OPR_TYPE_WM_H32, OPR_TYPE_H32} then Some 2
      else None)"

text \<open>The result is the number of words, 0 at the end, with \<open>*o_code\<close> and the machine.\<close>

definition process_instruction ::
    "'e events \<Rightarrow> 'e vm \<Rightarrow> u32 list \<Rightarrow> nat \<Rightarrow> (u8 \<times> u32 \<times> 'e vm) option" where
  "process_instruction ev s code pc =
     do {
       r \<leftarrow> exec_switch ev s code pc;
       w \<leftarrow> rd code pc;
       Some (case r of
         Stop c s' \<Rightarrow> (0, c, s')
       | Next s' \<Rightarrow> (case word_length (byte_of w 1) of
           Some n \<Rightarrow> (n, RESULT_OK, s')
         | None \<Rightarrow> (0, RESULT_RUNTIME_NG, s')))
     }"

section \<open>Running a program\<close>

text \<open>
  The loop of \<open>NyLPC_cMiMicVM_run\<close> after the first instruction. \<open>pc\<close> has 16 bits and wraps, so
  the loop is given fuel; \<open>None\<close> of the outer option is fuel that ran out.
\<close>

fun vm_loop :: "nat \<Rightarrow> 'e events \<Rightarrow> 'e vm \<Rightarrow> u32 list \<Rightarrow> u16 \<Rightarrow> u16 \<Rightarrow> u32 \<Rightarrow> u8 \<Rightarrow>
    (u32 \<times> 'e vm) option option" where
  "vm_loop 0 ev s code isize pc retcode proc_in_byte = None"
| "vm_loop (Suc k) ev s code isize pc retcode proc_in_byte =
     (if proc_in_byte > 0 \<and> pc < isize then
        case process_instruction ev s code (unat pc) of
          None \<Rightarrow> Some None
        | Some (n, c, s') \<Rightarrow> vm_loop k ev s' code isize (pc + ucast n) c n
      else Some (Some (retcode, s)))"

definition cMiMicVM_run :: "nat \<Rightarrow> 'e events \<Rightarrow> 'e vm \<Rightarrow> u32 list \<Rightarrow> u16 \<Rightarrow>
    (u32 \<times> 'e vm) option option" where
  "cMiMicVM_run fuel ev s code isize =
     (if isize > 0 then
        case process_instruction ev s code 0 of
          None \<Rightarrow> Some None
        | Some (n, c, s') \<Rightarrow> vm_loop fuel ev s' code isize (ucast n) c n
      else Some (Some (RESULT_OK, s)))"

definition cMiMicVM_sput :: "'e events \<Rightarrow> 'e vm \<Rightarrow> u32 \<Rightarrow> bool \<times> 'e vm" where
  "cMiMicVM_sput ev s v = (case put_stream ev (env s) v of (ok, e) \<Rightarrow> (ok, s\<lparr>env := e\<rparr>))"

definition cMiMicVM_sget :: "'e events \<Rightarrow> 'e vm \<Rightarrow> u32 \<Rightarrow> bool \<times> u32 \<times> 'e vm" where
  "cMiMicVM_sget ev s v = (case get_stream ev (env s) v of (ok, v', e) \<Rightarrow> (ok, v', s\<lparr>env := e\<rparr>))"

section \<open>The instruction set as the machine understands it\<close>

text \<open>
  The operand of an instruction, by the shapes of the union, and the meaning of an instruction
  with its operand: what one entry of a program does, whatever its encoding.
\<close>

datatype operand = NoOpr | WmWm u8 u8 | WmH08 u8 u8 | WmH32 u8 u32 | Wm u8 | H08 u8 | H32 u32

type_synonym instr = "u8 \<times> operand"

fun opr_words :: "operand \<Rightarrow> nat" where
  "opr_words (WmH32 i h) = 2"
| "opr_words (H32 h) = 2"
| "opr_words _ = 1"

definition decode :: "u32 list \<Rightarrow> nat \<Rightarrow> instr option" where
  "decode code pc =
     do {
       w \<leftarrow> rd code pc;
       let t = byte_of w 1; b2 = byte_of w 2; b3 = byte_of w 3
       in map_option (Pair (byte_of w 0))
         (if t = OPR_TYPE_NONE then Some NoOpr
          else if t = OPR_TYPE_WM_WM then Some (WmWm b2 b3)
          else if t = OPR_TYPE_WM_H08 then Some (WmH08 b2 b3)
          else if t = OPR_TYPE_WM_H32 then map_option (WmH32 b2) (rd code (pc + 1))
          else if t = OPR_TYPE_WM then Some (Wm b2)
          else if t = OPR_TYPE_H08 then Some (H08 b2)
          else if t = OPR_TYPE_H32 then map_option H32 (rd code (pc + 1))
          else None)
     }"

definition reg_pair :: "'e vm \<Rightarrow> u8 \<Rightarrow> u8 \<Rightarrow> (u32 \<times> u32) option" where
  "reg_pair s i j = do { x \<leftarrow> rd (wm s) (unat i); y \<leftarrow> rd (wm s) (unat j); Some (x, y) }"

definition load :: "'e events \<Rightarrow> 'e vm \<Rightarrow> u8 \<Rightarrow> u32 \<Rightarrow> 'e outcome option" where
  "load ev s i a = (let (v, e) = bus_read ev (env s) a in map_option Next (set_wm (s\<lparr>env := e\<rparr>) i v))"

definition step_instr :: "'e events \<Rightarrow> 'e vm \<Rightarrow> instr \<Rightarrow> 'e outcome option" where
  "step_instr ev s ins = (case ins of (opc, opr) \<Rightarrow>
     let NG = Some (Stop RESULT_RUNTIME_NG s)
     in case alu_op opc of
       Some f \<Rightarrow> (case opr of
           WmWm i j \<Rightarrow> do { (x, y) \<leftarrow> reg_pair s i j; map_option Next (set_wm s i (f x y)) }
         | WmH32 i h \<Rightarrow> do { x \<leftarrow> rd (wm s) (unat i); map_option Next (set_wm s i (f x h)) }
         | _ \<Rightarrow> NG)
     | None \<Rightarrow> (case shift_op opc of
       Some f \<Rightarrow> (case opr of
           WmH08 i n \<Rightarrow> do { x \<leftarrow> rd (wm s) (unat i);
             if n < 32 then map_option Next (set_wm s i (f (unat n) x)) else None }
         | WmWm i j \<Rightarrow> do { (x, y) \<leftarrow> reg_pair s i j;
             if y < 32 then map_option Next (set_wm s i (f (unat y) x)) else None }
         | _ \<Rightarrow> NG)
     | None \<Rightarrow>
       if opc = OP_TYPE_NOT then (case opr of
           Wm i \<Rightarrow> do { x \<leftarrow> rd (wm s) (unat i); map_option Next (set_wm s i (NOT x)) }
         | _ \<Rightarrow> NG)
       else if opc = OP_TYPE_MGET then (case opr of
           WmH32 i h \<Rightarrow> load ev s i h
         | WmWm i j \<Rightarrow> do { a \<leftarrow> rd (wm s) (unat j); load ev s i a }
         | _ \<Rightarrow> NG)
       else if opc = OP_TYPE_MPUT then (case opr of
           WmH32 i h \<Rightarrow> do { x \<leftarrow> rd (wm s) (unat i); Some (Next (s\<lparr>env := bus_write ev (env s) h x\<rparr>)) }
         | WmWm i j \<Rightarrow> do { (x, a) \<leftarrow> reg_pair s i j; Some (Next (s\<lparr>env := bus_write ev (env s) a x\<rparr>)) }
         | _ \<Rightarrow> NG)
       else if opc = OP_TYPE_SGET then (case opr of
           Wm i \<Rightarrow> do { x \<leftarrow> rd (wm s) (unat i); (let (ok, v, e) = get_stream ev (env s) x in
             map_option (if ok then Next else Stop RESULT_RUNTIME_NG) (set_wm (s\<lparr>env := e\<rparr>) i v)) }
         | _ \<Rightarrow> NG)
       else if opc = OP_TYPE_SPUT then (case opr of
           Wm i \<Rightarrow> map_option (sput ev s) (rd (wm s) (unat i))
         | H32 h \<Rightarrow> Some (sput ev s h)
         | _ \<Rightarrow> NG)
       else if opc = OP_TYPE_NOP then (case opr of
           NoOpr \<Rightarrow> Some (Next s)
         | H08 n \<Rightarrow> Some (Next (s\<lparr>env := sleep ev (env s) (ucast n)\<rparr>))
         | _ \<Rightarrow> NG)
       else if opc = OP_TYPE_CALL then (case opr of
           Wm i \<Rightarrow> map_option (native ev s) (rd (wm s) (unat i))
         | H32 h \<Rightarrow> Some (native ev s h)
         | _ \<Rightarrow> NG)
       else if opc = OP_TYPE_EXIT then Some (Stop RESULT_OK s)
       else NG))"

lemma opc_distinct [simp]:
  "alu_op OP_TYPE_NOT = None" "alu_op OP_TYPE_SHL = None" "alu_op OP_TYPE_SHR = None"
  "alu_op OP_TYPE_MGET = None" "alu_op OP_TYPE_MPUT = None" "alu_op OP_TYPE_SGET = None"
  "alu_op OP_TYPE_SPUT = None" "alu_op OP_TYPE_NOP = None" "alu_op OP_TYPE_CALL = None"
  "alu_op OP_TYPE_EXIT = None" "shift_op OP_TYPE_NOT = None"
  by (simp_all add: alu_op_def shift_op_def)

lemma decode_cases:
  assumes "decode code pc = Some (opc, opr)"
  obtains w where "rd code pc = Some w" "byte_of w 0 = opc"
    "case opr of NoOpr \<Rightarrow> byte_of w 1 = OPR_TYPE_NONE
     | WmWm i j \<Rightarrow> byte_of w 1 = OPR_TYPE_WM_WM \<and> byte_of w 2 = i \<and> byte_of w 3 = j
     | WmH08 i n \<Rightarrow> byte_of w 1 = OPR_TYPE_WM_H08 \<and> byte_of w 2 = i \<and> byte_of w 3 = n
     | WmH32 i h \<Rightarrow> byte_of w 1 = OPR_TYPE_WM_H32 \<and> byte_of w 2 = i \<and> rd code (pc + 1) = Some h
     | Wm i \<Rightarrow> byte_of w 1 = OPR_TYPE_WM \<and> byte_of w 2 = i
     | H08 n \<Rightarrow> byte_of w 1 = OPR_TYPE_H08 \<and> byte_of w 2 = n
     | H32 h \<Rightarrow> byte_of w 1 = OPR_TYPE_H32 \<and> rd code (pc + 1) = Some h"
  using assms unfolding decode_def
  by (auto simp: Let_def split: Option.bind_splits if_splits)

lemma exec_switch_decode:
  assumes "decode code pc = Some (opc, opr)"
  shows "exec_switch ev s code pc = step_instr ev s (opc, opr)"
proof -
  obtain w where w: "rd code pc = Some w" "byte_of w 0 = opc"
    "case opr of NoOpr \<Rightarrow> byte_of w 1 = OPR_TYPE_NONE
     | WmWm i j \<Rightarrow> byte_of w 1 = OPR_TYPE_WM_WM \<and> byte_of w 2 = i \<and> byte_of w 3 = j
     | WmH08 i n \<Rightarrow> byte_of w 1 = OPR_TYPE_WM_H08 \<and> byte_of w 2 = i \<and> byte_of w 3 = n
     | WmH32 i h \<Rightarrow> byte_of w 1 = OPR_TYPE_WM_H32 \<and> byte_of w 2 = i \<and> rd code (pc + 1) = Some h
     | Wm i \<Rightarrow> byte_of w 1 = OPR_TYPE_WM \<and> byte_of w 2 = i
     | H08 n \<Rightarrow> byte_of w 1 = OPR_TYPE_H08 \<and> byte_of w 2 = n
     | H32 h \<Rightarrow> byte_of w 1 = OPR_TYPE_H32 \<and> rd code (pc + 1) = Some h"
    using assms by (rule decode_cases)
  note defs = exec_switch_def step_instr_def reg_pair_def load_def Let_def
  show ?thesis
  proof (cases "alu_op opc")
    case (Some f)
    then show ?thesis using w by (cases opr) (simp_all add: defs)
  next
    case alu: None
    show ?thesis
    proof (cases "shift_op opc")
      case (Some f)
      then have "opc \<noteq> OP_TYPE_NOT" by auto
      then show ?thesis using alu Some w by (cases opr) (simp_all add: defs cong: if_cong)
    next
      case None
      then show ?thesis using alu w
        by (cases opr) (auto simp: defs map_option_case split: Option.bind_splits option.splits prod.splits)
    qed
  qed
qed

lemma word_length_decode:
  assumes "decode code pc = Some (opc, opr)" "rd code pc = Some w"
  shows "word_length (byte_of w 1) = Some (of_nat (opr_words opr))"
  using assms by (auto elim!: decode_cases simp: word_length_def split: operand.splits)

lemma process_instruction_decode:
  assumes "decode code pc = Some (opc, opr)"
  shows "process_instruction ev s code pc =
    map_option (\<lambda>r. case r of Next s' \<Rightarrow> (of_nat (opr_words opr), RESULT_OK, s') | Stop c s' \<Rightarrow> (0, c, s'))
      (step_instr ev s (opc, opr))"
proof -
  obtain w where w: "rd code pc = Some w"
    using assms by (rule decode_cases)
  show ?thesis
    using word_length_decode [OF assms w] w
    by (simp add: process_instruction_def exec_switch_decode [OF assms])
      (auto simp: map_option_case split: Option.bind_splits option.splits outcome.splits)
qed

section \<open>Programs\<close>

text \<open>A program as a list of instructions, at consecutive places of the code.\<close>

fun loaded :: "u32 list \<Rightarrow> nat \<Rightarrow> instr list \<Rightarrow> bool" where
  "loaded code pc [] \<longleftrightarrow> True"
| "loaded code pc (i # is) \<longleftrightarrow> decode code pc = Some i \<and> loaded code (pc + opr_words (snd i)) is"

fun prog_words :: "instr list \<Rightarrow> nat" where
  "prog_words [] = 0"
| "prog_words (i # is) = opr_words (snd i) + prog_words is"

text \<open>The straight-line meaning of a program: \<open>None\<close> is undefined behaviour.\<close>

fun run_program :: "'e events \<Rightarrow> 'e vm \<Rightarrow> instr list \<Rightarrow> (u32 \<times> 'e vm) option" where
  "run_program ev s [] = Some (RESULT_OK, s)"
| "run_program ev s (i # is) = (case step_instr ev s i of
     None \<Rightarrow> None
   | Some (Stop c s') \<Rightarrow> Some (c, s')
   | Some (Next s') \<Rightarrow> run_program ev s' is)"

lemma opr_words_bounds: "0 < opr_words opr" "opr_words opr \<le> 2"
  by (cases opr; simp)+

lemma vm_loop_program:
  assumes "loaded code pc is" "pc + prog_words is < 65536" "length is < fuel" "n > 0"
  shows "vm_loop fuel ev s code (of_nat (pc + prog_words is)) (of_nat pc) RESULT_OK n =
    Some (run_program ev s is)"
  using assms
proof (induction "is" arbitrary: fuel pc s n)
  case Nil
  then show ?case by (cases fuel) simp_all
next
  case (Cons i "is")
  obtain k where k: "fuel = Suc k" using Cons(4) by (cases fuel) auto
  obtain opc opr where i: "i = (opc, opr)" by (cases i)
  have pos: "(of_nat (opr_words opr) :: u8) > 0" "ucast (of_nat (opr_words opr) :: u8) = (of_nat (opr_words opr) :: u16)"
    by (cases opr; simp)+
  have pc: "unat (of_nat pc :: u16) = pc"
    using Cons(3) by (simp add: unat_of_nat_u16)
  have lt: "(of_nat pc :: u16) < of_nat (pc + prog_words (i # is))"
    using Cons(3) opr_words_bounds [of opr] i by (subst u16_of_nat_less) simp_all
  have next_pc: "(of_nat pc :: u16) + of_nat (opr_words opr) = of_nat (pc + opr_words opr)"
    by simp
  have stop: "vm_loop k ev s' code isize pc' c 0 = Some (Some (c, s'))" for s' pc' c isize
    using Cons(4) k by (cases k) simp_all
  have "process_instruction ev s code pc =
    map_option (\<lambda>r. case r of Next s' \<Rightarrow> (of_nat (opr_words opr), RESULT_OK, s') | Stop c s' \<Rightarrow> (0, c, s'))
      (step_instr ev s (opc, opr))"
    using Cons(2) i by (intro process_instruction_decode) simp
  moreover have "vm_loop k ev s' code (of_nat (pc + prog_words (i # is))) (of_nat (pc + opr_words opr))
      RESULT_OK (of_nat (opr_words opr)) = Some (run_program ev s' is)" for s'
    using Cons(1) [of "pc + opr_words opr" k "of_nat (opr_words opr)" s'] Cons(2-4) pos(1) i k
    by (simp add: add.assoc)
  ultimately show ?case
    unfolding k vm_loop.simps pc next_pc [symmetric]
    using Cons(5) lt i pos(2) stop
    by (auto split: option.splits outcome.splits)
qed

section \<open>Programs that cannot go wrong\<close>

text \<open>
  What keeps an instruction defined: its registers exist and an immediate shift is below 32. A
  shift by a register depends on the data, so it is left out here.
\<close>

fun valid_opr :: "operand \<Rightarrow> bool" where
  "valid_opr (WmWm i j) \<longleftrightarrow> i < NUMBER_OF_WM \<and> j < NUMBER_OF_WM"
| "valid_opr (WmH08 i n) \<longleftrightarrow> i < NUMBER_OF_WM \<and> n < 32"
| "valid_opr (WmH32 i h) \<longleftrightarrow> i < NUMBER_OF_WM"
| "valid_opr (Wm i) \<longleftrightarrow> i < NUMBER_OF_WM"
| "valid_opr _ \<longleftrightarrow> True"

definition valid_instr :: "instr \<Rightarrow> bool" where
  "valid_instr i \<longleftrightarrow> valid_opr (snd i) \<and>
     (shift_op (fst i) \<noteq> None \<longrightarrow> (\<forall>a b. snd i \<noteq> WmWm a b))"

text \<open>A native call that gives the machine back with its eight registers.\<close>

definition native_keeps_wm :: "'e events \<Rightarrow> bool" where
  "native_keeps_wm ev \<longleftrightarrow>
     (\<forall>s i. length (wm s) = NUMBER_OF_WM \<longrightarrow> length (wm (snd (native_call ev s i))) = NUMBER_OF_WM)"

fun vm_of :: "'e outcome \<Rightarrow> 'e vm" where
  "vm_of (Next s) = s"
| "vm_of (Stop c s) = s"

lemma set_wm_Some:
  "i < 8 \<Longrightarrow> length (wm s) = 8 \<Longrightarrow> set_wm s i v = Some (s\<lparr>wm := (wm s)[unat i := v]\<rparr>)"
  by (simp add: set_wm_def wr_def word_less_nat_alt)

lemma rd_wm_Some: "i < (8 :: u8) \<Longrightarrow> length (wm s) = 8 \<Longrightarrow> rd (wm s) (unat i) = Some (wm s ! unat i)"
  by (simp add: rd_def word_less_nat_alt)

lemma native_wm:
  assumes "native_keeps_wm ev" "length (wm s) = 8"
  shows "length (wm (vm_of (native ev s i))) = 8"
proof -
  obtain c s' where n: "native_call ev s i = (c, s')" by (cases "native_call ev s i")
  then have "length (wm s') = 8" using assms unfolding native_keeps_wm_def by (metis snd_conv)
  then show ?thesis by (simp add: native_def n)
qed

lemma sput_wm: "wm (vm_of (sput ev s v)) = wm s"
  by (simp add: sput_def split: prod.split)

lemma step_instr_valid:
  assumes v: "valid_instr (opc, opr)" and k: "native_keeps_wm ev" and wm: "length (wm s) = 8"
  shows "\<exists>r. step_instr ev s (opc, opr) = Some r \<and> length (wm (vm_of r)) = 8"
proof -
  note defs = step_instr_def Let_def reg_pair_def load_def
  note regs = set_wm_Some rd_wm_Some wm
  show ?thesis
  proof (cases "alu_op opc")
    case (Some f)
    then show ?thesis using v wm by (cases opr) (simp_all add: defs regs valid_instr_def)
  next
    case alu: None
    show ?thesis
    proof (cases "shift_op opc")
      case (Some f)
      then show ?thesis using alu v wm by (cases opr) (simp_all add: defs regs valid_instr_def)
    next
      case None
      then show ?thesis using alu v wm native_wm [OF k wm]
        by (cases opr) (simp_all add: defs regs valid_instr_def sput_wm split: prod.split)
    qed
  qed
qed

lemma cMiMicVM_run_loop:
  "cMiMicVM_run fuel ev s code isize = vm_loop (Suc fuel) ev s code isize 0 RESULT_OK 1"
  by (simp add: cMiMicVM_run_def split: option.split)

lemma run_loaded:
  assumes "loaded code 0 is" "prog_words is < 65536" "length is \<le> fuel"
  shows "cMiMicVM_run fuel ev s code (of_nat (prog_words is)) = Some (run_program ev s is)"
  unfolding cMiMicVM_run_loop
  using vm_loop_program [OF assms(1), of "Suc fuel" 1 ev s] assms(2,3) by (simp del: vm_loop.simps)

lemma run_program_valid:
  assumes "list_all valid_instr is" "native_keeps_wm ev" "length (wm s) = 8"
  shows "\<exists>c s'. run_program ev s is = Some (c, s') \<and> length (wm s') = 8"
  using assms(1,3)
proof (induction "is" arbitrary: s)
  case (Cons i "is")
  obtain r where "step_instr ev s i = Some r" "length (wm (vm_of r)) = 8"
    using step_instr_valid [OF _ assms(2), of "fst i" "snd i" s] Cons(2,3) by auto
  then show ?case
    using Cons by (cases r) auto
qed simp

section \<open>Properties\<close>

text \<open>
  C4: \<open>NyLPC_cMiMicVM_run\<close> on a program of up to 65535 words does what its instructions mean,
  one after the other: it stops at the first \<open>EXIT\<close>, failing stream or call, or ill-typed
  operand with that instruction's result code and otherwise returns OK at the end of the program.
  It returns after at most one round per instruction.
\<close>

theorem vm_run_refines:
  assumes "loaded code 0 is" "prog_words is < 65536" "length is \<le> fuel"
  shows "cMiMicVM_run fuel ev s code (of_nat (prog_words is)) = Some (run_program ev s is)"
  by (rule run_loaded [OF assms])

text \<open>An environment for the witnesses: streams that accept everything, no devices.\<close>

definition quiet_events :: "u32 list events" where
  "quiet_events = \<lparr>put_stream = (\<lambda>e v. (True, e @ [v])), get_stream = (\<lambda>e v. (False, v, e)),
     sleep = (\<lambda>e t. e), native_call = (\<lambda>s i. (0, s)), bus_read = (\<lambda>e a. (0, e)),
     bus_write = (\<lambda>e a v. e)\<rparr>"

text \<open>\<open>LD wm0,7\<close>, then \<open>ADD wm0,wm0\<close>, then \<open>SPUT wm0\<close>.\<close>

definition demo_code :: "u32 list" where
  "demo_code = [0x00001471, 7, 0x00001131, 0x00002152]"

definition demo_program :: "instr list" where
  "demo_program = [(OP_TYPE_LD, WmH32 0 7), (OP_TYPE_ADD, WmWm 0 0), (OP_TYPE_SPUT, Wm 0)]"

lemma loaded_demo: "loaded demo_code 0 demo_program"
  by (simp add: demo_code_def demo_program_def decode_def rd_def byte_of_def)

theorem vm_run_refines_witness:
  "loaded demo_code 0 demo_program \<and>
   cMiMicVM_run 3 quiet_events \<lparr>wm = replicate 8 0, env = []\<rparr> demo_code 4 =
     Some (Some (0, \<lparr>wm = 14 # replicate 7 0, env = [14]\<rparr>))"
proof -
  have "run_program quiet_events \<lparr>wm = replicate 8 0, env = []\<rparr> demo_program =
      Some (0, \<lparr>wm = 14 # replicate 7 0, env = [14]\<rparr>)"
    by code_simp
  moreover have "prog_words demo_program = 4" "length demo_program = 3"
    by (simp_all add: demo_program_def)
  ultimately show ?thesis
    using vm_run_refines [OF loaded_demo, of 3 quiet_events "\<lparr>wm = replicate 8 0, env = []\<rparr>"] loaded_demo
    by simp
qed

text \<open>
  C14: A loaded program whose instructions name only the eight registers, shift by immediates
  below 32 and do not shift by a register always runs to a result code on a machine with eight
  registers, whatever the streams, the memory and the native calls answer: no register access
  leaves \<open>wm\<close> and nothing is undefined.
\<close>

theorem vm_valid_program_safe:
  assumes "loaded code 0 is" "prog_words is < 65536" "list_all valid_instr is"
    "native_keeps_wm ev" "length (wm s) = NUMBER_OF_WM"
  shows "\<exists>c s'. cMiMicVM_run (length is) ev s code (of_nat (prog_words is)) = Some (Some (c, s')) \<and>
    length (wm s') = NUMBER_OF_WM"
  using run_program_valid [OF assms(3-5)] run_loaded [OF assms(1,2) order_refl, of ev s] by auto

theorem vm_valid_program_safe_witness:
  "loaded demo_code 0 demo_program \<and> list_all valid_instr demo_program \<and>
   native_keeps_wm quiet_events \<and>
   (\<exists>c s'. cMiMicVM_run 3 quiet_events \<lparr>wm = replicate 8 5, env = []\<rparr> demo_code 4 = Some (Some (c, s')))"
proof -
  have v: "list_all valid_instr demo_program" "native_keeps_wm quiet_events"
    by (simp_all add: demo_program_def valid_instr_def shift_op_def native_keeps_wm_def quiet_events_def)
  moreover have "prog_words demo_program = 4" "length demo_program = 3"
    by (simp_all add: demo_program_def)
  ultimately show ?thesis
    using vm_valid_program_safe [OF loaded_demo _ v, of "\<lparr>wm = replicate 8 5, env = []\<rparr>"] loaded_demo
    by auto
qed

end
