(* ===== verification/TxtCompiler.thy ===== *)
theory TxtCompiler
  imports Stdlib MiMicVM
begin

text \<open>
  \<open>NyLPC_cMiMicTxtCompiler.c\<close>: the compiler of the text form of MiMic byte code. Text comes in
  fragments of any size; two letters name the instruction, lower-case hexadecimal digits follow
  as its operand, and \<open>.E\<close> ends the program. Each complete instruction is written as binary
  words through the union of the virtual machine, byte by byte: bytes of a word that no field
  covers keep what the output buffer held.
\<close>

unbundle bit_operations_syntax

section \<open>State\<close>

abbreviation (input) "ST_OPC \<equiv> (0x01 :: u8)"
abbreviation (input) "ST_OPR \<equiv> (0x02 :: u8)"
abbreviation (input) "ST_CTR \<equiv> (0x03 :: u8)"
abbreviation (input) "ST_OK \<equiv> (0x04 :: u8)"
abbreviation (input) "ST_NG \<equiv> (0xff :: u8)"

record txt_compiler =
  st :: u8
  current_opc :: u8
  current_oprtype :: u8
  inst_len :: u8
  oprbc_len :: u8
  tmp_len :: u8
  tmp :: "char list"

text \<open>The return codes, with the \<open>*o_bin_len\<close> that \<open>RET_OK\<close> stores.\<close>

datatype txt_ret = RET_OK u16 | RET_OK_END | RET_CONTINUE | RET_NG

definition cMiMicTxtCompiler_initialize :: "txt_compiler \<Rightarrow> txt_compiler" where
  "cMiMicTxtCompiler_initialize c = c\<lparr>st := ST_OPC, tmp_len := 0\<rparr>"

section \<open>Tables\<close>

definition bc_type_tbl :: "(string \<times> u8 \<times> u8) list" where
  "bc_type_tbl =
    [(''AA'', OP_TYPE_AND, OPR_TYPE_WM_WM), (''AB'', OP_TYPE_AND, OPR_TYPE_WM_H32),
     (''AE'', OP_TYPE_OR, OPR_TYPE_WM_WM), (''AF'', OP_TYPE_OR, OPR_TYPE_WM_H32),
     (''AI'', OP_TYPE_XOR, OPR_TYPE_WM_WM), (''AJ'', OP_TYPE_XOR, OPR_TYPE_WM_H32),
     (''AM'', OP_TYPE_NOT, OPR_TYPE_WM),
     (''BA'', OP_TYPE_SHL, OPR_TYPE_WM_H08), (''BB'', OP_TYPE_SHL, OPR_TYPE_WM_WM),
     (''BE'', OP_TYPE_SHR, OPR_TYPE_WM_H08), (''BF'', OP_TYPE_SHR, OPR_TYPE_WM_WM),
     (''CA'', OP_TYPE_ADD, OPR_TYPE_WM_WM), (''CB'', OP_TYPE_ADD, OPR_TYPE_WM_H32),
     (''CE'', OP_TYPE_SUB, OPR_TYPE_WM_WM), (''CF'', OP_TYPE_SUB, OPR_TYPE_WM_H32),
     (''CI'', OP_TYPE_MUL, OPR_TYPE_WM_WM), (''CJ'', OP_TYPE_MUL, OPR_TYPE_WM_H32),
     (''DA'', OP_TYPE_MGET, OPR_TYPE_WM_H32), (''DB'', OP_TYPE_MGET, OPR_TYPE_WM_WM),
     (''DE'', OP_TYPE_MPUT, OPR_TYPE_WM_H32), (''DF'', OP_TYPE_MPUT, OPR_TYPE_WM_WM),
     (''EA'', OP_TYPE_SGET, OPR_TYPE_WM), (''EE'', OP_TYPE_SPUT, OPR_TYPE_WM),
     (''EF'', OP_TYPE_SPUT, OPR_TYPE_H32),
     (''FA'', OP_TYPE_LD, OPR_TYPE_WM_WM), (''FB'', OP_TYPE_LD, OPR_TYPE_WM_H32),
     (''ZA'', OP_TYPE_NOP, OPR_TYPE_NONE), (''ZB'', OP_TYPE_NOP, OPR_TYPE_H08),
     (''ZE'', OP_TYPE_CALL, OPR_TYPE_WM), (''ZF'', OP_TYPE_CALL, OPR_TYPE_H32),
     (''ZZ'', OP_TYPE_EXIT, OPR_TYPE_NONE)]"

definition ctrl_tbl :: "(string \<times> u8 \<times> u8) list" where
  "ctrl_tbl = [(''.E'', CP_TYPE_END, OPR_TYPE_NONE)]"

text \<open>The search of both tables: two characters match.\<close>

fun find_code :: "(string \<times> u8 \<times> u8) list \<Rightarrow> char \<Rightarrow> char \<Rightarrow> (u8 \<times> u8) option" where
  "find_code [] a b = None"
| "find_code ((m, e) # tbl) a b =
     (if a = cget m 0 \<and> b = cget m 1 then Some e else find_code tbl a b)"

definition bc2opc :: "char \<Rightarrow> char \<Rightarrow> (u8 \<times> u8) option" where
  "bc2opc a b = find_code bc_type_tbl a b"

definition bc2ctrlc :: "char \<Rightarrow> char \<Rightarrow> (u8 \<times> u8) option" where
  "bc2ctrlc a b = find_code ctrl_tbl a b"

text \<open>Length of the operand text and number of words; a type outside the table is \<open>NyLPC_Abort\<close>.\<close>

definition getOpInfo :: "u8 \<Rightarrow> (u8 \<times> u8) option" where
  "getOpInfo = map_of
    [(OPR_TYPE_NONE, 0, 1), (OPR_TYPE_WM_WM, (1 + 1) * 2, 1), (OPR_TYPE_WM_H08, (1 + 1) * 2, 1),
     (OPR_TYPE_WM_H16, (1 + 2) * 2, 2), (OPR_TYPE_WM_H32, (1 + 4) * 2, 2), (OPR_TYPE_WM, 1 * 2, 1),
     (OPR_TYPE_H08, 1 * 2, 1), (OPR_TYPE_H16, 2 * 2, 1), (OPR_TYPE_H32, 4 * 2, 2)]"

section \<open>Hexadecimal operands\<close>

definition hex_digit :: "char \<Rightarrow> u32 option" where
  "hex_digit c =
     (if 97 \<le> ord c \<and> ord c \<le> 102 then Some (of_nat (ord c - 97 + 10))
      else if 48 \<le> ord c \<and> ord c \<le> 57 then Some (of_nat (ord c - 48))
      else None)"

text \<open>The outer \<open>None\<close> is a read behind the array, the inner one a character that is no digit.\<close>

fun hex_loop :: "char list \<Rightarrow> nat \<Rightarrow> u32 \<Rightarrow> u32 option option" where
  "hex_loop cs 0 ret = Some (Some ret)"
| "hex_loop [] (Suc n) ret = None"
| "hex_loop (c # cs) (Suc n) ret = (case hex_digit c of
     None \<Rightarrow> Some None
   | Some d \<Rightarrow> hex_loop cs n (push_bit 4 ret OR d))"

definition txt2UInt :: "char list \<Rightarrow> nat \<Rightarrow> u32 option option" where
  "txt2UInt i_txt i_num = (case hex_loop i_txt i_num 0 of
     None \<Rightarrow> None
   | Some None \<Rightarrow> Some None
   | Some (Some ret) \<Rightarrow> Some
       (if i_num = 2 then Some (ucast (ucast ret :: u8))
        else if i_num = 4 then Some (ucast (ucast ret :: u16))
        else if i_num = 8 then Some ret
        else None))"

section \<open>Writing an instruction\<close>

definition put_byte :: "u32 \<Rightarrow> nat \<Rightarrow> u8 \<Rightarrow> u32" where
  "put_byte w k b = (w AND NOT (push_bit (8 * k) 0xff)) OR push_bit (8 * k) (ucast b)"

definition write_byte :: "u32 list \<Rightarrow> nat \<Rightarrow> nat \<Rightarrow> u8 \<Rightarrow> u32 list option" where
  "write_byte buf p k b = do { w \<leftarrow> rd buf p; wr buf p (put_byte w k b) }"

text \<open>
  The conversions store through a pointer into the instruction; the result tells whether the
  conversion succeeded. \<open>txt2WMId\<close> has stored the number when it finds it too large.
\<close>

definition put_h8 :: "char list \<Rightarrow> u32 list \<Rightarrow> nat \<Rightarrow> nat \<Rightarrow> (bool \<times> u32 list) option" where
  "put_h8 txt buf p k = do { r \<leftarrow> txt2UInt txt 2;
     (case r of None \<Rightarrow> Some (False, buf) | Some v \<Rightarrow> map_option (Pair True) (write_byte buf p k (ucast v))) }"

definition put_h32 :: "char list \<Rightarrow> u32 list \<Rightarrow> nat \<Rightarrow> (bool \<times> u32 list) option" where
  "put_h32 txt buf p = do { r \<leftarrow> txt2UInt txt 8;
     (case r of None \<Rightarrow> Some (False, buf) | Some v \<Rightarrow> map_option (Pair True) (wr buf (p + 1) v)) }"

definition txt2WMId :: "char list \<Rightarrow> u32 list \<Rightarrow> nat \<Rightarrow> nat \<Rightarrow> (bool \<times> u32 list) option" where
  "txt2WMId txt buf p k = do { r \<leftarrow> txt2UInt txt 2;
     (case r of None \<Rightarrow> Some (False, buf)
      | Some v \<Rightarrow> map_option (Pair (v \<le> NUMBER_OF_WM)) (write_byte buf p k (ucast v))) }"

text \<open>\<open>a && b\<close> of two conversions.\<close>

definition both :: "(u32 list \<Rightarrow> (bool \<times> u32 list) option) \<Rightarrow> (u32 list \<Rightarrow> (bool \<times> u32 list) option) \<Rightarrow>
    u32 list \<Rightarrow> (bool \<times> u32 list) option" where
  "both f g buf = do { (ok, buf') \<leftarrow> f buf; if ok then g buf' else Some (False, buf') }"

definition put_operand :: "u8 \<Rightarrow> char list \<Rightarrow> u32 list \<Rightarrow> nat \<Rightarrow> (bool \<times> u32 list) option" where
  "put_operand t txt buf p =
     (if t = OPR_TYPE_WM_WM then
        both (\<lambda>b. txt2WMId txt b p 2) (\<lambda>b. txt2WMId (drop 2 txt) b p 3) buf
      else if t = OPR_TYPE_WM_H08 then
        both (\<lambda>b. txt2WMId txt b p 2) (\<lambda>b. put_h8 (drop 2 txt) b p 3) buf
      else if t = OPR_TYPE_WM_H32 then
        both (\<lambda>b. txt2WMId txt b p 2) (\<lambda>b. put_h32 (drop 2 txt) b p) buf
      else if t = OPR_TYPE_WM then txt2WMId txt buf p 2
      else if t = OPR_TYPE_H32 then put_h32 txt buf p
      else if t = OPR_TYPE_H08 then put_h8 txt buf p 2
      else Some (False, buf))"

section \<open>The compiler\<close>

type_synonym txt_result = "txt_ret \<times> txt_compiler \<times> array_ptr \<times> u32 list"

definition txt_error :: "txt_compiler \<Rightarrow> array_ptr \<Rightarrow> u32 list \<Rightarrow> txt_result option" where
  "txt_error c bin buf = Some (RET_NG, c\<lparr>st := ST_NG\<rparr>, bin, buf)"

definition write_op :: "txt_compiler \<Rightarrow> u32 list \<Rightarrow> nat \<Rightarrow> u32 list option" where
  "write_op c buf p = do { b \<leftarrow> write_byte buf p 0 (current_opc c); write_byte b p 1 (current_oprtype c) }"

text \<open>Two letters are there: an instruction, a control code or an error.\<close>

definition opc_complete :: "txt_compiler \<Rightarrow> array_ptr \<Rightarrow> u32 list \<Rightarrow> txt_result option" where
  "opc_complete c bin buf = do {
     a \<leftarrow> rd (tmp c) 0; b \<leftarrow> rd (tmp c) 1;
     (case bc2opc a b of
        Some (opc, t) \<Rightarrow>
          let c = c\<lparr>current_opc := opc, current_oprtype := t\<rparr>;
              c = (case getOpInfo t of Some (l, n) \<Rightarrow> c\<lparr>oprbc_len := l, inst_len := n\<rparr> | None \<Rightarrow> c)
          in if oprbc_len c \<le> 0 then
               (case TUInt32ArrayPtr_seek bin 1 of
                  (False, bin') \<Rightarrow> txt_error c bin' buf
                | (True, bin') \<Rightarrow> do {
                    buf' \<leftarrow> write_op c buf (ptr bin);
                    Some (RET_OK (ucast (inst_len c)), c\<lparr>tmp_len := 0\<rparr>, bin', buf') })
             else Some (RET_CONTINUE, c\<lparr>tmp_len := 0, st := ST_OPR\<rparr>, bin, buf)
      | None \<Rightarrow>
          (case bc2ctrlc a b of
             Some (opc, t) \<Rightarrow>
               let c = c\<lparr>current_opc := opc, current_oprtype := t\<rparr>;
                   c = (case getOpInfo t of Some (l, n) \<Rightarrow> c\<lparr>oprbc_len := l, inst_len := n\<rparr> | None \<Rightarrow> c)
               in if oprbc_len c > 0 then txt_error c bin buf
                  else if current_opc c = CP_TYPE_END then Some (RET_OK_END, c\<lparr>tmp_len := 0\<rparr>, bin, buf)
                  else txt_error c bin buf
           | None \<Rightarrow> txt_error c bin buf)) }"

text \<open>The operand text is complete.\<close>

definition opr_complete :: "txt_compiler \<Rightarrow> array_ptr \<Rightarrow> u32 list \<Rightarrow> txt_result option" where
  "opr_complete c bin buf =
     (case TUInt32ArrayPtr_seek bin (ucast (inst_len c)) of
        (False, bin') \<Rightarrow> txt_error c bin' buf
      | (True, bin') \<Rightarrow> do {
          b \<leftarrow> write_op c buf (ptr bin);
          (ok, b') \<leftarrow> put_operand (current_oprtype c) (tmp c) b (ptr bin);
          if ok then Some (RET_OK (ucast (inst_len c)), c\<lparr>tmp_len := 0, st := ST_OPC\<rparr>, bin', b')
          else txt_error c bin' b' })"

definition push_tmp :: "txt_compiler \<Rightarrow> char \<Rightarrow> txt_compiler option" where
  "push_tmp c ch = do { t \<leftarrow> wr (tmp c) (unat (tmp_len c)) ch; Some (c\<lparr>tmp := t, tmp_len := tmp_len c + 1\<rparr>) }"

text \<open>The body of the loop for one character.\<close>

definition txt_char :: "txt_compiler \<Rightarrow> char \<Rightarrow> array_ptr \<Rightarrow> u32 list \<Rightarrow> txt_result option" where
  "txt_char c ch bin buf =
     (if st c = ST_OPC then
        (if tmp_len c > 2 then txt_error c bin buf
         else do { c' \<leftarrow> push_tmp c ch;
                   if tmp_len c' = 2 then opc_complete c' bin buf
                   else Some (RET_CONTINUE, c', bin, buf) })
      else if st c = ST_OPR then
        do { c' \<leftarrow> push_tmp c ch;
             if oprbc_len c' = tmp_len c' then opr_complete c' bin buf
             else Some (RET_CONTINUE, c', bin, buf) }
      else txt_error c bin buf)"

text \<open>The loop over the fragment; \<open>i\<close> characters are done, \<open>*o_parsed_bc\<close> is set except at an error.\<close>

fun txt_loop :: "txt_compiler \<Rightarrow> string \<Rightarrow> nat \<Rightarrow> array_ptr \<Rightarrow> u32 list \<Rightarrow> (u16 option \<times> txt_result) option" where
  "txt_loop c [] i bin buf = Some (Some (of_nat i), RET_CONTINUE, c, bin, buf)"
| "txt_loop c (ch # cs) i bin buf = (case txt_char c ch bin buf of
     None \<Rightarrow> None
   | Some (r, c', bin', buf') \<Rightarrow> (case r of
       RET_CONTINUE \<Rightarrow> txt_loop c' cs (i + 1) bin' buf'
     | RET_NG \<Rightarrow> Some (None, r, c', bin', buf')
     | _ \<Rightarrow> Some (Some (of_nat (i + 1)), r, c', bin', buf')))"

definition cMiMicTxtCompiler_compileFragment ::
    "txt_compiler \<Rightarrow> string \<Rightarrow> array_ptr \<Rightarrow> u32 list \<Rightarrow> (u16 option \<times> txt_result) option" where
  "cMiMicTxtCompiler_compileFragment c i_bc bin buf = txt_loop c i_bc 0 bin buf"

definition cMiMicTxtCompiler_compileFragment2 ::
    "txt_compiler \<Rightarrow> char \<Rightarrow> array_ptr \<Rightarrow> u32 list \<Rightarrow> txt_result option" where
  "cMiMicTxtCompiler_compileFragment2 c i_bc bin buf =
     map_option snd (cMiMicTxtCompiler_compileFragment c [i_bc] bin buf)"

section \<open>Bytes of a word\<close>

lemma bit_byte_of: "bit (byte_of w k) n \<longleftrightarrow> n < 8 \<and> bit w (8 * k + n)"
  by (simp add: byte_of_def bit_simps)

lemma byte_of_put_byte:
  assumes "k < 4" "j < 4"
  shows "byte_of (put_byte w k b) j = (if j = k then b else byte_of w j)"
proof (rule bit_word_eqI)
  fix n :: nat
  assume "n < LENGTH(8)"
  then have n: "n < 8" by simp
  have lt: "8 * j + n < 32" using assms n by linarith
  have m: "bit (0xff :: u32) i \<longleftrightarrow> i < 8" if "i < 32" for i
  proof -
    have "(0xff :: u32) = mask 8" by (simp add: mask_eq_exp_minus_1)
    moreover have "bit (mask 8 :: u32) i \<longleftrightarrow> i < 8"
      using that unfolding bit_mask_iff possible_bit_word by simp
    ultimately show ?thesis by metis
  qed
  consider "j < k" | "j = k" | "k < j" by linarith
  then show "bit (byte_of (put_byte w k b) j) n = bit (if j = k then b else byte_of w j) n"
  proof cases
    case 1
    then have "8 * j + n < 8 * k" using n by linarith
    then show ?thesis using 1 n lt by (simp add: bit_byte_of put_byte_def bit_simps)
  next
    case 2
    then show ?thesis using n lt m [of n] by (simp add: bit_byte_of put_byte_def bit_simps)
  next
    case 3
    then have "8 \<le> 8 * j + n - 8 * k" "8 * k \<le> 8 * j + n" using n by linarith+
    then show ?thesis using 3 n lt m [of "8 * j + n - 8 * k"]
      by (auto simp: bit_byte_of put_byte_def bit_simps dest: bit_imp_le_length)
  qed
qed

section \<open>Hexadecimal round trip\<close>

text \<open>The \<open>n\<close> lower-case hexadecimal digits of a number.\<close>

fun hexs :: "nat \<Rightarrow> nat \<Rightarrow> string" where
  "hexs 0 v = []"
| "hexs (Suc n) v = digit_char (int (v div 16 ^ n mod 16)) # hexs n v"

lemma length_hexs [simp]: "length (hexs n v) = n"
  by (induction n) auto

lemma hexs_numeral: "hexs (numeral k) v =
    digit_char (int (v div 16 ^ pred_numeral k mod 16)) # hexs (pred_numeral k) v"
  unfolding numeral_eq_Suc [of k] by (rule hexs.simps)

lemma hexs_eq_Nil [simp]: "hexs n v = [] \<longleftrightarrow> n = 0"
  by (cases n) auto

lemma hex_digit_char: "d < 16 \<Longrightarrow> hex_digit (digit_char (int d)) = Some (of_nat d)"
  by (auto simp: hex_digit_def ord_digit_char)

lemma nibble_append:
  assumes "d < 16"
  shows "push_bit 4 r OR of_nat d = r * 16 + (of_nat d :: u32)"
proof -
  have "take_bit 4 (of_nat d :: u32) = of_nat d"
    unfolding take_bit_of_nat using assms by (subst take_bit_nat_eq_self) simp_all
  then have "push_bit 4 r AND (of_nat d :: u32) = push_bit 4 r AND take_bit 4 (of_nat d)"
    by simp
  also have "\<dots> = 0"
    by (intro bit_word_eqI) (simp add: bit_simps)
  finally have "push_bit 4 r OR of_nat d = push_bit 4 r + (of_nat d :: u32)"
    by (simp add: disjunctive_add_eq_or)
  then show ?thesis by (simp add: push_bit_eq_mult)
qed

lemma hex_loop_hexs:
  "hex_loop (hexs n v @ rest) n ret = Some (Some (ret * 16 ^ n + of_nat (v mod 16 ^ n)))"
proof (induction n arbitrary: ret)
  case (Suc n)
  let ?d = "v div 16 ^ n mod 16"
  have "v mod 16 ^ Suc n = ?d * 16 ^ n + v mod 16 ^ n"
    by (metis mod_mult2_eq mult.commute power_Suc)
  moreover have "hex_loop (hexs (Suc n) v @ rest) (Suc n) ret =
      hex_loop (hexs n v @ rest) n (ret * 16 + of_nat ?d)"
    by (simp add: hex_digit_char nibble_append)
  ultimately show ?case
    using Suc by (simp add: algebra_simps)
qed simp

lemma txt2UInt_byte: "txt2UInt (hexs 2 (unat (b :: u8)) @ rest) 2 = Some (Some (ucast b))"
proof -
  have "(of_nat (unat b) :: u32) = ucast b" by simp
  moreover have "unat b mod 256 = unat b" by simp
  ultimately show ?thesis
    unfolding txt2UInt_def hex_loop_hexs by (simp add: ucast_u8_u32_u8)
qed

lemma txt2UInt_word: "txt2UInt (hexs 8 (unat (h :: u32)) @ rest) 8 = Some (Some h)"
proof -
  have "unat h mod 16 ^ 8 = unat h" by simp
  then show ?thesis
    unfolding txt2UInt_def hex_loop_hexs by simp
qed

section \<open>The text of an instruction\<close>

fun opr_type :: "operand \<Rightarrow> u8" where
  "opr_type NoOpr = OPR_TYPE_NONE"
| "opr_type (WmWm i j) = OPR_TYPE_WM_WM"
| "opr_type (WmH08 i n) = OPR_TYPE_WM_H08"
| "opr_type (WmH32 i h) = OPR_TYPE_WM_H32"
| "opr_type (Wm i) = OPR_TYPE_WM"
| "opr_type (H08 n) = OPR_TYPE_H08"
| "opr_type (H32 h) = OPR_TYPE_H32"

fun opr_text :: "operand \<Rightarrow> string" where
  "opr_text NoOpr = []"
| "opr_text (WmWm i j) = hexs 2 (unat i) @ hexs 2 (unat j)"
| "opr_text (WmH08 i n) = hexs 2 (unat i) @ hexs 2 (unat n)"
| "opr_text (WmH32 i h) = hexs 2 (unat i) @ hexs 8 (unat h)"
| "opr_text (Wm i) = hexs 2 (unat i)"
| "opr_text (H08 n) = hexs 2 (unat n)"
| "opr_text (H32 h) = hexs 8 (unat h)"

text \<open>The register numbers that the compiler lets through.\<close>

fun regs_accepted :: "operand \<Rightarrow> bool" where
  "regs_accepted (WmWm i j) \<longleftrightarrow> i \<le> 8 \<and> j \<le> 8"
| "regs_accepted (WmH08 i n) \<longleftrightarrow> i \<le> 8"
| "regs_accepted (WmH32 i h) \<longleftrightarrow> i \<le> 8"
| "regs_accepted (Wm i) \<longleftrightarrow> i \<le> 8"
| "regs_accepted _ \<longleftrightarrow> True"

text \<open>\<open>buf'\<close> is \<open>buf\<close> with the instruction stored at \<open>p\<close>.\<close>

definition instr_stored :: "u32 list \<Rightarrow> nat \<Rightarrow> instr \<Rightarrow> u32 list \<Rightarrow> bool" where
  "instr_stored buf p ins buf' \<longleftrightarrow> length buf' = length buf \<and> decode buf' p = Some ins \<and>
     (\<forall>q. q < p \<or> p + opr_words (snd ins) \<le> q \<longrightarrow> buf' ! q = buf ! q)"

lemma ucast_le_8: "(ucast (b :: u8) :: u32) \<le> 8 \<longleftrightarrow> b \<le> 8"
  by (simp add: word_le_nat_alt unat_ucast_u8_u32)

lemma store_operand:
  assumes "opr \<noteq> NoOpr" "regs_accepted opr" "p + opr_words opr \<le> length buf"
    "current_opc c = opc" "current_oprtype c = opr_type opr"
  shows "\<exists>buf1 buf'. write_op c buf p = Some buf1 \<and>
    put_operand (opr_type opr) (opr_text opr @ rest) buf1 p = Some (True, buf') \<and>
    instr_stored buf p (opc, opr) buf'"
proof -
  note simps = write_op_def write_byte_def rd_def wr_def put_operand_def both_def txt2WMId_def
    put_h8_def put_h32_def txt2UInt_byte txt2UInt_word ucast_le_8 ucast_u8_u32_u8 instr_stored_def
    decode_def byte_of_put_byte
  show ?thesis
    using assms by (cases opr) (simp_all add: simps)
qed

lemma store_no_operand:
  assumes "p < length buf" "current_opc c = opc" "current_oprtype c = OPR_TYPE_NONE"
  shows "\<exists>buf'. write_op c buf p = Some buf' \<and> instr_stored buf p (opc, NoOpr) buf'"
  using assms by (simp add: write_op_def write_byte_def rd_def wr_def instr_stored_def decode_def
      byte_of_put_byte)

lemma mnemonics: "list_all (\<lambda>(m, e). length m = 2 \<and> bc2opc (m ! 0) (m ! 1) = Some e) bc_type_tbl"
  by code_simp

lemma opr_info:
  "getOpInfo (opr_type opr) = Some (of_nat (length (opr_text opr)), of_nat (opr_words opr))"
  by (cases opr) (simp_all add: getOpInfo_def)

lemma length_opr_text: "length (opr_text opr) \<le> 10" "opr_text opr = [] \<longleftrightarrow> opr = NoOpr"
  by (cases opr; simp)+

section \<open>Compiling one instruction\<close>

text \<open>The compiler between two instructions.\<close>

definition txt_idle :: "txt_compiler \<Rightarrow> bool" where
  "txt_idle c \<longleftrightarrow> st c = ST_OPC \<and> tmp_len c = 0 \<and> length (tmp c) = 24"

lemma of_nat_u8_small: "n < 256 \<Longrightarrow> unat (of_nat n :: u8) = n"
  by (simp add: unat_of_nat)

text \<open>Operand characters before the last one are collected.\<close>

lemma txt_loop_operand:
  assumes "st c = ST_OPR" "unat (tmp_len c) = k" "length (tmp c) = 24"
    "k + length xs < unat (oprbc_len c)" "unat (oprbc_len c) \<le> 24"
  shows "txt_loop c xs i bin buf = Some (Some (of_nat (i + length xs)), RET_CONTINUE,
    c\<lparr>tmp := take k (tmp c) @ xs @ drop (k + length xs) (tmp c), tmp_len := of_nat (k + length xs)\<rparr>,
    bin, buf)"
  using assms
proof (induction xs arbitrary: c i k)
  case Nil
  then have "c\<lparr>tmp := tmp c, tmp_len := of_nat k\<rparr> = c" by auto
  then show ?case using Nil by simp
next
  case (Cons x xs)
  let ?c = "c\<lparr>tmp := (tmp c)[k := x], tmp_len := tmp_len c + 1\<rparr>"
  have k: "k < 24" "Suc k < 256" using Cons by simp_all
  have l: "unat (tmp_len c + 1) = Suc k" "tmp_len c = of_nat k"
    using Cons(3) k by (simp_all add: unat_add_small flip: Cons(3))
  have "oprbc_len c \<noteq> tmp_len c + 1"
    using l(1) Cons(5) by auto
  then have "txt_char c x bin buf = Some (RET_CONTINUE, ?c, bin, buf)"
    using Cons k by (simp add: txt_char_def push_tmp_def wr_def)
  moreover have "take (Suc k) ((tmp c)[k := x]) = take k (tmp c) @ [x]"
    using k Cons(4) by (simp add: take_Suc_conv_app_nth)
  ultimately show ?case
    using Cons(1) [of ?c "Suc k" "Suc i"] Cons(2-) l k by simp
qed

lemma opc_char:
  assumes "txt_idle c" "bc2opc a b = Some (opc, t)" "getOpInfo t = Some (l, n)" "l \<noteq> 0"
  shows "\<exists>c'. txt_loop c [a, b] i bin buf = Some (Some (of_nat (i + 2)), RET_CONTINUE, c', bin, buf) \<and>
    st c' = ST_OPR \<and> tmp_len c' = 0 \<and> length (tmp c') = 24 \<and> current_opc c' = opc \<and>
    current_oprtype c' = t \<and> oprbc_len c' = l \<and> inst_len c' = n"
proof -
  obtain x y zs where t: "tmp c = x # y # zs" "length zs = 22"
    using assms(1) by (auto simp: txt_idle_def numeral_eq_Suc length_Suc_conv)
  show ?thesis
    using assms t by (simp add: txt_idle_def txt_char_def push_tmp_def wr_def opc_complete_def rd_def Let_def)
qed

lemma txt_loop_append:
  assumes "txt_loop c xs i bin buf = Some (q, RET_CONTINUE, c', bin', buf')"
  shows "txt_loop c (xs @ ys) i bin buf = txt_loop c' ys (i + length xs) bin' buf'"
  using assms
  by (induction c xs i bin buf rule: txt_loop.induct)
    (auto split: option.splits prod.splits txt_ret.splits)

text \<open>Everything but the last character of an instruction is collected; the last one stores it.\<close>

lemma compile_instr:
  assumes c: "txt_idle c" and m: "(m, opc, opr_type opr) \<in> set bc_type_tbl" and r: "regs_accepted opr"
    and bin: "opr_words opr \<le> unat (len bin)" "ptr bin + unat (len bin) \<le> length buf"
  shows "\<exists>s ch q c1 c' bin' buf'. m @ opr_text opr = s @ [ch] \<and>
    txt_loop c s 0 bin buf = Some (q, RET_CONTINUE, c1, bin, buf) \<and>
    txt_char c1 ch bin buf = Some (RET_OK (of_nat (opr_words opr)), c', bin', buf') \<and>
    txt_idle c' \<and> TUInt32ArrayPtr_seek bin (of_nat (opr_words opr)) = (True, bin') \<and>
    instr_stored buf (ptr bin) (opc, opr) buf'"
proof -
  have m2: "length m = 2" "bc2opc (m ! 0) (m ! 1) = Some (opc, opr_type opr)"
    using mnemonics m by (auto simp: list_all_iff)
  then obtain a b where ab: "m = [a, b]" by (auto simp: numeral_eq_Suc length_Suc_conv)
  have bc: "bc2opc a b = Some (opc, opr_type opr)" using m2(2) ab by simp
  have w: "unat (of_nat (opr_words opr) :: u16) = opr_words opr"
    using opr_words_bounds(2) [of opr] by (intro unat_of_nat_u16) simp
  have wc: "(ucast (of_nat (opr_words opr) :: u8) :: u16) = of_nat (opr_words opr)"
    by (cases opr) simp_all
  obtain bin' where seek: "TUInt32ArrayPtr_seek bin (of_nat (opr_words opr)) = (True, bin')"
    using bin(1) w by (auto simp: TUInt32ArrayPtr_seek_def word_less_nat_alt)
  have room: "ptr bin + opr_words opr \<le> length buf" using bin by linarith
  show ?thesis
  proof (cases "opr = NoOpr")
    case True
    obtain x y zs where t: "tmp c = x # y # zs" "length zs = 22"
      using c by (auto simp: txt_idle_def numeral_eq_Suc length_Suc_conv)
    let ?c1 = "c\<lparr>tmp := a # y # zs, tmp_len := 1\<rparr>"
    let ?c2 = "c\<lparr>tmp := a # b # zs, tmp_len := 2, current_opc := opc,
      current_oprtype := OPR_TYPE_NONE, oprbc_len := 0, inst_len := 1\<rparr>"
    obtain buf' where buf': "write_op ?c2 buf (ptr bin) = Some buf'"
        "instr_stored buf (ptr bin) (opc, NoOpr) buf'"
      using store_no_operand [of "ptr bin" buf ?c2 opc] room True by auto
    have "txt_loop c [a] 0 bin buf = Some (Some 1, RET_CONTINUE, ?c1, bin, buf)"
      using c t by (simp add: txt_idle_def txt_char_def push_tmp_def wr_def)
    moreover have "txt_char ?c1 b bin buf = Some (RET_OK 1, ?c2\<lparr>tmp_len := 0\<rparr>, bin', buf')"
      using c t bc buf'(1) seek True opr_info [of NoOpr]
      by (simp add: txt_idle_def txt_char_def push_tmp_def wr_def opc_complete_def rd_def Let_def)
    ultimately show ?thesis
      using ab True buf'(2) seek c t by (intro exI [of _ "[a]"] exI [of _ b]) (auto simp: txt_idle_def)
  next
    case False
    then obtain xs x where xs: "opr_text opr = xs @ [x]"
      using length_opr_text(2) by (metis rev_exhaust)
    let ?n = "length (opr_text opr)"
    have n: "?n \<le> 10" "0 < ?n" using length_opr_text [of opr] False by auto
    have nz: "unat (of_nat ?n :: u8) = ?n" "(of_nat ?n :: u8) \<noteq> 0"
      using n of_nat_u8_small [of ?n] by auto
    obtain c1 where c1: "txt_loop c [a, b] 0 bin buf = Some (Some (of_nat (0 + 2)), RET_CONTINUE, c1, bin, buf)"
      "st c1 = ST_OPR" "tmp_len c1 = 0" "length (tmp c1) = 24" "current_opc c1 = opc"
      "current_oprtype c1 = opr_type opr" "oprbc_len c1 = of_nat ?n" "inst_len c1 = of_nat (opr_words opr)"
      using opc_char [OF c bc opr_info nz(2)] by blast
    let ?c2 = "c1\<lparr>tmp := xs @ drop (length xs) (tmp c1), tmp_len := of_nat (length xs)\<rparr>"
    let ?c3 = "c1\<lparr>tmp := opr_text opr @ drop ?n (tmp c1), tmp_len := of_nat ?n\<rparr>"
    have "txt_loop c1 xs 2 bin buf = Some (Some (of_nat (2 + length xs)), RET_CONTINUE, ?c2, bin, buf)"
      using txt_loop_operand [of c1 0 xs 2 bin buf] c1 nz n xs by simp
    then have "txt_loop c (m @ xs) 0 bin buf = Some (Some (of_nat (2 + length xs)), RET_CONTINUE, ?c2, bin, buf)"
      using txt_loop_append [OF c1(1), of xs] ab by (simp add: numeral_2_eq_2 del: txt_loop.simps)
    moreover
    obtain buf1 buf' where buf': "write_op ?c3 buf (ptr bin) = Some buf1"
      "put_operand (opr_type opr) (opr_text opr @ drop ?n (tmp c1)) buf1 (ptr bin) = Some (True, buf')"
      "instr_stored buf (ptr bin) (opc, opr) buf'"
      using store_operand [OF False r room, of ?c3 opc "drop ?n (tmp c1)"] c1 by auto
    have l: "length xs < 24" "?n = Suc (length xs)" using n xs by simp_all
    then have "drop (length xs) (tmp c1) = tmp c1 ! length xs # drop ?n (tmp c1)"
      using c1(4) by (simp add: Cons_nth_drop_Suc)
    then have "push_tmp ?c2 x = Some ?c3"
      using l c1(4) xs of_nat_u8_small [of "length xs"]
      by (simp add: push_tmp_def wr_def list_update_append add.commute)
    then have "txt_char ?c2 x bin buf =
        Some (RET_OK (of_nat (opr_words opr)), ?c3\<lparr>tmp_len := 0, st := ST_OPC\<rparr>, bin', buf')"
      using c1 buf' seek wc by (simp add: txt_char_def opr_complete_def)
    ultimately show ?thesis
      using c1 xs buf'(3) seek n by (intro exI [of _ "m @ xs"] exI [of _ x]) (auto simp: txt_idle_def)
  qed
qed

section \<open>Compiling a program\<close>

text \<open>
  The client's loop (\<open>NyLPC_cModRemoteMcu.c\<close>): every character goes to \<open>compileFragment2\<close>
  until the end mark or an error.
\<close>

fun compile_text :: "txt_compiler \<Rightarrow> string \<Rightarrow> array_ptr \<Rightarrow> u32 list \<Rightarrow> txt_result option" where
  "compile_text c [] bin buf = Some (RET_CONTINUE, c, bin, buf)"
| "compile_text c (ch # cs) bin buf = (case cMiMicTxtCompiler_compileFragment2 c ch bin buf of
     None \<Rightarrow> None
   | Some (r, c', bin', buf') \<Rightarrow> (case r of
       RET_OK_END \<Rightarrow> Some (r, c', bin', buf')
     | RET_NG \<Rightarrow> Some (r, c', bin', buf')
     | _ \<Rightarrow> compile_text c' cs bin' buf'))"

text \<open>The two letters of an instruction, from the table, and the text of an instruction.\<close>

definition mnemonic :: "u8 \<Rightarrow> u8 \<Rightarrow> string option" where
  "mnemonic opc t = map_option fst (List.find (\<lambda>(m, e). e = (opc, t)) bc_type_tbl)"

definition encodable :: "instr \<Rightarrow> bool" where
  "encodable i \<longleftrightarrow> mnemonic (fst i) (opr_type (snd i)) \<noteq> None \<and> regs_accepted (snd i)"

definition instr_text :: "instr \<Rightarrow> string" where
  "instr_text i = the (mnemonic (fst i) (opr_type (snd i))) @ opr_text (snd i)"

lemma encodable_row:
  assumes "encodable (opc, opr)"
  obtains m where "(m, opc, opr_type opr) \<in> set bc_type_tbl" "instr_text (opc, opr) = m @ opr_text opr"
proof -
  obtain row where f: "List.find (\<lambda>(m, e). e = (opc, opr_type opr)) bc_type_tbl = Some row"
    using assms by (auto simp: encodable_def mnemonic_def)
  then obtain m where "row = (m, opc, opr_type opr)" "row \<in> set bc_type_tbl"
    by (auto simp: find_Some_iff in_set_conv_nth)
  then show ?thesis
    using f by (intro that [of m]) (simp_all add: instr_text_def mnemonic_def)
qed

lemma compileFragment2_char: "cMiMicTxtCompiler_compileFragment2 c ch bin buf = txt_char c ch bin buf"
  by (simp add: cMiMicTxtCompiler_compileFragment2_def cMiMicTxtCompiler_compileFragment_def
      split: option.split prod.split txt_ret.split)

lemma compile_text_loop:
  assumes "txt_loop c s i bin buf = Some (q, RET_CONTINUE, c1, bin1, buf1)"
  shows "compile_text c (s @ t) bin buf = compile_text c1 t bin1 buf1"
  using assms
  by (induction c s i bin buf rule: txt_loop.induct)
    (auto simp: compileFragment2_char split: option.splits prod.splits txt_ret.splits)

lemma decode_cong:
  assumes "decode buf p = Some i" "length buf' = length buf"
    "\<And>q. q < p + opr_words (snd i) \<Longrightarrow> buf' ! q = buf ! q"
  shows "decode buf' p = Some i"
proof -
  obtain opc opr where i: "i = (opc, opr)" by (cases i)
  then have "decode buf p = Some (opc, opr)" using assms(1) by simp
  then show ?thesis
    by (rule decode_cases) (use assms(2,3) i in \<open>auto simp: decode_def rd_def split: operand.splits if_splits\<close>)
qed

lemma seek_True:
  "TUInt32ArrayPtr_seek bin n = (True, bin') \<Longrightarrow>
     ptr bin' = ptr bin + unat n \<and> unat (len bin') = unat (len bin) - unat n \<and> unat n \<le> unat (len bin)"
  by (auto simp: TUInt32ArrayPtr_seek_def unat_sub_le not_less word_le_nat_alt split: if_splits)

lemma compile_program:
  assumes "list_all encodable P" "txt_idle c" "prog_words P \<le> unat (len bin)"
    "ptr bin + unat (len bin) \<le> length buf"
  shows "\<exists>c' bin' buf'. compile_text c (concat (map instr_text P) @ t) bin buf = compile_text c' t bin' buf' \<and>
    txt_idle c' \<and> loaded buf' (ptr bin) P \<and> length buf' = length buf \<and>
    ptr bin' = ptr bin + prog_words P \<and> unat (len bin') = unat (len bin) - prog_words P \<and>
    (\<forall>q. q < ptr bin \<or> ptr bin + prog_words P \<le> q \<longrightarrow> buf' ! q = buf ! q)"
  using assms
proof (induction P arbitrary: c bin buf)
  case (Cons i P)
  obtain opc opr where i: "i = (opc, opr)" by (cases i)
  obtain m where m: "(m, opc, opr_type opr) \<in> set bc_type_tbl" "instr_text i = m @ opr_text opr"
    using encodable_row [of opc opr] Cons(2) i by auto
  have r: "regs_accepted opr" using Cons(2) i by (simp add: encodable_def)
  have words: "opr_words opr \<le> unat (len bin)" using Cons(4) i by simp
  obtain s ch q c1 c' bin' buf' where step: "m @ opr_text opr = s @ [ch]"
    "txt_loop c s 0 bin buf = Some (q, RET_CONTINUE, c1, bin, buf)"
    "txt_char c1 ch bin buf = Some (RET_OK (of_nat (opr_words opr)), c', bin', buf')"
    "txt_idle c'" "TUInt32ArrayPtr_seek bin (of_nat (opr_words opr)) = (True, bin')"
    "instr_stored buf (ptr bin) (opc, opr) buf'"
    using compile_instr [OF Cons(3) m(1) r words Cons(5)] by blast
  have w: "unat (of_nat (opr_words opr) :: u16) = opr_words opr"
    using opr_words_bounds(2) [of opr] by (intro unat_of_nat_u16) simp
  have b': "ptr bin' = ptr bin + opr_words opr" "unat (len bin') = unat (len bin) - opr_words opr"
    using seek_True [OF step(5)] w by auto
  have l': "length buf' = length buf" "decode buf' (ptr bin) = Some i"
    "\<And>q. q < ptr bin \<or> ptr bin + opr_words opr \<le> q \<Longrightarrow> buf' ! q = buf ! q"
    using step(6) i by (auto simp: instr_stored_def)
  have head: "compile_text c (instr_text i @ t') bin buf = compile_text c' t' bin' buf'" for t'
    using compile_text_loop [OF step(2), of "ch # t'"] step(1,3) m(2) by (simp add: compileFragment2_char)
  have enc: "list_all encodable P" using Cons(2) by simp
  have fit: "prog_words P \<le> unat (len bin')" "ptr bin' + unat (len bin') \<le> length buf'"
    using Cons(4,5) b' l'(1) i words by simp_all
  obtain c2 bin2 buf2 where ih:
    "compile_text c' (concat (map instr_text P) @ t) bin' buf' = compile_text c2 t bin2 buf2"
    "txt_idle c2" "loaded buf2 (ptr bin') P" "length buf2 = length buf'"
    "ptr bin2 = ptr bin' + prog_words P" "unat (len bin2) = unat (len bin') - prog_words P"
    "\<forall>q. q < ptr bin' \<or> ptr bin' + prog_words P \<le> q \<longrightarrow> buf2 ! q = buf' ! q"
    using Cons(1) [OF enc step(4) fit] by blast
  have "decode buf2 (ptr bin) = Some i"
    using ih(4,7) b' i by (intro decode_cong [OF l'(2)]) simp_all
  then show ?case
    using ih head [of "concat (map instr_text P) @ t"] b' l' i
    by (intro exI [of _ c2] exI [of _ bin2] exI [of _ buf2]) (simp add: add.assoc)
qed auto

lemma compile_end:
  assumes "txt_idle c"
  shows "\<exists>c'. compile_text c ''.E'' bin buf = Some (RET_OK_END, c', bin, buf) \<and> txt_idle c'"
proof -
  obtain x y zs where t: "tmp c = x # y # zs" "length zs = 22"
    using assms by (auto simp: txt_idle_def numeral_eq_Suc length_Suc_conv)
  have "bc2opc CHR ''.'' CHR ''E'' = None" "bc2ctrlc CHR ''.'' CHR ''E'' = Some (CP_TYPE_END, OPR_TYPE_NONE)"
    by code_simp+
  then show ?thesis
    using assms t opr_info [of NoOpr]
    by (simp add: compileFragment2_char txt_idle_def txt_char_def push_tmp_def wr_def rd_def opc_complete_def Let_def)
qed

section \<open>Properties\<close>

text \<open>
  C1: Compiling the text of any list of encodable instructions, character by character and ended
  by \<open>.E\<close>, into a buffer with room for it succeeds, and running the resulting binary on the
  virtual machine does exactly what the instructions mean, in order.
\<close>

theorem compile_and_run:
  assumes "list_all encodable P" "txt_idle c" "prog_words P \<le> unat (len bin)" "ptr bin = 0"
    "unat (len bin) \<le> length buf"
  shows "\<exists>c' bin' code. compile_text c (concat (map instr_text P) @ ''.E'') bin buf =
      Some (RET_OK_END, c', bin', code) \<and> txt_idle c' \<and> ptr bin' = prog_words P \<and>
    length code = length buf \<and>
    cMiMicVM_run (length P) ev s code (of_nat (prog_words P)) = Some (run_program ev s P)"
proof -
  obtain c1 bin1 code where cp: "compile_text c (concat (map instr_text P) @ ''.E'') bin buf =
      compile_text c1 ''.E'' bin1 code" "txt_idle c1" "loaded code 0 P" "length code = length buf"
      "ptr bin1 = prog_words P"
    using compile_program [OF assms(1-3), of buf "''.E''"] assms(4,5) by auto
  moreover have "prog_words P < 65536"
    using assms(3) unat_u16_less [of "len bin"] by linarith
  ultimately show ?thesis
    using compile_end [OF cp(2), of bin1 code] run_loaded [OF cp(3) _ order_refl, of ev s] by fastforce
qed

text \<open>The program of the witness: \<open>LD wm0,7; ADD wm0,wm0; SPUT wm0\<close>, text \<open>FB0000000007CA0000EE00\<close>.\<close>

theorem compile_and_run_witness:
  "\<exists>c' bin' code. compile_text (cMiMicTxtCompiler_initialize \<lparr>st = 0, current_opc = 0, current_oprtype = 0,
      inst_len = 0, oprbc_len = 0, tmp_len = 0, tmp = replicate 24 NUL\<rparr>)
      (concat (map instr_text demo_program) @ ''.E'') \<lparr>ptr = 0, len = 5\<rparr> [9, 9, 9, 9, 9] =
    Some (RET_OK_END, c', bin', code) \<and>
    cMiMicVM_run 3 quiet_events \<lparr>wm = replicate 8 0, env = []\<rparr> code 4 =
      Some (run_program quiet_events \<lparr>wm = replicate 8 0, env = []\<rparr> demo_program)"
proof -
  have "list_all encodable demo_program"
    by (simp add: demo_program_def encodable_def mnemonic_def bc_type_tbl_def)
  moreover have "prog_words demo_program = 4" "length demo_program = 3"
    by (simp_all add: demo_program_def)
  ultimately show ?thesis
    using compile_and_run [of demo_program "cMiMicTxtCompiler_initialize \<lparr>st = 0, current_opc = 0,
        current_oprtype = 0, inst_len = 0, oprbc_len = 0, tmp_len = 0, tmp = replicate 24 NUL\<rparr>"
        "\<lparr>ptr = 0, len = 5\<rparr>" "[9, 9, 9, 9, 9]" quiet_events "\<lparr>wm = replicate 8 0, env = []\<rparr>"]
    by (auto simp: txt_idle_def cMiMicTxtCompiler_initialize_def)
qed



text \<open>
  The register check of \<open>txt2WMId\<close> lets the number 8 through, one past the last register: the
  text \<open>AM08\<close> compiles without an error, and the virtual machine that runs it accesses a register
  that does not exist.
\<close>

theorem txt_register_8:
  "\<exists>q c' bin' code. cMiMicTxtCompiler_compileFragment \<lparr>st = ST_OPC, current_opc = 0, current_oprtype = 0,
      inst_len = 0, oprbc_len = 0, tmp_len = 0, tmp = replicate 24 NUL\<rparr> ''AM08'' \<lparr>ptr = 0, len = 1\<rparr> [0] =
      Some (q, RET_OK 1, c', bin', code) \<and>
    cMiMicVM_run 1 ev \<lparr>wm = replicate NUMBER_OF_WM 0, env = e\<rparr> code 1 = Some None"
proof -
  have "cMiMicTxtCompiler_compileFragment \<lparr>st = ST_OPC, current_opc = 0, current_oprtype = 0,
      inst_len = 0, oprbc_len = 0, tmp_len = 0, tmp = replicate 24 NUL\<rparr> ''AM08'' \<lparr>ptr = 0, len = 1\<rparr> [0] =
      Some (Some 4, RET_OK 1, \<lparr>st = ST_OPC, current_opc = OP_TYPE_NOT, current_oprtype = OPR_TYPE_WM,
      inst_len = 1, oprbc_len = 2, tmp_len = 0, tmp = CHR ''0'' # CHR ''8'' # replicate 22 NUL\<rparr>,
      \<lparr>ptr = 1, len = 0\<rparr>, [0x00082114])"
    by code_simp
  moreover have "process_instruction ev \<lparr>wm = replicate 8 0, env = e\<rparr> [0x00082114] 0 = None"
  proof -
    have "byte_of 0x00082114 0 = OP_TYPE_NOT" "byte_of 0x00082114 1 = OPR_TYPE_WM" "byte_of 0x00082114 2 = 8"
      by code_simp+
    then show ?thesis by (simp add: process_instruction_def exec_switch_def rd_def Let_def)
  qed
  ultimately show ?thesis
    by (auto simp: cMiMicVM_run_def)
qed

end
