(* ===== verification/DbCompiler.thy ===== *)
theory DbCompiler
  imports TxtCompiler
begin

text \<open>
  \<open>NyLPC_cMiMicDbCompiler.c\<close> and \<open>NyLPC_mimicvm_utils.c\<close>: the compiler of the data part of a
  MiMic program, groups of eight lower-case hexadecimal digits that come in fragments of any
  size. \<open>NyLPC_mimicvm_txt2UInt\<close> is the same function as the static one of the text compiler.
\<close>

abbreviation (input) "ERROR_OUT_BUFFER_TOO_SHORT \<equiv> (0x01 :: u8)"
abbreviation (input) "ERROR_FORMAT \<equiv> (0x02 :: u8)"
abbreviation (input) "ERROR_FRAGMENT_UNIT \<equiv> (0x03 :: u8)"

record db_compiler =
  bc_fragment_len :: u8
  error_reason :: u8
  db_tmp :: "char list"

datatype db_ret = DB_OK | DB_CONTINUE | DB_ERROR

definition mimicvm_txt2UInt :: "char list \<Rightarrow> nat \<Rightarrow> u32 option option" where
  "mimicvm_txt2UInt i_txt i_num = (case hex_loop i_txt i_num 0 of
     None \<Rightarrow> None
   | Some None \<Rightarrow> Some None
   | Some (Some ret) \<Rightarrow> Some
       (if i_num = 2 then Some (ucast (ucast ret :: u8))
        else if i_num = 4 then Some (ucast (ucast ret :: u16))
        else if i_num = 8 then Some ret
        else None))"

definition cMiMicDbCompiler_initialize :: "db_compiler \<Rightarrow> db_compiler" where
  "cMiMicDbCompiler_initialize c = c\<lparr>bc_fragment_len := 0\<rparr>"

text \<open>
  A result has the return code, the value stored through \<open>o_val\<close> if any, \<open>*o_parsed_bc\<close> if it is
  set, and the compiler.
\<close>

type_synonym db_result = "db_ret \<times> u32 option \<times> u16 option \<times> db_compiler"

definition db_convert :: "db_compiler \<Rightarrow> char list \<Rightarrow> u16 \<Rightarrow> db_result option" where
  "db_convert c txt parsed = do { r \<leftarrow> mimicvm_txt2UInt txt 8;
     Some (case r of
       Some v \<Rightarrow> (DB_OK, Some v, Some parsed, c)
     | None \<Rightarrow> (DB_ERROR, None, None, c\<lparr>error_reason := ERROR_FORMAT\<rparr>)) }"

text \<open>The loop that fills the cache; \<open>k\<close> is the local counter \<open>c\<close>, \<open>i\<close> the index.\<close>

fun db_fill :: "db_compiler \<Rightarrow> string \<Rightarrow> nat \<Rightarrow> u8 \<Rightarrow> db_result option" where
  "db_fill c [] i k = Some (DB_CONTINUE, None, Some (of_nat i), c\<lparr>bc_fragment_len := k\<rparr>)"
| "db_fill c (ch # cs) i k = do {
     t \<leftarrow> wr (db_tmp c) (unat k) ch;
     if k + 1 = 8
     then db_convert (c\<lparr>db_tmp := t, bc_fragment_len := 0\<rparr>) t (of_nat (i + 1))
     else db_fill (c\<lparr>db_tmp := t\<rparr>) cs (i + 1) (k + 1) }"

definition cMiMicDbCompiler_compileFragment :: "db_compiler \<Rightarrow> string \<Rightarrow> db_result option" where
  "cMiMicDbCompiler_compileFragment c i_bc =
     (if bc_fragment_len c = 0 \<and> 8 \<le> length i_bc then db_convert c i_bc 8
      else db_fill c i_bc 0 (bc_fragment_len c))"

definition cMiMicDbCompiler_compileFragment2 :: "db_compiler \<Rightarrow> char \<Rightarrow> db_result option" where
  "cMiMicDbCompiler_compileFragment2 c i_bc = cMiMicDbCompiler_compileFragment c [i_bc]"

definition cMiMicDbCompiler_hasFragment :: "db_compiler \<Rightarrow> bool" where
  "cMiMicDbCompiler_hasFragment c \<longleftrightarrow> bc_fragment_len c > 0"

text \<open>
  The loop of \<open>NyLPC_cMiMicDbCompiler_compile\<close>: its condition tests \<open>i_bc\<close>, which does not change;
  \<open>rp\<close> is the rest of the input and \<open>wp\<close> the free output. Every value is stored through
  \<open>o_val->ptr\<close>, the first place of the output. The outer option is the fuel.
\<close>

fun db_compile_loop :: "nat \<Rightarrow> db_compiler \<Rightarrow> string \<Rightarrow> string \<Rightarrow> array_ptr \<Rightarrow> array_ptr \<Rightarrow> u32 list \<Rightarrow>
    (u16 \<times> db_compiler \<times> u32 list) option option" where
  "db_compile_loop 0 c i_bc rp wp o_val buf = None"
| "db_compile_loop (Suc n) c i_bc rp wp o_val buf =
     (if i_bc = [] then Some (Some (len o_val - len wp, c, buf))
      else if len wp = 0 then Some (Some (0, c\<lparr>error_reason := ERROR_OUT_BUFFER_TOO_SHORT\<rparr>, buf))
      else case cMiMicDbCompiler_compileFragment c rp of
        None \<Rightarrow> Some None
      | Some (DB_OK, v, s, c') \<Rightarrow>
          (case wr buf (ptr o_val) (the v) of
             None \<Rightarrow> Some None
           | Some buf' \<Rightarrow>
               if length rp < unat (the s) then Some (Some (0, c', buf'))
               else case TUInt32ArrayPtr_seek wp 1 of
                 (False, _) \<Rightarrow> Some (Some (0, c', buf'))
               | (True, wp') \<Rightarrow> db_compile_loop n c' i_bc (drop (unat (the s)) rp) wp' o_val buf')
      | Some (DB_CONTINUE, v, s, c') \<Rightarrow>
          Some (Some (0, c'\<lparr>error_reason := ERROR_FRAGMENT_UNIT\<rparr>, buf))
      | Some (DB_ERROR, v, s, c') \<Rightarrow> Some (Some (0, c', buf)))"

definition cMiMicDbCompiler_compile :: "nat \<Rightarrow> db_compiler \<Rightarrow> string \<Rightarrow> array_ptr \<Rightarrow> u32 list \<Rightarrow>
    (u16 \<times> db_compiler \<times> u32 list) option option" where
  "cMiMicDbCompiler_compile fuel c i_bc o_val buf = db_compile_loop fuel c i_bc i_bc o_val o_val buf"

section \<open>Fragments\<close>

definition db_inv :: "db_compiler \<Rightarrow> bool" where
  "db_inv c \<longleftrightarrow> length (db_tmp c) = 8 \<and> bc_fragment_len c < 8"

lemma mimicvm_txt2UInt_eq: "mimicvm_txt2UInt = txt2UInt"
  by (simp add: fun_eq_iff mimicvm_txt2UInt_def txt2UInt_def)

lemma u8_Suc_lt: "k < (8 :: u8) \<Longrightarrow> unat (k + 1) = Suc (unat k)"
  by (simp add: unat_add_small word_less_nat_alt)

text \<open>Fewer than the missing digits are collected.\<close>

lemma db_fill_short:
  assumes "length (db_tmp c) = 8" "unat k + length xs < 8"
  shows "db_fill c xs i k = Some (DB_CONTINUE, None, Some (of_nat (i + length xs)),
    c\<lparr>db_tmp := take (unat k) (db_tmp c) @ xs @ drop (unat k + length xs) (db_tmp c),
      bc_fragment_len := k + of_nat (length xs)\<rparr>)"
  using assms
proof (induction xs arbitrary: c i k)
  case (Cons x xs)
  have k: "unat (k + 1) = Suc (unat k)" "k + 1 \<noteq> 8"
    using Cons(3) u8_Suc_lt [of k] by (auto simp: word_less_nat_alt)
  have "take (Suc (unat k)) ((db_tmp c)[unat k := x]) = take (unat k) (db_tmp c) @ [x]"
    using Cons(2,3) by (simp add: take_Suc_conv_app_nth)
  then show ?case
    using Cons(1) [of "c\<lparr>db_tmp := (db_tmp c)[unat k := x]\<rparr>" "k + 1" "Suc i"] Cons(2,3) k
    by (simp add: wr_def add.assoc)
qed simp

text \<open>The missing digits complete a value.\<close>

lemma db_fill_complete:
  assumes "length (db_tmp c) = 8" "xs \<noteq> []" "unat k + length xs = 8"
  shows "db_fill c (xs @ ys) i k =
    db_convert (c\<lparr>db_tmp := take (unat k) (db_tmp c) @ xs, bc_fragment_len := 0\<rparr>)
      (take (unat k) (db_tmp c) @ xs) (of_nat (i + length xs))"
  using assms
proof (induction xs arbitrary: c i k)
  case (Cons x xs)
  have lt: "unat k < 8" using Cons(4) by simp
  then have k: "unat (k + 1) = Suc (unat k)"
    using u8_Suc_lt [of k] by (simp add: word_less_nat_alt)
  have tk: "take (Suc (unat k)) ((db_tmp c)[unat k := x]) = take (unat k) (db_tmp c) @ [x]"
    using Cons(2) lt by (simp add: take_Suc_conv_app_nth)
  show ?case
  proof (cases "xs = []")
    case True
    then have "Suc (unat k) = 8" "k + 1 = 8" using k Cons(4) by (auto simp: word_unat_eq_iff)
    moreover have "(db_tmp c)[unat k := x] = take (unat k) (db_tmp c) @ [x]"
      using tk Cons(2) \<open>Suc (unat k) = 8\<close> by simp
    ultimately show ?thesis
      using True Cons(2) lt by (simp add: wr_def)
  next
    case False
    then have "k + 1 \<noteq> 8" using k Cons(4) by (cases xs) auto
    then show ?thesis
      using Cons(1) [of "c\<lparr>db_tmp := (db_tmp c)[unat k := x]\<rparr>" "k + 1" "Suc i"] Cons(2,4) k tk False lt
      by (simp add: wr_def)
  qed
qed simp

text \<open>The digits that wait for the rest of their group.\<close>

definition db_pending :: "db_compiler \<Rightarrow> string" where
  "db_pending c = take (unat (bc_fragment_len c)) (db_tmp c)"

lemma db_pending_length: "db_inv c \<Longrightarrow> length (db_pending c) = unat (bc_fragment_len c)"
  by (simp add: db_inv_def db_pending_def word_less_nat_alt)

lemma db_fragment_short:
  assumes "db_inv c" "length (db_pending c @ xs) < 8"
  shows "\<exists>c'. cMiMicDbCompiler_compileFragment c xs = Some (DB_CONTINUE, None, Some (of_nat (length xs)), c') \<and>
    db_inv c' \<and> db_pending c' = db_pending c @ xs"
proof -
  have lt: "unat (bc_fragment_len c) + length xs < 8" "length (db_tmp c) = 8"
    using assms db_pending_length [OF assms(1)] by (simp_all add: db_inv_def)
  then have "unat (of_nat (length xs) :: u8) = length xs" by (simp add: unat_of_nat)
  then have "unat (bc_fragment_len c + of_nat (length xs)) = unat (bc_fragment_len c) + length xs"
    using lt by (simp add: unat_add_small)
  then show ?thesis
    using lt db_fill_short [OF lt(2,1), of 0]
    by (simp add: cMiMicDbCompiler_compileFragment_def db_inv_def db_pending_def word_less_nat_alt)
qed

lemma db_fragment_complete:
  assumes "db_inv c" "xs \<noteq> []" "length (db_pending c @ xs) = 8"
  shows "\<exists>c0. cMiMicDbCompiler_compileFragment c (xs @ ys) =
      db_convert c0 (db_pending c @ xs @ (if bc_fragment_len c = 0 then ys else [])) (of_nat (length xs)) \<and>
    db_inv c0 \<and> bc_fragment_len c0 = 0"
proof (cases "bc_fragment_len c = 0")
  case True
  then have "length xs = 8" "db_pending c = []" using assms(3) by (simp_all add: db_pending_def)
  then show ?thesis
    using True assms(1) by (auto simp: cMiMicDbCompiler_compileFragment_def)
next
  case False
  have eq: "unat (bc_fragment_len c) + length xs = 8" "length (db_tmp c) = 8"
    using assms db_pending_length [OF assms(1)] by (simp_all add: db_inv_def)
  show ?thesis
    using False eq db_fill_complete [OF eq(2) assms(2) eq(1), of ys 0]
    by (auto simp: cMiMicDbCompiler_compileFragment_def db_inv_def db_pending_def)
qed

lemma hex_loop_enough: "n \<le> length cs \<Longrightarrow> \<exists>r. hex_loop cs n ret = Some r"
  by (induction cs n ret rule: hex_loop.induct) (auto split: option.split)

lemma db_convert_total:
  assumes "8 \<le> length txt"
  obtains v where "db_convert c txt q = Some (DB_OK, Some v, Some q, c)"
  | "db_convert c txt q = Some (DB_ERROR, None, None, c\<lparr>error_reason := ERROR_FORMAT\<rparr>)"
proof -
  obtain r where "hex_loop txt 8 0 = Some r" using hex_loop_enough [OF assms] by blast
  then show ?thesis
    using that by (cases r) (auto simp: db_convert_def mimicvm_txt2UInt_def)
qed

lemma db_fragment_total:
  assumes "db_inv c"
  shows "\<exists>r v s c'. cMiMicDbCompiler_compileFragment c rp = Some (r, v, s, c') \<and> db_inv c' \<and>
    (r = DB_OK \<longrightarrow> (\<exists>n. s = Some n \<and> 0 < unat n \<and> unat n \<le> length rp))"
proof (cases "length (db_pending c @ rp) < 8")
  case True
  then show ?thesis using db_fragment_short [OF assms True] by auto
next
  case False
  let ?n = "8 - length (db_pending c)"
  have p: "length (db_pending c) < 8"
    using assms db_pending_length [OF assms] by (simp add: db_inv_def word_less_nat_alt)
  then have n: "?n \<le> length rp" "0 < ?n" "?n \<le> 8" "unat (of_nat ?n :: u16) = ?n"
    using False unat_of_nat_u16 [of ?n] by (auto simp del: of_nat_diff)
  obtain c0 where c0: "cMiMicDbCompiler_compileFragment c (take ?n rp @ drop ?n rp) =
      db_convert c0 (db_pending c @ take ?n rp @ (if bc_fragment_len c = 0 then drop ?n rp else []))
        (of_nat ?n)" "db_inv c0"
    using db_fragment_complete [OF assms, of "take ?n rp" "drop ?n rp"] n p by fastforce
  have "8 \<le> length (db_pending c @ take ?n rp @ (if bc_fragment_len c = 0 then drop ?n rp else []))"
    using n p by simp
  then show ?thesis
    by (rule db_convert_total [of _ c0 "of_nat ?n"]) (use c0 n in \<open>auto simp: db_inv_def simp del: of_nat_diff\<close>)
qed

section \<open>Properties\<close>

text \<open>
  The data compiler is the inverse of printing eight hexadecimal digits, for every way of
  cutting the digits into fragments: the digits before the last fragment leave it waiting, and
  the fragment that brings the missing ones yields the value, takes exactly those characters and
  leaves the compiler ready for the next group.
\<close>

theorem db_roundtrip:
  assumes "db_inv c" "db_pending c = []" "hexs 8 (unat v) = xs @ ys" "ys \<noteq> []"
  shows "\<exists>c1 c2. cMiMicDbCompiler_compileFragment c xs =
      Some (DB_CONTINUE, None, Some (of_nat (length xs)), c1) \<and>
    cMiMicDbCompiler_compileFragment c1 (ys @ zs) = Some (DB_OK, Some v, Some (of_nat (length ys)), c2) \<and>
    db_inv c2 \<and> db_pending c2 = []"
proof -
  have l: "length xs + length ys = 8" using length_hexs [of 8 "unat v"] assms(3) by simp
  then have "length xs < 8" using assms(4) by (cases ys) auto
  then obtain c1 where c1: "cMiMicDbCompiler_compileFragment c xs =
      Some (DB_CONTINUE, None, Some (of_nat (length xs)), c1)" "db_inv c1" "db_pending c1 = xs"
    using db_fragment_short [OF assms(1), of xs] assms(2) by auto
  obtain c2 where c2: "cMiMicDbCompiler_compileFragment c1 (ys @ zs) =
      db_convert c2 (hexs 8 (unat v) @ (if bc_fragment_len c1 = 0 then zs else [])) (of_nat (length ys))"
      "db_inv c2" "bc_fragment_len c2 = 0"
    using db_fragment_complete [OF c1(2) assms(4)] c1(3) l assms(3) by auto
  then show ?thesis
    using c1(1) by (auto simp: db_convert_def mimicvm_txt2UInt_eq txt2UInt_word db_pending_def)
qed

theorem db_roundtrip_witness:
  "\<exists>c1 c2. cMiMicDbCompiler_compileFragment \<lparr>bc_fragment_len = 0, error_reason = 0, db_tmp = replicate 8 NUL\<rparr> ''0000'' =
      Some (DB_CONTINUE, None, Some 4, c1) \<and>
    cMiMicDbCompiler_compileFragment c1 ''00ffAB'' = Some (DB_OK, Some 255, Some 4, c2)"
proof -
  have "hexs 8 (unat (255 :: u32)) = ''0000'' @ ''00ff''"
    by (simp add: hexs_numeral digit_char_def char_of_def bit_iff_odd)
  from db_roundtrip [OF _ _ this, of "\<lparr>bc_fragment_len = 0, error_reason = 0, db_tmp = replicate 8 NUL\<rparr>" "''AB''"]
  show ?thesis by (auto simp: db_inv_def db_pending_def)
qed

text \<open>
  \<open>NyLPC_cMiMicDbCompiler_compile\<close> returns for every input, but the number it returns is
  always 0, the value its documentation gives to a conversion error: the loop tests the length of
  the unchanged argument, so it ends only in one of the error exits (or at once, on no input).
\<close>

theorem db_compile_returns_0:
  assumes "db_inv c" "ptr o_val < length buf"
  shows "\<exists>c' buf'. cMiMicDbCompiler_compile (length i_bc + 1) c i_bc o_val buf = Some (Some (0, c', buf'))"
proof -
  have "\<exists>c' buf'. db_compile_loop k c i_bc rp wp o_val buf = Some (Some (0, c', buf'))"
    if "db_inv c" "length rp < k" "ptr o_val < length buf" "i_bc \<noteq> []" for k c rp wp buf
    using that
  proof (induction k arbitrary: c rp wp buf)
    case (Suc k)
    obtain r v q c' where f: "cMiMicDbCompiler_compileFragment c rp = Some (r, v, q, c')" "db_inv c'"
        "r = DB_OK \<longrightarrow> (\<exists>n. q = Some n \<and> 0 < unat n \<and> unat n \<le> length rp)"
      using db_fragment_total [OF Suc(2)] by blast
    then show ?case
      using Suc(1) [of c' "drop (unat (the q)) rp"] Suc(3-5)
      by (cases r) (auto simp: wr_def split: prod.split bool.split)
  qed simp
  from this [of c i_bc "length i_bc + 1" buf o_val] show ?thesis
    using assms unfolding cMiMicDbCompiler_compile_def by (cases "i_bc = []") auto
qed

theorem db_compile_returns_0_witness:
  "\<exists>c' buf'. cMiMicDbCompiler_compile (length ''0000000100000002'' + 1) \<lparr>bc_fragment_len = 0, error_reason = 0, db_tmp = replicate 8 NUL\<rparr>
     ''0000000100000002'' \<lparr>ptr = 0, len = 9\<rparr> [0, 0, 0] = Some (Some (0, c', buf'))"
  using db_compile_returns_0 [of "\<lparr>bc_fragment_len = 0, error_reason = 0, db_tmp = replicate 8 NUL\<rparr>"
      "\<lparr>ptr = 0, len = 9\<rparr>" "[0, 0, 0]" "''0000000100000002''"]
  by (auto simp: db_inv_def simp del: list.size)

end
