(* ===== verification/CharMachine.thy ===== *)
theory CharMachine
  imports Prelude
begin

text \<open>
  The contract of the parsers that are driven one character at a time and have an error state:
  \<open>NyLPC_cJsonRpcParser_putChar\<close> and \<open>NyLPC_cHttpBasicHeaderParser_parseChar\<close>. A step may
  fault (\<open>None\<close>); an error is never left, and an invariant is kept. The lemmas of the locale hold
  for whole inputs, cut in any way.
\<close>

fun feed :: "('s \<Rightarrow> 'c \<Rightarrow> 's option) \<Rightarrow> 's \<Rightarrow> 'c list \<Rightarrow> 's option" where
  "feed step s [] = Some s"
| "feed step s (c # cs) = Option.bind (step s c) (\<lambda>t. feed step t cs)"

lemma feed_append: "feed step s (xs @ ys) = Option.bind (feed step s xs) (\<lambda>t. feed step t ys)"
  by (induction step s xs rule: feed.induct) (simp_all split: Option.bind_split)

locale char_machine =
  fixes step :: "'s \<Rightarrow> 'c \<Rightarrow> 's option"
    and inv :: "'s \<Rightarrow> bool"
    and err :: "'s \<Rightarrow> bool"
  assumes err_step: "inv s \<Longrightarrow> err s \<Longrightarrow> \<exists>s'. step s c = Some s' \<and> err s'"
    and inv_step: "inv s \<Longrightarrow> step s c = Some s' \<Longrightarrow> inv s'"
begin

lemma inv_feed: "inv s \<Longrightarrow> feed step s cs = Some t \<Longrightarrow> inv t"
  by (induction cs arbitrary: s) (auto split: Option.bind_splits dest: inv_step)

lemma err_feed: "inv s \<Longrightarrow> err s \<Longrightarrow> \<exists>t. feed step s cs = Some t \<and> err t"
proof (induction cs arbitrary: s)
  case (Cons c cs)
  then obtain s' where "step s c = Some s'" "err s'" using err_step by blast
  then show ?case using Cons inv_step by fastforce
qed simp

text \<open>A text that is not rejected has no rejected prefix.\<close>

lemma accepted_prefix:
  assumes "inv s" "feed step s (xs @ ys) = Some t" "\<not> err t"
  shows "\<exists>u. feed step s xs = Some u \<and> inv u \<and> \<not> err u \<and> feed step u ys = Some t"
proof -
  obtain u where u: "feed step s xs = Some u" "feed step u ys = Some t"
    using assms(2) by (auto simp: feed_append split: Option.bind_splits)
  then have "inv u" using inv_feed [OF assms(1)] by blast
  then show ?thesis using u err_feed [of u ys] assms(3) by auto
qed

end

end
