(* ===== verification/Memory.thy ===== *)
theory Memory
  imports Stdlib
begin

text \<open>
  The memory of the little-endian target seen as bytes: the layout of 16 and 32-bit integers
  (\<open>half_bytes\<close>, \<open>word_bytes\<close>), checked loads of them (\<open>half_at\<close>, \<open>word_at\<close>), and what a
  load finds where an integer was stored. The network code reads packets through packed structs
  laid over such bytes; \<open>NyLPC_ntohs\<close> then turns the loaded integer into the big-endian number
  the packet holds.
\<close>

unbundle bit_operations_syntax

definition half_bytes :: "u16 \<Rightarrow> u8 list" where
  "half_bytes v = [ucast v, ucast (drop_bit 8 v)]"

definition word_bytes :: "u32 \<Rightarrow> u8 list" where
  "word_bytes v = [ucast v, ucast (drop_bit 8 v), ucast (drop_bit 16 v), ucast (drop_bit 24 v)]"

definition half_at :: "u8 list \<Rightarrow> nat \<Rightarrow> u16 option" where
  "half_at b i = do { b0 \<leftarrow> rd b i; b1 \<leftarrow> rd b (i + 1); Some (ucast b0 OR push_bit 8 (ucast b1)) }"

definition word_at :: "u8 list \<Rightarrow> nat \<Rightarrow> u32 option" where
  "word_at b i = do { b0 \<leftarrow> rd b i; b1 \<leftarrow> rd b (i + 1); b2 \<leftarrow> rd b (i + 2); b3 \<leftarrow> rd b (i + 3);
     Some (ucast b0 OR push_bit 8 (ucast b1) OR push_bit 16 (ucast b2) OR push_bit 24 (ucast b3)) }"

lemma length_half_bytes [simp]: "length (half_bytes v) = 2"
  by (simp add: half_bytes_def)

lemma length_word_bytes [simp]: "length (word_bytes v) = 4"
  by (simp add: word_bytes_def)

lemma rd_append_right: "rd (xs @ ys) (length xs + i) = rd ys i" "rd (xs @ ys) (length xs + i + k) = rd ys (i + k)"
  by (simp_all add: rd_def nth_append)

lemma half_at_append: "half_at (xs @ ys) (length xs + i) = half_at ys i"
  unfolding half_at_def rd_append_right ..

lemma word_at_append: "word_at (xs @ ys) (length xs + i) = word_at ys i"
  unfolding word_at_def rd_append_right ..

lemma half_value: "ucast (ucast v :: u8) OR push_bit 8 (ucast (ucast (drop_bit 8 v) :: u8)) = (v :: u16)"
proof (rule bit_word_eqI)
  fix k :: nat
  assume "k < LENGTH(16)"
  then have k: "k < 16" by simp
  then have "k < 32" by simp
  then show "bit (ucast (ucast v :: u8) OR push_bit 8 (ucast (ucast (drop_bit 8 v) :: u8)) :: u16) k = bit v k"
  proof (rule bit_in_byte)
    fix i :: nat
    assume i: "i < 8" and "k = i \<or> k = i + 8 \<or> k = i + 16 \<or> k = i + 24"
    with k have "k = i \<or> k = i + 8" by auto
    with i show ?thesis by (elim disjE) (simp_all add: bit_simps add.commute)
  qed
qed

lemma word_value:
  "ucast (ucast v :: u8) OR push_bit 8 (ucast (ucast (drop_bit 8 v) :: u8)) OR
      push_bit 16 (ucast (ucast (drop_bit 16 v) :: u8)) OR
      push_bit 24 (ucast (ucast (drop_bit 24 v) :: u8)) = (v :: u32)" (is "?w = v")
proof (rule bit_word_eqI)
  fix k :: nat
  assume "k < LENGTH(32)"
  then have "k < 32" by simp
  then show "bit ?w k = bit v k"
  proof (rule bit_in_byte)
    fix i :: nat
    assume i: "i < 8" and "k = i \<or> k = i + 8 \<or> k = i + 16 \<or> k = i + 24"
    then show ?thesis
      by (elim disjE) (simp_all add: bit_simps add.commute)
  qed
qed

lemma half_at_bytes [simp]: "half_at (half_bytes v @ ys) 0 = Some v"
  by (simp add: half_at_def half_bytes_def rd_def half_value)

lemma word_at_bytes [simp]: "word_at (word_bytes v @ ys) 0 = Some v"
  by (simp add: word_at_def word_bytes_def rd_def word_value)

lemma word_at_word_bytes:
  assumes "n + 4 \<le> length b"
  shows "word_at (take n b @ word_bytes v @ drop (n + 4) b) n = Some v"
proof -
  have "word_at (take n b @ word_bytes v @ drop (n + 4) b) (length (take n b) + 0) = Some v"
    by (simp only: word_at_append word_at_bytes)
  then show ?thesis using assms by (simp add: min_def)
qed

text \<open>The two bytes of a halfword in network order are its high and its low byte.\<close>

lemma half_bytes_bswap: "half_bytes (TUInt16_bswap v) = [ucast (drop_bit 8 v), ucast v]"
proof -
  have "ucast (TUInt16_bswap v) = (ucast (drop_bit 8 v) :: u8)"
    by (rule bit_word_eqI) (simp add: bit_simps TUInt16_bswap_def bit_TUInt16_BSWAP add.commute)
  moreover have "ucast (drop_bit 8 (TUInt16_bswap v)) = (ucast v :: u8)"
    by (rule bit_word_eqI) (simp add: bit_simps TUInt16_bswap_def bit_TUInt16_BSWAP add.commute)
  ultimately show ?thesis by (simp add: half_bytes_def)
qed

lemma unat_bytes_u16: "256 * unat (ucast (drop_bit 8 v) :: u8) + unat (ucast v :: u8) = unat (v :: u16)"
proof -
  have "unat (drop_bit 8 v) = unat v div 256" by (simp add: drop_bit_eq_div unat_div_distrib)
  moreover have "unat (drop_bit 8 v) < 256" using unat_u16_less [of v] calculation by linarith
  ultimately show ?thesis by (simp add: unsigned_ucast_eq take_bit_eq_mod)
qed

end
