(* ===== verification/JsonRpcParser.thy ===== *)
theory JsonRpcParser
  imports Memory CharMachine
begin

text \<open>
  \<open>NyLPC_cJsonRpcParser.c\<close> and \<open>NyLPC_cJsonRpcParser.h\<close>: the parser of JSON-RPC requests. It
  takes one character at a time, recognises the members of the request object, looks the method
  up in the table of RPC classes and stores the parameters in a flat buffer of 256 bytes, driven
  by the type pattern of the method.

  The union \<open>_work\<close> is a field per member: \<open>n\<close>, \<open>st\<close> and \<open>vt\<close> lie behind everything the
  integer members cover, and the text buffer, which they do cover, is written before it is read
  in every state that reads it. The result's \<open>class_def\<close> is \<open>None\<close> where the pointer is not set;
  following it then is \<open>None\<close> of the operation, like an access outside an array. Signed
  arithmetic on the 32-bit accumulator wraps.
\<close>

unbundle bit_operations_syntax

section \<open>Method tables\<close>

record method_def =
  md_name :: string
  param_patt :: string

record class_def =
  names_pace :: string
  class_name :: string
  class_functions :: "method_def list"

section \<open>Codes\<close>

abbreviation (input) "ST_START \<equiv> (0x01 :: u8)"
abbreviation (input) "ST_END \<equiv> (0x02 :: u8)"
abbreviation (input) "ST_ERROR \<equiv> (0x03 :: u8)"
abbreviation (input) "ST_NAME_Q \<equiv> (0x04 :: u8)"
abbreviation (input) "ST_NAME_STR \<equiv> (0x05 :: u8)"
abbreviation (input) "ST_NV_SEP \<equiv> (0x06 :: u8)"
abbreviation (input) "ST_VAL \<equiv> (0x07 :: u8)"
abbreviation (input) "ST_VAL_STR \<equiv> (0x08 :: u8)"
abbreviation (input) "ST_VAL_UINT \<equiv> (0x09 :: u8)"
abbreviation (input) "ST_NEXT \<equiv> (0x11 :: u8)"
abbreviation (input) "ST_PARAMS \<equiv> (0x12 :: u8)"

abbreviation (input) "PARAM_ST_START \<equiv> (1 :: u8)"
abbreviation (input) "PARAM_ST_VAL \<equiv> (2 :: u8)"
abbreviation (input) "PARAM_ST_INT \<equiv> (3 :: u8)"
abbreviation (input) "PARAM_ST_UINT \<equiv> (4 :: u8)"
abbreviation (input) "PARAM_ST_STR \<equiv> (5 :: u8)"
abbreviation (input) "PARAM_ST_STR_ESCAPE_HEX \<equiv> (6 :: u8)"
abbreviation (input) "PARAM_ST_STR_ESCAPE \<equiv> (7 :: u8)"
abbreviation (input) "PARAM_ST_BYTE \<equiv> (8 :: u8)"
abbreviation (input) "PARAM_ST_BSTR \<equiv> (9 :: u8)"
abbreviation (input) "PARAM_ST_NEXT \<equiv> (11 :: u8)"

abbreviation (input) "NAME_ID_UNKNOWN \<equiv> (0 :: u8)"
abbreviation (input) "NAME_ID_VERSION \<equiv> (1 :: u8)"
abbreviation (input) "NAME_ID_METHOD \<equiv> (2 :: u8)"
abbreviation (input) "NAME_ID_RESULT \<equiv> (3 :: u8)"
abbreviation (input) "NAME_ID_PARAMS \<equiv> (4 :: u8)"
abbreviation (input) "NAME_ID_ID \<equiv> (5 :: u8)"

abbreviation (input) "RESULT_TYPE_UNKNOWN \<equiv> (0 :: u8)"
abbreviation (input) "RESULT_TYPE_METHOD \<equiv> (2 :: u8)"

abbreviation (input) "NUMBER_OF_PARAM_INDEX \<equiv> 32"
abbreviation (input) "PARAM_BUF \<equiv> 256"
abbreviation (input) "WORK_MAX \<equiv> 44"

definition method_name_tbl :: text_id_tbl where
  "method_name_tbl = \<lparr>tbl_items = [(''jsonrpc'', NAME_ID_VERSION), (''method'', NAME_ID_METHOD),
     (''params'', NAME_ID_PARAMS), (''id'', NAME_ID_ID)], tbl_end = NAME_ID_UNKNOWN\<rparr>"

section \<open>State\<close>

record json_result =
  rtype :: u8
  func_number :: u8
  rid :: u32
  param_buf :: "u8 list"
  param_index :: "u8 list"
  rclass :: "class_def option"

record json_parser =
  jclass_def :: "class_def list"
  w_buf :: "char list"
  w_n :: u8
  w_st :: u8
  w_vt :: u8
  w_v :: u32
  w_s :: int
  jst :: u8
  pst :: u8
  name_id :: u8
  pcounter :: u8
  result :: json_result

definition cJsonRpcParser_initialize :: "json_parser \<Rightarrow> class_def list \<Rightarrow> json_parser" where
  "cJsonRpcParser_initialize p i_class_def = p\<lparr>jclass_def := i_class_def\<rparr>"

definition cJsonRpcParser_initParser :: "json_parser \<Rightarrow> json_result \<Rightarrow> json_parser" where
  "cJsonRpcParser_initParser p i_result =
     p\<lparr>result := i_result\<lparr>rtype := RESULT_TYPE_UNKNOWN,
         param_index := replicate NUMBER_OF_PARAM_INDEX 0xff\<rparr>,
       jst := ST_START, pcounter := 0\<rparr>"

section \<open>Method lookup\<close>

text \<open>\<open>strchr(s,':')\<close>: what is before the first colon and what is behind it.\<close>

definition split_colon :: "string \<Rightarrow> (string \<times> string) option" where
  "split_colon s = (if CHR '':'' \<in> set s
     then Some (takeWhile (\<lambda>c. c \<noteq> CHR '':'') s, tl (dropWhile (\<lambda>c. c \<noteq> CHR '':'') s)) else None)"

fun find_method :: "method_def list \<Rightarrow> string \<Rightarrow> u8 \<Rightarrow> u8 option" where
  "find_method [] m fidx = None"
| "find_method (f # fs) m fidx = (if md_name f = m then Some fidx else find_method fs m (fidx + 1))"

text \<open>
  The walk over the class table. The first class whose names match decides: where it has no such
  method the search ends (\<open>break\<close>).
\<close>

fun find_class :: "class_def list \<Rightarrow> string \<Rightarrow> string \<Rightarrow> string \<Rightarrow> (class_def \<times> u8) option" where
  "find_class [] ns cl m = None"
| "find_class (c # cs) ns cl m =
     (if \<not> strncmp_eq (names_pace c) ns (length ns) then find_class cs ns cl m
      else if \<not> strncmp_eq (class_name c) cl (length cl) then find_class cs ns cl m
      else map_option (Pair c) (find_method (class_functions c) m 0))"

definition findFunction :: "class_def list \<Rightarrow> string \<Rightarrow> (class_def \<times> u8) option" where
  "findFunction tbl i_method_path =
     do { (ns, r) \<leftarrow> split_colon i_method_path; (cl, m) \<leftarrow> split_colon r; find_class tbl ns cl m }"

section \<open>Parameters\<close>

definition convertSingleCharEscape :: "char \<Rightarrow> char option" where
  "convertSingleCharEscape c =
     (if c = CHR ''0'' then Some NUL
      else if c = CHR ''r'' then Some (CHR 0x0D)
      else if c = CHR ''n'' then Some (CHR 0x0A)
      else if c = CHR ''t'' then Some (CHR 0x09)
      else if c = CHR 0x27 then Some (CHR 0x27)
      else if c = CHR 0x22 then Some (CHR 0x22)
      else if c = CHR 0x5C then Some (CHR 0x5C)
      else None)"

definition isSignedCharSet :: "char \<Rightarrow> bool" where
  "isSignedCharSet c \<longleftrightarrow> in_strchr ''-0123456789'' c"

abbreviation (input) isUnSignedCharSet :: "char \<Rightarrow> bool" where
  "isUnSignedCharSet c \<equiv> isdigit c"

abbreviation (input) QUOTE :: char where
  "QUOTE \<equiv> CHR 0x22"

definition u8_of :: "char \<Rightarrow> u8" where
  "u8_of c = of_nat (ord c)"

text \<open>\<open>i_c - '0'\<close>, widened to the accumulator.\<close>

definition digit_val :: "char \<Rightarrow> u32" where
  "digit_val c = word_of_int (int (ord c) - 48)"

abbreviation (input) fail :: "json_parser \<Rightarrow> json_parser option" where
  "fail p \<equiv> Some (p\<lparr>jst := ST_ERROR\<rparr>)"

definition put_param_buf :: "json_parser \<Rightarrow> int \<Rightarrow> u8 \<Rightarrow> json_parser option" where
  "put_param_buf p i v = (if i < 0 then None else
     map_option (\<lambda>b. p\<lparr>result := (result p)\<lparr>param_buf := b\<rparr>\<rparr>) (wr (param_buf (result p)) (nat i) v))"

text \<open>A 32-bit store at a byte offset, little-endian.\<close>

definition put_param_word :: "json_parser \<Rightarrow> int \<Rightarrow> u32 \<Rightarrow> json_parser option" where
  "put_param_word p i v = (if i < 0 then None else
     map_option (\<lambda>b. p\<lparr>result := (result p)\<lparr>param_buf := b\<rparr>\<rparr>)
       (blit (param_buf (result p)) (nat i) (word_bytes v)))"

text \<open>\<open>param_index[_pcounter] = n; _pcounter++\<close>.\<close>

definition add_index :: "json_parser \<Rightarrow> json_parser option" where
  "add_index p = map_option
     (\<lambda>x. p\<lparr>result := (result p)\<lparr>param_index := x\<rparr>, pcounter := pcounter p + 1\<rparr>)
     (wr (param_index (result p)) (unat (pcounter p)) (w_n p))"

text \<open>\<open>class_def->functions[func_number].param_patt[i]\<close>.\<close>

definition patt_char :: "json_result \<Rightarrow> nat \<Rightarrow> char option" where
  "patt_char r i = do { c \<leftarrow> rclass r; f \<leftarrow> rd (class_functions c) (unat (func_number r)); rd (param_patt f @ [NUL]) i }"

definition align4 :: "u8 \<Rightarrow> u8" where
  "align4 n = of_nat (((unat n + 3) div 4) * 4)"

definition param_val :: "json_parser \<Rightarrow> char \<Rightarrow> json_parser option" where
  "param_val p c =
     (if pcounter p \<ge> NUMBER_OF_PARAM_INDEX then fail p
      else if in_strchr '' '' c then Some p
      else if in_strchr '']'' c then Some (p\<lparr>jst := ST_NEXT, pcounter := 0xff\<rparr>)
      else do { t \<leftarrow> patt_char (result p) (unat (pcounter p));
        if t = CHR ''d'' then
          if \<not> isSignedCharSet c then fail p
          else add_index (p\<lparr>pst := PARAM_ST_INT, w_s := (if c = CHR ''-'' then - 1 else 1),
                 w_v := (if c = CHR ''-'' then 0 else digit_val c), w_n := align4 (w_n p)\<rparr>)
        else if t = CHR ''u'' then
          if \<not> isUnSignedCharSet c then fail p
          else add_index (p\<lparr>pst := PARAM_ST_UINT, w_v := digit_val c, w_n := align4 (w_n p)\<rparr>)
        else if t = CHR ''b'' then
          if \<not> isUnSignedCharSet c then fail p
          else add_index (p\<lparr>pst := PARAM_ST_BYTE, w_v := digit_val c\<rparr>)
        else if t = CHR ''s'' then
          if c \<noteq> QUOTE then fail p
          else do { p' \<leftarrow> add_index p;
            if unat (w_n p') \<ge> PARAM_BUF then fail p'
            else Some (p'\<lparr>w_n := w_n p' + 1, pst := PARAM_ST_STR\<rparr>) }
        else if t = CHR ''B'' then
          if c \<noteq> QUOTE then fail p
          else do { p' \<leftarrow> add_index p;
            if unat (w_n p') \<ge> PARAM_BUF then fail p'
            else Some (p'\<lparr>w_n := w_n p' + 1, pst := PARAM_ST_BSTR, w_st := 0\<rparr>) }
        else fail p })"

text \<open>Append a byte to the parameter that is being read.\<close>

definition push_byte :: "json_parser \<Rightarrow> u8 \<Rightarrow> json_parser option" where
  "push_byte p v =
     (if unat (w_n p) \<ge> PARAM_BUF then fail p
      else do { p' \<leftarrow> put_param_buf p (uint (w_n p)) v; Some (p'\<lparr>w_n := w_n p + 1\<rparr>) })"

text \<open>\<open>param_index[_pcounter-1]\<close>.\<close>

definition last_index :: "json_parser \<Rightarrow> u8 option" where
  "last_index p = (if pcounter p = 0 then None else rd (param_index (result p)) (unat (pcounter p) - 1))"

definition param_str_escape_hex :: "json_parser \<Rightarrow> char \<Rightarrow> json_parser option" where
  "param_str_escape_hex p c =
     (if \<not> isxdigit c then fail p
      else let p = p\<lparr>w_vt := push_bit 4 (w_vt p) OR of_nat (ctox c), w_st := w_st p + 1\<rparr>
           in if w_st p \<ge> 2 then do { p' \<leftarrow> push_byte p (w_vt p);
                  Some (if jst p' = ST_ERROR then p' else p'\<lparr>pst := PARAM_ST_STR\<rparr>) }
              else Some p)"

definition param_str_escape :: "json_parser \<Rightarrow> char \<Rightarrow> json_parser option" where
  "param_str_escape p c =
     (if c = CHR ''x'' then Some (p\<lparr>pst := PARAM_ST_STR_ESCAPE_HEX, w_st := 0, w_vt := 0\<rparr>)
      else if unat (w_n p) \<ge> PARAM_BUF then fail p
      else case convertSingleCharEscape c of
        None \<Rightarrow> fail p
      | Some o_out \<Rightarrow> do { p' \<leftarrow> put_param_buf p (uint (w_n p)) (u8_of o_out);
          Some (p'\<lparr>w_n := w_n p + 1, pst := PARAM_ST_STR\<rparr>) })"

definition param_str :: "json_parser \<Rightarrow> char \<Rightarrow> json_parser option" where
  "param_str p c =
     (if c = QUOTE then
        if unat (w_n p) \<ge> PARAM_BUF then fail p
        else do { p1 \<leftarrow> put_param_buf p (uint (w_n p)) 0;
                  i \<leftarrow> last_index p;
                  let n = w_n p + 1
                  in do { p2 \<leftarrow> put_param_buf (p1\<lparr>w_n := n\<rparr>) (uint i) (n - i - 2);
                          Some (p2\<lparr>pst := PARAM_ST_NEXT\<rparr>) } }
      else if c = CHR 0x5C then Some (p\<lparr>pst := PARAM_ST_STR_ESCAPE\<rparr>)
      else push_byte p (u8_of c))"

definition param_bstr :: "json_parser \<Rightarrow> char \<Rightarrow> json_parser option" where
  "param_bstr p c =
     (if c = QUOTE then
        if w_st p \<noteq> 0 then fail p
        else do { i \<leftarrow> last_index p;
                  p' \<leftarrow> put_param_buf p (uint i) (w_n p - i - 1);
                  Some (p'\<lparr>pst := PARAM_ST_NEXT\<rparr>) }
      else if \<not> isxdigit c then fail p
      else if w_st p = 0 then Some (p\<lparr>w_vt := of_nat (ctox c), w_st := w_st p + 1\<rparr>)
      else if w_st p = 1 then
        let p = p\<lparr>w_vt := push_bit 4 (w_vt p) OR of_nat (ctox c)\<rparr>
        in do { p' \<leftarrow> push_byte p (w_vt p);
                Some (if jst p' = ST_ERROR then p' else p'\<lparr>w_st := 0\<rparr>) }
      else Some p)"

text \<open>What a number is followed by: \<open>None\<close> is the error.\<close>

definition num_end :: "json_parser \<Rightarrow> char \<Rightarrow> json_parser option" where
  "num_end p c =
     (if c = CHR '' '' then Some (p\<lparr>pst := PARAM_ST_NEXT\<rparr>)
      else if c = CHR '','' then Some (p\<lparr>pst := PARAM_ST_VAL\<rparr>)
      else if c = CHR '']'' then Some (p\<lparr>jst := ST_NEXT\<rparr>)
      else None)"

definition acc_digit :: "json_parser \<Rightarrow> char \<Rightarrow> json_parser" where
  "acc_digit p c = p\<lparr>w_v := w_v p * 10 + digit_val c\<rparr>"

definition param_int :: "json_parser \<Rightarrow> char \<Rightarrow> json_parser option" where
  "param_int p c =
     (if isUnSignedCharSet c then Some (acc_digit p c)
      else case num_end p c of
        None \<Rightarrow> fail p
      | Some p \<Rightarrow> let p = p\<lparr>w_n := w_n p + 4\<rparr>
          in if unat (w_n p) > PARAM_BUF then fail p
             else put_param_word p (uint (w_n p) - 4) (w_v p * word_of_int (w_s p)))"

definition param_uint :: "json_parser \<Rightarrow> char \<Rightarrow> json_parser option" where
  "param_uint p c =
     (if isUnSignedCharSet c then Some (acc_digit p c)
      else case num_end p c of
        None \<Rightarrow> fail p
      | Some p \<Rightarrow> let p = p\<lparr>w_n := w_n p + 4\<rparr>
          in if unat (w_n p) > PARAM_BUF then fail p
             else put_param_word p (uint (w_n p) - 4) (w_v p))"

definition param_byte :: "json_parser \<Rightarrow> char \<Rightarrow> json_parser option" where
  "param_byte p c =
     (if isUnSignedCharSet c then Some (acc_digit p c)
      else case num_end p c of
        None \<Rightarrow> fail p
      | Some p \<Rightarrow> let p = p\<lparr>w_n := w_n p + 1\<rparr>
          in if unat (w_n p) > PARAM_BUF then fail p
             else put_param_buf p (uint (w_n p) - 1) (ucast (w_v p AND 0xff)))"

definition putchar_params :: "json_parser \<Rightarrow> char \<Rightarrow> json_parser option" where
  "putchar_params p c =
     (if pst p = PARAM_ST_START then
        if c = CHR ''['' then Some (p\<lparr>w_n := 0, pst := PARAM_ST_VAL\<rparr>)
        else if in_strchr '' '' c then Some p
        else fail p
      else if pst p = PARAM_ST_VAL then param_val p c
      else if pst p = PARAM_ST_STR_ESCAPE_HEX then param_str_escape_hex p c
      else if pst p = PARAM_ST_STR_ESCAPE then param_str_escape p c
      else if pst p = PARAM_ST_STR then param_str p c
      else if pst p = PARAM_ST_BSTR then param_bstr p c
      else if pst p = PARAM_ST_INT then param_int p c
      else if pst p = PARAM_ST_UINT then param_uint p c
      else if pst p = PARAM_ST_BYTE then param_byte p c
      else if pst p = PARAM_ST_NEXT then
        if c = CHR '' '' then Some p
        else if c = CHR '','' then Some (p\<lparr>pst := PARAM_ST_VAL\<rparr>)
        else if c = CHR '']'' then Some (p\<lparr>jst := ST_NEXT\<rparr>)
        else fail p
      else fail p)"

section \<open>The request object\<close>

definition valTerminator2St :: "char \<Rightarrow> u8" where
  "valTerminator2St c =
     (if c = CHR '' '' then ST_NEXT
      else if c = CHR ''}'' then ST_END
      else if c = CHR '','' then ST_NAME_Q
      else ST_ERROR)"

text \<open>A character of a name or of a string value.\<close>

definition push_char :: "json_parser \<Rightarrow> char \<Rightarrow> json_parser option" where
  "push_char p c =
     (let p = p\<lparr>w_n := w_n p + 1\<rparr>
      in if w_n p \<ge> WORK_MAX then fail p
         else if w_n p = 0 then None
         else map_option (\<lambda>b. p\<lparr>w_buf := b\<rparr>) (wr (w_buf p) (unat (w_n p) - 1) c))"

definition end_name :: "json_parser \<Rightarrow> json_parser option" where
  "end_name p = do { b \<leftarrow> wr (w_buf p) (unat (w_n p)) NUL;
     let i = TTextIdTbl_getMatchId (cstr b) method_name_tbl;
         p = p\<lparr>w_buf := b, name_id := i, jst := ST_NV_SEP\<rparr>
     in if i = NAME_ID_METHOD \<or> i = NAME_ID_RESULT then
          if rtype (result p) \<noteq> RESULT_TYPE_UNKNOWN then fail p else Some p
        else if i = NAME_ID_PARAMS then
          if pcounter p \<noteq> 0 then fail p else Some p
        else Some p }"

definition end_string :: "json_parser \<Rightarrow> json_parser option" where
  "end_string p = do { b \<leftarrow> wr (w_buf p) (unat (w_n p)) NUL;
     let p = p\<lparr>w_buf := b\<rparr>
     in if name_id p = NAME_ID_VERSION then
          if cstr b \<noteq> ''2.0'' then fail p else Some (p\<lparr>jst := ST_NEXT\<rparr>)
        else if name_id p = NAME_ID_METHOD then
          (case findFunction (jclass_def p) (cstr b) of
             None \<Rightarrow> fail (p\<lparr>result := (result p)\<lparr>rtype := RESULT_TYPE_METHOD, rclass := None\<rparr>\<rparr>)
           | Some (c, i) \<Rightarrow> Some (p\<lparr>result := (result p)\<lparr>rtype := RESULT_TYPE_METHOD, rclass := Some c,
                 func_number := i\<rparr>, jst := ST_NEXT\<rparr>))
        else if name_id p = NAME_ID_UNKNOWN then Some (p\<lparr>jst := ST_NEXT\<rparr>)
        else fail p }"

definition cJsonRpcParser_putChar :: "json_parser \<Rightarrow> char \<Rightarrow> json_parser option" where
  "cJsonRpcParser_putChar p c =
     (if jst p = ST_PARAMS then putchar_params p c
      else if jst p = ST_START then
        if c = CHR ''{'' then Some (p\<lparr>jst := ST_NAME_Q\<rparr>)
        else if in_strchr '' '' c then Some p
        else fail p
      else if jst p = ST_NAME_Q then
        if c = QUOTE then Some (p\<lparr>jst := ST_NAME_STR, w_n := 0\<rparr>)
        else if in_strchr '' '' c then Some p
        else fail p
      else if jst p = ST_NAME_STR then
        if c = QUOTE then end_name p else push_char p c
      else if jst p = ST_NV_SEP then
        if c = CHR '':'' then
          Some (if name_id p = NAME_ID_PARAMS then p\<lparr>pst := PARAM_ST_START, jst := ST_PARAMS\<rparr>
                else p\<lparr>jst := ST_VAL, w_n := 0\<rparr>)
        else if in_strchr '' '' c then Some p
        else fail p
      else if jst p = ST_VAL then
        if c = QUOTE then Some (p\<lparr>jst := ST_VAL_STR, w_n := 0\<rparr>)
        else if in_strchr '' '' c then Some p
        else if isUnSignedCharSet c then Some (p\<lparr>w_v := digit_val c, jst := ST_VAL_UINT\<rparr>)
        else fail p
      else if jst p = ST_VAL_UINT then
        if isUnSignedCharSet c then Some (acc_digit p c)
        else if in_strchr '' ,}'' c then
          if name_id p = NAME_ID_ID then
            Some (p\<lparr>result := (result p)\<lparr>rid := w_v p\<rparr>, jst := valTerminator2St c\<rparr>)
          else if name_id p = NAME_ID_UNKNOWN then Some (p\<lparr>jst := valTerminator2St c\<rparr>)
          else fail p
        else fail p
      else if jst p = ST_VAL_STR then
        if c = QUOTE then end_string p else push_char p c
      else if jst p = ST_NEXT then
        if c = CHR '','' then Some (p\<lparr>jst := ST_NAME_Q\<rparr>)
        else if c = CHR ''}'' then Some (p\<lparr>jst := ST_END\<rparr>)
        else if in_strchr '' '' c then Some p
        else fail p
      else fail p)"

section \<open>Reading the result\<close>

text \<open>
  The accessors return \<open>Some None\<close> for \<open>FALSE\<close>; the outer \<open>None\<close> is an access outside an
  array or through an unset class pointer.
\<close>

definition with_param :: "json_result \<Rightarrow> nat \<Rightarrow> char \<Rightarrow> (nat \<Rightarrow> 'a option) \<Rightarrow> 'a option option" where
  "with_param r i_idx t get = do {
     k \<leftarrow> rd (param_index r) i_idx;
     if k = 0xff then Some None
     else do { pt \<leftarrow> patt_char r i_idx;
       if pt \<noteq> t then Some None else map_option Some (get (unat k)) } }"

definition TJsonRpcParserResult_getUInt32 :: "json_result \<Rightarrow> nat \<Rightarrow> u32 option option" where
  "TJsonRpcParserResult_getUInt32 r i_idx = with_param r i_idx (CHR ''u'') (word_at (param_buf r))"

definition TJsonRpcParserResult_getInt32 :: "json_result \<Rightarrow> nat \<Rightarrow> int option option" where
  "TJsonRpcParserResult_getInt32 r i_idx =
     with_param r i_idx (CHR ''d'') (\<lambda>k. map_option sint (word_at (param_buf r) k))"

text \<open>The position of the characters and the stored length.\<close>

definition TJsonRpcParserResult_getStr :: "json_result \<Rightarrow> nat \<Rightarrow> (nat \<times> u8) option option" where
  "TJsonRpcParserResult_getStr r i_idx =
     with_param r i_idx (CHR ''s'') (\<lambda>k. map_option (Pair (k + 1)) (rd (param_buf r) k))"

definition TJsonRpcParserResult_getByteArray :: "json_result \<Rightarrow> nat \<Rightarrow> (nat \<times> u8) option option" where
  "TJsonRpcParserResult_getByteArray r i_idx =
     with_param r i_idx (CHR ''B'') (\<lambda>k. map_option (Pair (k + 1)) (rd (param_buf r) k))"

definition TJsonRpcParserResult_getByte :: "json_result \<Rightarrow> nat \<Rightarrow> u8 option option" where
  "TJsonRpcParserResult_getByte r i_idx = with_param r i_idx (CHR ''b'') (rd (param_buf r))"

section \<open>Invariant\<close>

definition json_inv :: "json_parser \<Rightarrow> bool" where
  "json_inv p \<longleftrightarrow> length (w_buf p) = WORK_MAX \<and> length (param_buf (result p)) = PARAM_BUF \<and>
     length (param_index (result p)) = NUMBER_OF_PARAM_INDEX \<and>
     (jst p \<in> {ST_NAME_STR, ST_VAL_STR} \<longrightarrow> w_n p < WORK_MAX) \<and>
     (jst p = ST_PARAMS \<and> pst p \<in> {PARAM_ST_STR, PARAM_ST_STR_ESCAPE_HEX, PARAM_ST_STR_ESCAPE, PARAM_ST_BSTR}
       \<longrightarrow> 0 < pcounter p \<and> pcounter p \<le> NUMBER_OF_PARAM_INDEX)"

abbreviation (input) buffers_ok :: "json_parser \<Rightarrow> bool" where
  "buffers_ok p \<equiv> length (w_buf p) = WORK_MAX \<and> length (param_buf (result p)) = PARAM_BUF \<and>
     length (param_index (result p)) = NUMBER_OF_PARAM_INDEX"

lemma initParser_inv:
  "length (w_buf p) = WORK_MAX \<Longrightarrow> length (param_buf r) = PARAM_BUF \<Longrightarrow>
   json_inv (cJsonRpcParser_initParser p r)"
  by (simp add: json_inv_def cJsonRpcParser_initParser_def)

text \<open>The elementary accesses, on a parser with its buffers.\<close>

lemma put_param_buf_Some:
  assumes "length (param_buf (result p)) = 256"
  shows "put_param_buf p (uint (i :: u8)) v = Some (p\<lparr>result := (result p)\<lparr>param_buf := (param_buf (result p))[unat i := v]\<rparr>\<rparr>)"
proof -
  have "nat (uint i) = unat i" "uint i \<ge> 0" by simp_all
  then show ?thesis using assms unat_u8_less [of i] by (simp add: put_param_buf_def wr_def)
qed

lemma add_index_Some:
  assumes "length (param_index (result p)) = 32" "pcounter p < 32"
  shows "add_index p = Some (p\<lparr>result := (result p)\<lparr>param_index := (param_index (result p))[unat (pcounter p) := w_n p]\<rparr>,
    pcounter := pcounter p + 1\<rparr>)"
  using assms by (simp add: add_index_def wr_def word_less_nat_alt)

lemma last_index_Some:
  assumes "length (param_index (result p)) = 32" "0 < pcounter p" "pcounter p \<le> 32"
  shows "last_index p = Some (param_index (result p) ! (unat (pcounter p) - 1))"
  using assms by (auto simp: last_index_def rd_def word_less_nat_alt word_le_nat_alt)

lemma not_256_le_u8 [simp]: "\<not> 256 \<le> unat (x :: u8)" "\<not> 256 < unat (x :: u8)"
  using unat_u8_less [of x] by (simp_all add: not_le not_less del: unat_u8_less)

lemma pcounter_succ: "(x :: u8) < 32 \<Longrightarrow> 0 < x + 1 \<and> x + 1 \<le> 32"
proof -
  assume "x < 32"
  then have "unat (x + 1) = unat x + 1" "unat x < 32"
    by (simp_all add: word_less_nat_alt unat_add_small)
  then show ?thesis by (simp add: word_less_nat_alt word_le_nat_alt)
qed

lemma push_byte_Some:
  assumes "length (param_buf (result p)) = 256"
  shows "push_byte p v = Some (p\<lparr>result := (result p)\<lparr>param_buf := (param_buf (result p))[unat (w_n p) := v]\<rparr>,
    w_n := w_n p + 1\<rparr>)"
  using put_param_buf_Some [OF assms, of "w_n p" v] by (simp add: push_byte_def)

lemma push_char_cases:
  assumes "length (w_buf p) = 44" "w_n p < 44"
  shows "push_char p c = (if w_n p + 1 \<ge> 44 then Some (p\<lparr>w_n := w_n p + 1, jst := ST_ERROR\<rparr>)
    else Some (p\<lparr>w_n := w_n p + 1, w_buf := (w_buf p)[unat (w_n p) := c]\<rparr>))"
proof -
  have n: "unat (w_n p + 1) = unat (w_n p) + 1" "unat (w_n p) < 44"
    using assms(2) by (simp_all add: word_less_nat_alt unat_add_small)
  then have "w_n p + 1 \<noteq> 0" by auto
  then show ?thesis using n assms(1) by (simp add: push_char_def Let_def wr_def)
qed

text \<open>A step keeps the invariant, or faults exactly under a condition.\<close>

definition step_ok :: "bool \<Rightarrow> json_parser option \<Rightarrow> bool" where
  "step_ok fault r \<longleftrightarrow> (r = None \<longleftrightarrow> fault) \<and> (\<forall>p'. r = Some p' \<longrightarrow> json_inv p')"

lemma step_ok_Some: "json_inv p' \<Longrightarrow> step_ok False (Some p')"
  by (simp add: step_ok_def)

lemma param_str_ok:
  assumes "json_inv p" "jst p = ST_PARAMS" "pst p = PARAM_ST_STR"
  shows "step_ok False (param_str p c)"
proof -
  have l: "length (param_buf (result p)) = 256" "length (param_index (result p)) = 32"
    "0 < pcounter p" "pcounter p \<le> 32"
    using assms by (simp_all add: json_inv_def)
  show ?thesis
    using assms l
    by (simp add: step_ok_def param_str_def push_byte_Some put_param_buf_Some last_index_Some json_inv_def)
qed

lemma param_str_escape_ok:
  assumes "json_inv p" "jst p = ST_PARAMS" "pst p = PARAM_ST_STR_ESCAPE"
  shows "step_ok False (param_str_escape p c)"
  using assms
  by (simp add: step_ok_def param_str_escape_def put_param_buf_Some json_inv_def split: option.split)

lemma param_str_escape_hex_ok:
  assumes "json_inv p" "jst p = ST_PARAMS" "pst p = PARAM_ST_STR_ESCAPE_HEX"
  shows "step_ok False (param_str_escape_hex p c)"
  using assms
  by (simp add: step_ok_def param_str_escape_hex_def push_byte_Some Let_def json_inv_def)

lemma param_bstr_ok:
  assumes "json_inv p" "jst p = ST_PARAMS" "pst p = PARAM_ST_BSTR"
  shows "step_ok False (param_bstr p c)"
proof -
  have l: "length (param_buf (result p)) = 256" "length (param_index (result p)) = 32"
    "0 < pcounter p" "pcounter p \<le> 32"
    using assms by (simp_all add: json_inv_def)
  show ?thesis
    using assms l
    by (simp add: step_ok_def param_bstr_def push_byte_Some put_param_buf_Some last_index_Some Let_def json_inv_def)
qed

text \<open>The end of a number: the place it is stored at wraps in the 8-bit counter.\<close>

lemma uint_u8: "uint (x :: u8) = int (unat x)"
  by simp

lemma u8_wrap:
  assumes "256 \<le> m + k" "m + k < 512"
  shows "(m + k) mod 256 = m + k - (256 :: nat)"
  using assms le_mod_geq [of 256 "m + k"] by (simp add: mod_less)

lemma put_param_word_ok:
  assumes "length (param_buf (result p)) = 256" "w_n p = n + 4"
  shows "put_param_word p (uint (w_n p) - 4) v =
    (if n < 252 then Some (p\<lparr>result := (result p)\<lparr>param_buf := take (unat n) (param_buf (result p)) @
        word_bytes v @ drop (unat n + 4) (param_buf (result p))\<rparr>\<rparr>)
     else None)"
proof (cases "n < 252")
  case True
  then have n: "unat n < 252" "unat (n + 4) = unat n + 4"
    by (simp_all add: word_less_nat_alt unat_add_small)
  then have "nat (uint (w_n p) - 4) = unat n" "\<not> uint (w_n p) - 4 < 0"
    unfolding uint_u8 assms(2) by simp_all
  then have "put_param_word p (uint (w_n p) - 4) v =
      map_option (\<lambda>b. p\<lparr>result := (result p)\<lparr>param_buf := b\<rparr>\<rparr>) (blit (param_buf (result p)) (unat n) (word_bytes v))"
    by (simp only: put_param_word_def if_False)
  also have "blit (param_buf (result p)) (unat n) (word_bytes v) =
      Some (take (unat n) (param_buf (result p)) @ word_bytes v @ drop (unat n + 4) (param_buf (result p)))"
    using n(1) assms(1) by (simp add: blit_def)
  finally show ?thesis using True by simp
next
  case False
  then have "252 \<le> unat n" by (simp add: word_less_nat_alt)
  moreover have "unat (w_n p) = (unat n + 4) mod 256" unfolding assms(2) by (simp add: unat_word_ariths)
  ultimately have "unat (w_n p) < 4" using u8_wrap [of "unat n" 4] unat_u8_less [of n] by linarith
  then have "int (unat (w_n p)) < 4" by linarith
  then have "uint (w_n p) - 4 < 0" by simp
  then show ?thesis using False by (simp add: put_param_word_def)
qed

lemma put_param_byte_ok:
  assumes "length (param_buf (result p)) = 256" "w_n p = n + 1"
  shows "put_param_buf p (uint (w_n p) - 1) v =
    (if n < 255 then Some (p\<lparr>result := (result p)\<lparr>param_buf := (param_buf (result p))[unat n := v]\<rparr>\<rparr>) else None)"
proof (cases "n < 255")
  case True
  then have n: "unat n < 255" "unat (n + 1) = unat n + 1"
    by (simp_all add: word_less_nat_alt unat_add_small)
  then have "nat (uint (w_n p) - 1) = unat n" "\<not> uint (w_n p) - 1 < 0"
    unfolding uint_u8 assms(2) by simp_all
  then show ?thesis
    using True n assms by (simp add: put_param_buf_def wr_def)
next
  case False
  then have "255 \<le> unat n" by (simp add: word_less_nat_alt)
  moreover have "unat (w_n p) = (unat n + 1) mod 256" unfolding assms(2) by (simp add: unat_word_ariths)
  ultimately have "unat (w_n p) < 1" using u8_wrap [of "unat n" 1] unat_u8_less [of n] by linarith
  then have "int (unat (w_n p)) < 1" by linarith
  then have "uint (w_n p) - 1 < 0" by simp
  then show ?thesis using False by (simp add: put_param_buf_def)
qed

definition num_delim :: "char \<Rightarrow> bool" where
  "num_delim c \<longleftrightarrow> c \<in> {CHR '' '', CHR '','', CHR '']''}"

lemma not_digit_delim: "isdigit c \<Longrightarrow> \<not> num_delim c"
  by (auto simp: num_delim_def cchars)

lemma num_end_None: "num_end p c = None \<longleftrightarrow> \<not> num_delim c"
  by (simp add: num_end_def num_delim_def)

lemma json_inv_buf:
  "json_inv p \<Longrightarrow> length b = 256 \<Longrightarrow> json_inv (p\<lparr>result := (result p)\<lparr>param_buf := b\<rparr>\<rparr>)"
  by (simp add: json_inv_def)

lemma json_inv_acc: "json_inv p \<Longrightarrow> json_inv (acc_digit p c)"
  by (simp add: json_inv_def acc_digit_def)

lemma json_inv_fail: "json_inv p \<Longrightarrow> json_inv (p\<lparr>jst := ST_ERROR\<rparr>)"
  by (simp add: json_inv_def)

lemma num_end_inv:
  assumes "json_inv p" "jst p = ST_PARAMS" "pst p \<in> {PARAM_ST_INT, PARAM_ST_UINT, PARAM_ST_BYTE}"
    "num_end p c = Some q"
  shows "\<And>x. json_inv (q\<lparr>w_n := x\<rparr>)" "w_n q = w_n p" "length (param_buf (result q)) = 256" "w_v q = w_v p"
    "w_s q = w_s p" "result q = result p"
proof -
  have "q \<in> {p\<lparr>pst := PARAM_ST_NEXT\<rparr>, p\<lparr>pst := PARAM_ST_VAL\<rparr>, p\<lparr>jst := ST_NEXT\<rparr>}"
    using assms(4) unfolding num_end_def by (simp split: if_splits)
  then show "\<And>x. json_inv (q\<lparr>w_n := x\<rparr>)" "w_n q = w_n p" "length (param_buf (result q)) = 256" "w_v q = w_v p"
    "w_s q = w_s p" "result q = result p"
    using assms(1,2) by (elim insertE emptyE; simp add: json_inv_def)+
qed

lemmas step_num = json_inv_buf json_inv_acc json_inv_fail

lemma param_int_ok:
  assumes "json_inv p" "jst p = ST_PARAMS" "pst p = PARAM_ST_INT"
  shows "step_ok (num_delim c \<and> 252 \<le> w_n p) (param_int p c)"
proof (cases "num_end p c")
  case None
  then show ?thesis
    using assms(1) num_end_None [of p c] by (simp add: step_ok_def param_int_def step_num)
next
  case (Some q)
  then have "num_delim c" "\<not> isdigit c" using num_end_None [of p c] not_digit_delim by auto
  moreover note num_end_inv [OF assms(1,2) _ Some] assms(3)
  ultimately show ?thesis
    using Some put_param_word_ok [of "q\<lparr>w_n := w_n q + 4\<rparr>" "w_n q" "w_v q * word_of_int (w_s q)"]
    by (simp add: step_ok_def param_int_def Let_def not_less json_inv_def word_less_nat_alt word_le_nat_alt)
qed

lemma param_uint_ok:
  assumes "json_inv p" "jst p = ST_PARAMS" "pst p = PARAM_ST_UINT"
  shows "step_ok (num_delim c \<and> 252 \<le> w_n p) (param_uint p c)"
proof (cases "num_end p c")
  case None
  then show ?thesis
    using assms(1) num_end_None [of p c] by (simp add: step_ok_def param_uint_def step_num)
next
  case (Some q)
  then have "num_delim c" "\<not> isdigit c" using num_end_None [of p c] not_digit_delim by auto
  moreover note num_end_inv [OF assms(1,2) _ Some] assms(3)
  ultimately show ?thesis
    using Some put_param_word_ok [of "q\<lparr>w_n := w_n q + 4\<rparr>" "w_n q" "w_v q"]
    by (simp add: step_ok_def param_uint_def Let_def not_less json_inv_def word_less_nat_alt word_le_nat_alt)
qed

lemma param_byte_ok:
  assumes "json_inv p" "jst p = ST_PARAMS" "pst p = PARAM_ST_BYTE"
  shows "step_ok (num_delim c \<and> 255 \<le> w_n p) (param_byte p c)"
proof (cases "num_end p c")
  case None
  then show ?thesis
    using assms(1) num_end_None [of p c] by (simp add: step_ok_def param_byte_def step_num)
next
  case (Some q)
  then have "num_delim c" "\<not> isdigit c" using num_end_None [of p c] not_digit_delim by auto
  moreover note num_end_inv [OF assms(1,2) _ Some] assms(3)
  ultimately show ?thesis
    using Some put_param_byte_ok [of "q\<lparr>w_n := w_n q + 1\<rparr>" "w_n q" "ucast (w_v q AND 0xff)"]
    by (simp add: step_ok_def param_byte_def Let_def not_less json_inv_def word_less_nat_alt word_le_nat_alt)
qed

lemma add_index_inv:
  assumes "json_inv p" "pcounter p < 32" "jst p = ST_PARAMS" "pst p \<in> {PARAM_ST_VAL, PARAM_ST_INT, PARAM_ST_UINT, PARAM_ST_BYTE}"
  shows "\<exists>q. add_index p = Some q \<and> json_inv q \<and> (\<forall>x s. json_inv (q\<lparr>w_n := x, pst := s\<rparr>)) \<and>
    (\<forall>x s y. json_inv (q\<lparr>w_n := x, pst := s, w_st := y\<rparr>))"
  using assms pcounter_succ [OF assms(2)] by (simp add: add_index_Some json_inv_def)

lemma json_inv_num:
  assumes "json_inv p" "s \<in> {PARAM_ST_INT, PARAM_ST_UINT, PARAM_ST_BYTE}" "jst p = ST_PARAMS"
  shows "json_inv (p\<lparr>pst := s, w_s := g, w_v := v, w_n := n\<rparr>)" "json_inv (p\<lparr>pst := s, w_v := v, w_n := n\<rparr>)"
    "json_inv (p\<lparr>pst := s, w_v := v\<rparr>)"
  using assms by (auto simp: json_inv_def)

lemma step_ok_index:
  assumes "json_inv p" "pcounter p < 32" "jst p = ST_PARAMS" "pst p \<in> {PARAM_ST_INT, PARAM_ST_UINT, PARAM_ST_BYTE}"
  shows "step_ok False (add_index p)"
  using add_index_inv [OF assms(1-3)] assms(4) by (auto simp: step_ok_def)

lemma param_val_ok:
  assumes "json_inv p" "jst p = ST_PARAMS" "pst p = PARAM_ST_VAL"
  shows "step_ok (pcounter p < 32 \<and> \<not> in_strchr '' '' c \<and> \<not> in_strchr '']'' c \<and>
      patt_char (result p) (unat (pcounter p)) = None) (param_val p c)"
proof (cases "pcounter p < 32 \<and> \<not> in_strchr '' '' c \<and> \<not> in_strchr '']'' c")
  case True
  show ?thesis
  proof (cases "patt_char (result p) (unat (pcounter p))")
    case None
    then show ?thesis using True by (simp add: param_val_def step_ok_def not_le)
  next
    case (Some t)
    note fail_inv = step_ok_Some [OF json_inv_fail [OF assms(1)]]
    obtain q where q: "add_index p = Some q" "\<And>x s. json_inv (q\<lparr>w_n := x, pst := s\<rparr>)"
      "\<And>x s y. json_inv (q\<lparr>w_n := x, pst := s, w_st := y\<rparr>)"
      using add_index_inv [OF assms(1) _ assms(2)] assms(3) True by auto
    have num: "step_ok False (add_index r)"
      if "json_inv r" "pcounter r = pcounter p" "jst r = ST_PARAMS" "pst r \<in> {PARAM_ST_INT, PARAM_ST_UINT, PARAM_ST_BYTE}" for r
      using step_ok_index [OF that(1) _ that(3,4)] that(2) True by simp
    have pv: "step_ok False (param_val p c)"
    proof -
      consider "t = CHR ''d''" | "t = CHR ''u''" | "t = CHR ''b''" | "t = CHR ''s''" | "t = CHR ''B''"
        | "t \<notin> {CHR ''d'', CHR ''u'', CHR ''b'', CHR ''s'', CHR ''B''}" by blast
      then show ?thesis
        using True Some q fail_inv assms
        by cases (simp_all add: param_val_def not_le step_ok_Some num json_inv_num)
    qed
    then show ?thesis using Some by simp
  qed
next
  case False
  then show ?thesis
    using assms by (auto simp: param_val_def step_ok_def json_inv_def not_less)
qed

text \<open>When a character of the parameter list makes the parser leave its memory.\<close>

definition json_fault :: "json_parser \<Rightarrow> char \<Rightarrow> bool" where
  "json_fault p c \<longleftrightarrow> jst p = ST_PARAMS \<and>
     (pst p = PARAM_ST_VAL \<and> pcounter p < 32 \<and> \<not> in_strchr '' '' c \<and> \<not> in_strchr '']'' c \<and>
        patt_char (result p) (unat (pcounter p)) = None \<or>
      pst p \<in> {PARAM_ST_INT, PARAM_ST_UINT} \<and> num_delim c \<and> 252 \<le> w_n p \<or>
      pst p = PARAM_ST_BYTE \<and> num_delim c \<and> 255 \<le> w_n p)"

lemma json_inv_other:
  assumes "json_inv p" "s \<notin> {ST_NAME_STR, ST_VAL_STR, ST_PARAMS}"
  shows "json_inv (p\<lparr>jst := s\<rparr>)"
  using assms by (simp add: json_inv_def)

lemma putchar_params_ok:
  assumes "json_inv p" "jst p = ST_PARAMS"
  shows "step_ok (json_fault p c) (putchar_params p c)"
proof -
  note handlers = param_val_ok param_str_escape_hex_ok param_str_escape_ok param_str_ok param_bstr_ok
    param_int_ok param_uint_ok param_byte_ok
  have inv: "json_inv (p\<lparr>pst := PARAM_ST_VAL\<rparr>)" "json_inv (p\<lparr>w_n := 0, pst := PARAM_ST_VAL\<rparr>)"
    using assms by (simp_all add: json_inv_def)
  consider "pst p = PARAM_ST_START" | "pst p = PARAM_ST_VAL" | "pst p = PARAM_ST_STR_ESCAPE_HEX"
    | "pst p = PARAM_ST_STR_ESCAPE" | "pst p = PARAM_ST_STR" | "pst p = PARAM_ST_BSTR"
    | "pst p = PARAM_ST_INT" | "pst p = PARAM_ST_UINT" | "pst p = PARAM_ST_BYTE"
    | "pst p = PARAM_ST_NEXT"
    | "pst p \<notin> {PARAM_ST_START, PARAM_ST_VAL, PARAM_ST_STR_ESCAPE_HEX, PARAM_ST_STR_ESCAPE, PARAM_ST_STR,
        PARAM_ST_BSTR, PARAM_ST_INT, PARAM_ST_UINT, PARAM_ST_BYTE, PARAM_ST_NEXT}"
    by blast
  then show ?thesis
    using handlers [OF assms, of c] inv assms json_inv_other [OF assms(1), of ST_NEXT]
      json_inv_fail [OF assms(1)]
    by cases (simp_all add: putchar_params_def json_fault_def step_ok_Some)
qed

lemma end_name_ok:
  assumes "json_inv p" "jst p = ST_NAME_STR"
  shows "step_ok False (end_name p)"
  using assms by (auto simp: step_ok_def end_name_def wr_def Let_def json_inv_def word_less_nat_alt)

lemma end_string_ok:
  assumes "json_inv p" "jst p = ST_VAL_STR"
  shows "step_ok False (end_string p)"
  using assms
  by (auto simp: step_ok_def end_string_def wr_def Let_def json_inv_def word_less_nat_alt
      split: option.split prod.split)

lemma push_char_ok:
  assumes "json_inv p" "jst p \<in> {ST_NAME_STR, ST_VAL_STR}"
  shows "step_ok False (push_char p c)"
proof -
  have l: "length (w_buf p) = 44" "w_n p < 44" using assms by (auto simp: json_inv_def)
  show ?thesis
    using assms unfolding push_char_cases [OF l] by (auto simp: step_ok_def json_inv_def not_le)
qed

lemma putChar_ok:
  assumes "json_inv p"
  shows "step_ok (json_fault p c) (cJsonRpcParser_putChar p c)"
proof (cases "jst p = ST_PARAMS")
  case True
  then show ?thesis using putchar_params_ok [OF assms True] by (simp add: cJsonRpcParser_putChar_def)
next
  case False
  then have nf: "json_fault p c = False" by (simp add: json_fault_def)
  have quote: "json_inv (p\<lparr>jst := ST_NAME_STR, w_n := 0\<rparr>)" "json_inv (p\<lparr>jst := ST_VAL_STR, w_n := 0\<rparr>)"
    "json_inv (p\<lparr>jst := ST_VAL, w_n := 0\<rparr>)" "json_inv (p\<lparr>pst := PARAM_ST_START, jst := ST_PARAMS\<rparr>)"
    "json_inv (p\<lparr>w_v := digit_val c, jst := ST_VAL_UINT\<rparr>)"
    "json_inv (p\<lparr>result := (result p)\<lparr>rid := w_v p\<rparr>, jst := valTerminator2St c\<rparr>)"
    "json_inv (p\<lparr>jst := valTerminator2St c\<rparr>)"
    using assms by (simp_all add: json_inv_def valTerminator2St_def)
  note steps = end_name_ok [OF assms] end_string_ok [OF assms] push_char_ok [OF assms, of c]
    json_inv_acc [OF assms, of c] json_inv_fail [OF assms]
    json_inv_other [OF assms, of ST_NAME_Q] json_inv_other [OF assms, of ST_END]
  consider "jst p = ST_START" | "jst p = ST_NAME_Q" | "jst p = ST_NAME_STR" | "jst p = ST_NV_SEP"
    | "jst p = ST_VAL" | "jst p = ST_VAL_UINT" | "jst p = ST_VAL_STR" | "jst p = ST_NEXT"
    | "jst p \<notin> {ST_START, ST_NAME_Q, ST_NAME_STR, ST_NV_SEP, ST_VAL, ST_VAL_UINT, ST_VAL_STR, ST_NEXT, ST_PARAMS}"
    using False by blast
  then show ?thesis
    unfolding nf using assms steps quote
    by cases (simp_all add: cJsonRpcParser_putChar_def step_ok_Some)
qed

lemma json_error_step: "jst p = ST_ERROR \<Longrightarrow> cJsonRpcParser_putChar p c = Some p"
  by (simp add: cJsonRpcParser_putChar_def)

interpretation jm: char_machine cJsonRpcParser_putChar json_inv "\<lambda>p. jst p = ST_ERROR"
proof unfold_locales
  show "\<exists>s'. cJsonRpcParser_putChar s c = Some s' \<and> jst s' = ST_ERROR" if "jst s = ST_ERROR" for s c
    using json_error_step [OF that] that by simp
  show "json_inv s'" if "json_inv s" "cJsonRpcParser_putChar s c = Some s'" for s c s'
    using putChar_ok [OF that(1), of c] that(2) by (simp add: step_ok_def)
qed

section \<open>Numbers\<close>

lemma digit_val_isdigit: "isdigit c \<Longrightarrow> digit_val c = of_nat (ctox c)"
  by (simp add: digit_val_def ctox_def cchars of_nat_diff)

lemma foldl_digit_val:
  "list_all isdigit s \<Longrightarrow> foldl (\<lambda>a c. a * 10 + digit_val c) (of_nat n) s =
     of_nat (foldl (\<lambda>a c. 10 * a + ctox c) n s)"
proof (induction s arbitrary: n)
  case (Cons c s)
  then have "of_nat n * 10 + digit_val c = (of_nat (10 * n + ctox c) :: u32)"
    by (simp add: digit_val_isdigit)
  then show ?case using Cons by (simp del: of_nat_add of_nat_mult)
qed simp

text \<open>The decimal text of a number: digits, not empty, and the accumulator reads it back.\<close>

lemma uitoa_digits:
  assumes "uitoa v 10 = Some (s, l)"
  obtains x xs where "s = x # xs" "isdigit x" "list_all isdigit xs"
    "foldl (\<lambda>a c. a * 10 + digit_val c) (digit_val x) xs = v"
proof -
  have s: "s = rev (udigits 10 (unat v))" using assms by (simp add: uitoa_def Let_def)
  then have d: "list_all isdigit s" using udigits_isdigit [of "unat v"] by (simp add: list_all_iff)
  have "s \<noteq> []" using s by (simp add: udigits.simps [of 10 "unat v"])
  then obtain x xs where x: "s = x # xs" by (cases s) auto
  have "foldl (\<lambda>a c. a * 10 + digit_val c) (of_nat 0) s = of_nat (num_value 10 s)"
    using foldl_digit_val [OF d, of 0] by (simp add: num_value_def)
  also have "num_value 10 s = unat v" unfolding s by (rule num_value_rev_udigits) simp_all
  finally show ?thesis using x d by (intro that [of x xs]) simp_all
qed

lemma feed_uint_digits:
  "jst p = ST_PARAMS \<Longrightarrow> pst p = PARAM_ST_UINT \<Longrightarrow> list_all isdigit xs \<Longrightarrow>
   feed cJsonRpcParser_putChar p xs = Some (p\<lparr>w_v := foldl (\<lambda>a c. a * 10 + digit_val c) (w_v p) xs\<rparr>)"
  by (induction xs arbitrary: p)
    (simp_all add: cJsonRpcParser_putChar_def putchar_params_def param_uint_def acc_digit_def)

lemma align4_le:
  assumes "n \<le> 248"
  shows "unat (align4 n) = (unat n + 3) div 4 * 4" "align4 n \<le> 248"
proof -
  have "(unat n + 3) div 4 * 4 \<le> 248"
    using assms by (simp add: word_le_nat_alt)
  then show eq: "unat (align4 n) = (unat n + 3) div 4 * 4"
    by (simp add: align4_def unat_of_nat del: of_nat_mult of_nat_numeral)
  show "align4 n \<le> 248" unfolding word_le_nat_alt eq using assms by (simp add: word_le_nat_alt)
qed

text \<open>Plain characters of a string parameter are appended.\<close>

definition plain_char :: "char \<Rightarrow> bool" where
  "plain_char c \<longleftrightarrow> c \<noteq> QUOTE \<and> c \<noteq> CHR 0x5C"

lemma feed_str_plain:
  assumes "jst p = ST_PARAMS" "pst p = PARAM_ST_STR" "list_all plain_char xs"
    "length (param_buf (result p)) = 256" "unat (w_n p) + length xs < 256"
  shows "feed cJsonRpcParser_putChar p xs = Some (p\<lparr>result := (result p)\<lparr>param_buf :=
      take (unat (w_n p)) (param_buf (result p)) @ map u8_of xs @
      drop (unat (w_n p) + length xs) (param_buf (result p))\<rparr>, w_n := w_n p + of_nat (length xs)\<rparr>)"
  using assms
proof (induction xs arbitrary: p)
  case (Cons x xs)
  let ?b = "param_buf (result p)" and ?n = "unat (w_n p)"
  let ?p = "p\<lparr>result := (result p)\<lparr>param_buf := ?b[?n := u8_of x]\<rparr>, w_n := w_n p + 1\<rparr>"
  have "cJsonRpcParser_putChar p x = Some ?p"
    using Cons(2-5) by (simp add: cJsonRpcParser_putChar_def putchar_params_def param_str_def plain_char_def push_byte_Some)
  moreover have n: "unat (w_n p + 1) = Suc ?n"
    using Cons(6) by (subst unat_add_small) simp_all
  moreover have "take (Suc ?n) (?b[?n := u8_of x]) = take ?n ?b @ [u8_of x]"
    using Cons(5) by (simp add: take_Suc_conv_app_nth)
  ultimately show ?case
    using Cons(1) [of ?p] Cons(2-) by (simp add: add.assoc)
qed simp

section \<open>Properties\<close>

text \<open>
  C3: What a character does to the request parser, in every state and for every character: the
  parser leaves its memory exactly when it reads a parameter value while no method (or no pattern
  for that parameter) is known, or when it ends a number whose place in the parameter buffer
  wraps around the 8-bit counter; otherwise the step succeeds and keeps all buffers and counters
  in range.
\<close>

theorem json_putChar_safe:
  assumes "json_inv p"
  shows "(cJsonRpcParser_putChar p c = None \<longleftrightarrow> json_fault p c) \<and>
    (\<forall>p'. cJsonRpcParser_putChar p c = Some p' \<longrightarrow> json_inv p')"
  using putChar_ok [OF assms, of c] by (simp add: step_ok_def)

text \<open>Parsers for the witnesses: one class with one method that takes a number and a string.\<close>

definition demo_class :: class_def where
  "demo_class = \<lparr>names_pace = ''ns'', class_name = ''class'',
     class_functions = [\<lparr>md_name = ''f'', param_patt = ''us''\<rparr>]\<rparr>"

definition demo_parser :: "u8 \<Rightarrow> u8 \<Rightarrow> class_def option \<Rightarrow> json_parser" where
  "demo_parser s t c = \<lparr>jclass_def = [demo_class], w_buf = replicate 44 NUL, w_n = 0, w_st = 0, w_vt = 0,
     w_v = 0, w_s = 1, jst = s, pst = t, name_id = 0, pcounter = 0,
     result = \<lparr>rtype = 0, func_number = 0, rid = 0, param_buf = replicate 256 0,
       param_index = replicate 32 0xff, rclass = c\<rparr>\<rparr>"

lemma demo_parser_inv: "s \<notin> {ST_NAME_STR, ST_VAL_STR} \<Longrightarrow> t \<in> {PARAM_ST_START, PARAM_ST_VAL} \<Longrightarrow>
    json_inv (demo_parser s t c)"
  by (auto simp: json_inv_def demo_parser_def)

theorem json_putChar_safe_witness:
  "json_inv (demo_parser ST_START PARAM_ST_START None) \<and>
   cJsonRpcParser_putChar (demo_parser ST_START PARAM_ST_START None) (CHR ''{'') \<noteq> None"
  using json_putChar_safe [OF demo_parser_inv [of ST_START PARAM_ST_START None], of "CHR ''{''"]
    demo_parser_inv [of ST_START PARAM_ST_START None]
  by (simp add: json_fault_def demo_parser_def)

text \<open>
  Parameters that come before the method make the parser follow a class pointer that is not
  set: fed \<open>{"params":[1\<close>, a freshly initialised parser whose result has no class faults.
\<close>

theorem json_params_before_method:
  "feed cJsonRpcParser_putChar
     (cJsonRpcParser_initParser (demo_parser ST_END PARAM_ST_START None) (result (demo_parser ST_END PARAM_ST_START None)))
     ([CHR ''{'', QUOTE] @ ''params'' @ [QUOTE] @ '':[1'') = None"
  by code_simp

text \<open>
  An unsigned parameter survives the wire: where the pattern asks for a \<open>u\<close>, the decimal text
  that \<open>NyLPC_uitoa\<close> prints for any 32-bit value, followed by a comma, is stored so that
  \<open>getUInt32\<close> gives the value back, and the parser is ready for the next parameter.
\<close>

theorem json_uint_roundtrip:
  assumes "json_inv p" "jst p = ST_PARAMS" "pst p = PARAM_ST_VAL" "pcounter p < 32" "w_n p \<le> 248"
    "patt_char (result p) (unat (pcounter p)) = Some (CHR ''u'')" "uitoa v 10 = Some (s, l)"
  shows "\<exists>p'. feed cJsonRpcParser_putChar p (s @ '','') = Some p' \<and> json_inv p' \<and> jst p' = ST_PARAMS \<and>
    pst p' = PARAM_ST_VAL \<and> pcounter p' = pcounter p + 1 \<and>
    TJsonRpcParserResult_getUInt32 (result p') (unat (pcounter p)) = Some (Some v)"
proof -
  obtain x xs where s: "s = x # xs" "isdigit x" "list_all isdigit xs"
      "foldl (\<lambda>a c. a * 10 + digit_val c) (digit_val x) xs = v"
    using assms(7) by (rule uitoa_digits)
  have l: "length (param_buf (result p)) = 256" "length (param_index (result p)) = 32" "unat (pcounter p) < 32"
    using assms(1,4) by (simp_all add: json_inv_def word_less_nat_alt)
  let ?n = "align4 (w_n p)"
  have n: "?n < 252" "unat ?n + 4 \<le> 256" "?n \<noteq> 0xff"
    using align4_le(2) [OF assms(5)] by (auto simp: word_le_nat_alt word_less_nat_alt)
  let ?r = "(result p)\<lparr>param_index := (param_index (result p))[unat (pcounter p) := ?n]\<rparr>"
  let ?p1 = "p\<lparr>pst := PARAM_ST_UINT, w_v := digit_val x, w_n := ?n, result := ?r, pcounter := pcounter p + 1\<rparr>"
  have x: "\<not> in_strchr '' '' x" "\<not> in_strchr '']'' x"
    using s(2) by (auto simp: in_strchr_def cchars)
  have "cJsonRpcParser_putChar p x = Some ?p1"
    using assms x s(2) l by (simp add: cJsonRpcParser_putChar_def putchar_params_def param_val_def add_index_Some not_le)
  then have fd: "feed cJsonRpcParser_putChar p s = Some (?p1\<lparr>w_v := v\<rparr>)"
    using feed_uint_digits [of ?p1 xs] s(1,3,4) assms(2) by simp
  let ?p2 = "?p1\<lparr>w_v := v, pst := PARAM_ST_VAL, w_n := ?n + 4\<rparr>"
  let ?b = "take (unat ?n) (param_buf (result p)) @ word_bytes v @ drop (unat ?n + 4) (param_buf (result p))"
  have "cJsonRpcParser_putChar (?p1\<lparr>w_v := v\<rparr>) (CHR '','') = Some (?p2\<lparr>result := ?r\<lparr>param_buf := ?b\<rparr>\<rparr>)"
    using assms(2) n(1) l put_param_word_ok [of ?p2 ?n v]
    by (simp add: cJsonRpcParser_putChar_def putchar_params_def param_uint_def num_end_def cchars Let_def)
  moreover from this fd have "json_inv (?p2\<lparr>result := ?r\<lparr>param_buf := ?b\<rparr>\<rparr>)"
    using jm.inv_feed [OF assms(1), of "s @ '',''"] by (simp add: feed_append)
  moreover have "TJsonRpcParserResult_getUInt32 (?r\<lparr>param_buf := ?b\<rparr>) (unat (pcounter p)) = Some (Some v)"
    using assms(6) l n word_at_word_bytes [of "unat ?n" "param_buf (result p)" v]
    by (simp add: TJsonRpcParserResult_getUInt32_def with_param_def rd_def patt_char_def)
  ultimately show ?thesis
    using fd assms(2) by (simp add: feed_append)
qed

theorem json_uint_roundtrip_witness:
  "\<exists>s l p'. uitoa 305 10 = Some (s, l) \<and>
   feed cJsonRpcParser_putChar (demo_parser ST_PARAMS PARAM_ST_VAL (Some demo_class)) (s @ '','') = Some p' \<and>
   TJsonRpcParserResult_getUInt32 (result p') 0 = Some (Some 305)"
proof -
  obtain s l where s: "uitoa 305 10 = Some (s, l)" by (simp add: uitoa_def Let_def)
  have "patt_char (result (demo_parser ST_PARAMS PARAM_ST_VAL (Some demo_class))) 0 = Some (CHR ''u'')"
    by (simp add: patt_char_def demo_parser_def demo_class_def rd_def)
  moreover have "pcounter (demo_parser ST_PARAMS PARAM_ST_VAL (Some demo_class)) = 0"
    "w_n (demo_parser ST_PARAMS PARAM_ST_VAL (Some demo_class)) = 0"
    "jst (demo_parser ST_PARAMS PARAM_ST_VAL (Some demo_class)) = ST_PARAMS"
    "pst (demo_parser ST_PARAMS PARAM_ST_VAL (Some demo_class)) = PARAM_ST_VAL"
    by (simp_all add: demo_parser_def)
  ultimately show ?thesis
    using json_uint_roundtrip [OF demo_parser_inv [of ST_PARAMS PARAM_ST_VAL "Some demo_class"] _ _ _ _ _ s] s
    by auto
qed

text \<open>
  C13: A string parameter without quotes and backslashes is stored as its characters, ended by a
  zero byte and preceded by its length, and \<open>getStr\<close> finds it there.
\<close>

theorem json_string_roundtrip:
  assumes "json_inv p" "jst p = ST_PARAMS" "pst p = PARAM_ST_VAL" "pcounter p < 32"
    "unat (w_n p) + length s + 2 < 256" "list_all plain_char s"
    "patt_char (result p) (unat (pcounter p)) = Some (CHR ''s'')"
  shows "\<exists>p'. feed cJsonRpcParser_putChar p (QUOTE # s @ [QUOTE]) = Some p' \<and> json_inv p' \<and>
    jst p' = ST_PARAMS \<and> pst p' = PARAM_ST_NEXT \<and>
    TJsonRpcParserResult_getStr (result p') (unat (pcounter p)) =
      Some (Some (unat (w_n p) + 1, of_nat (length s))) \<and>
    take (length s + 1) (drop (unat (w_n p) + 1) (param_buf (result p'))) = map u8_of s @ [0]"
proof -
  let ?k = "unat (w_n p)" and ?i = "unat (pcounter p)" and ?b = "param_buf (result p)"
  have l: "length ?b = 256" "length (param_index (result p)) = 32" "?i < 32"
    using assms(1,4) by (simp_all add: json_inv_def word_less_nat_alt)
  have pc: "0 < pcounter p + 1" "pcounter p + 1 \<le> 32" "unat (pcounter p + 1) = Suc ?i"
    using pcounter_succ [OF assms(4)] l(3) by (simp_all add: unat_add_small)
  have ff: "w_n p \<noteq> 0xff" using assms(5) by auto
  let ?r = "(result p)\<lparr>param_index := (param_index (result p))[?i := w_n p]\<rparr>"
  let ?p1 = "p\<lparr>result := ?r, pcounter := pcounter p + 1, w_n := w_n p + 1, pst := PARAM_ST_STR\<rparr>"
  have n1: "unat (w_n p + 1) = Suc ?k" using assms(5) by (subst unat_add_small) simp_all
  have 1: "cJsonRpcParser_putChar p QUOTE = Some ?p1"
    using assms l by (simp add: cJsonRpcParser_putChar_def putchar_params_def param_val_def add_index_Some
        not_le in_strchr_def)
  let ?b1 = "take (Suc ?k) ?b @ map u8_of s @ drop (Suc ?k + length s) ?b"
  let ?n = "w_n p + 1 + of_nat (length s)"
  let ?p2 = "?p1\<lparr>result := ?r\<lparr>param_buf := ?b1\<rparr>, w_n := ?n\<rparr>"
  have 2: "feed cJsonRpcParser_putChar ?p1 s = Some ?p2"
    using feed_str_plain [of ?p1 s] assms(2,5,6) l(1) n1 by simp
  have ls: "unat (of_nat (length s) :: u8) = length s" using assms(5) by (simp add: unat_of_nat)
  have n: "unat ?n = Suc ?k + length s"
    using assms(5) n1 ls by (subst unat_add_small) simp_all
  let ?b3 = "?b1[Suc ?k + length s := 0, ?k := of_nat (length s)]"
  have 3: "cJsonRpcParser_putChar ?p2 QUOTE =
      Some (?p2\<lparr>result := ?r\<lparr>param_buf := ?b3\<rparr>, w_n := ?n + 1, pst := PARAM_ST_NEXT\<rparr>)"
    using assms(2,5) l pc n
    by (simp add: cJsonRpcParser_putChar_def putchar_params_def param_str_def put_param_buf_Some
        last_index_Some Let_def)
  have 4: "feed cJsonRpcParser_putChar p (QUOTE # s @ [QUOTE]) =
      Some (?p2\<lparr>result := ?r\<lparr>param_buf := ?b3\<rparr>, w_n := ?n + 1, pst := PARAM_ST_NEXT\<rparr>)"
    using 1 2 3 by (simp add: feed_append)
  have b1: "?b1 = take ?k ?b @ ?b ! ?k # map u8_of s @ ?b ! (Suc ?k + length s) # drop (Suc (Suc ?k + length s)) ?b"
    using assms(5) l(1) by (simp add: take_Suc_conv_app_nth Cons_nth_drop_Suc)
  have b3: "?b3 = take ?k ?b @ of_nat (length s) # map u8_of s @ 0 # drop (Suc (Suc ?k + length s)) ?b"
    unfolding b1 using assms(5) l(1) by (simp add: list_update_append)
  have "TJsonRpcParserResult_getStr (?r\<lparr>param_buf := ?b3\<rparr>) ?i = Some (Some (?k + 1, of_nat (length s)))"
    unfolding b3 using assms(5,7) l ff
    by (simp add: TJsonRpcParserResult_getStr_def with_param_def rd_def patt_char_def nth_append)
  moreover have "take (length s + 1) (drop (?k + 1) ?b3) = map u8_of s @ [0]"
    unfolding b3 using assms(5) l(1) by simp
  ultimately show ?thesis
    using 4 jm.inv_feed [OF assms(1) 4] assms(2) by simp
qed

theorem json_string_roundtrip_witness:
  "\<exists>p'. feed cJsonRpcParser_putChar ((demo_parser ST_PARAMS PARAM_ST_VAL (Some demo_class))\<lparr>pcounter := 1\<rparr>)
     (QUOTE # ''ab'' @ [QUOTE]) = Some p' \<and>
   TJsonRpcParserResult_getStr (result p') 1 = Some (Some (1, 2)) \<and>
   take 3 (drop 1 (param_buf (result p'))) = [u8_of (CHR ''a''), u8_of (CHR ''b''), 0]"
proof -
  let ?p = "(demo_parser ST_PARAMS PARAM_ST_VAL (Some demo_class))\<lparr>pcounter := 1\<rparr>"
  have "json_inv ?p" by (simp add: json_inv_def demo_parser_def)
  moreover have "patt_char (result ?p) 1 = Some (CHR ''s'')"
    by (simp add: patt_char_def demo_parser_def demo_class_def rd_def)
  moreover have "w_n ?p = 0" "jst ?p = ST_PARAMS" "pst ?p = PARAM_ST_VAL" "pcounter ?p = 1"
    by (simp_all add: demo_parser_def)
  moreover have "list_all plain_char ''ab''" by (simp add: plain_char_def)
  ultimately show ?thesis
    using json_string_roundtrip [of ?p "''ab''"] by (auto simp: numeral_3_eq_3)
qed

lemma split_colon_append:
  "CHR '':'' \<notin> set a \<Longrightarrow> split_colon (a @ CHR '':'' # b) = Some (a, b)"
  by (induction a) (auto simp: split_colon_def)

lemma find_method_sound:
  "find_method fs m (of_nat k) = Some i \<Longrightarrow> k + length fs < 256 \<Longrightarrow>
    k \<le> unat i \<and> unat i < k + length fs \<and> md_name (fs ! (unat i - k)) = m"
proof (induction fs arbitrary: k)
  case (Cons f fs)
  show ?case
  proof (cases "md_name f = m")
    case True
    then show ?thesis using Cons(2,3) by (auto simp: unat_of_nat)
  next
    case False
    then have "find_method fs m (of_nat (Suc k)) = Some i" using Cons(2) by (simp add: add.commute)
    from Cons(1) [OF this] Cons(3) show ?thesis by (auto simp: nth_Cons')
  qed
qed simp

lemma find_class_sound:
  assumes "find_class t ns cl m = Some (c, i)"
    "\<forall>c\<in>set t. no_nul (names_pace c) \<and> no_nul (class_name c) \<and> length (class_functions c) < 256"
    "no_nul ns" "no_nul cl"
  shows "c \<in> set t \<and> unat i < length (class_functions c) \<and> md_name (class_functions c ! unat i) = m \<and>
    take (length ns) (names_pace c) = ns \<and> take (length cl) (class_name c) = cl"
  using assms
proof (induction t)
  case (Cons d t)
  show ?case
  proof (cases "take (length ns) (names_pace d) = ns \<and> take (length cl) (class_name d) = cl")
    case True
    then have "d = c" "find_method (class_functions d) m (of_nat 0) = Some i"
      using Cons(2-5) by (auto simp: strncmp_eq_iff)
    from find_method_sound [OF this(2)] this(1) True Cons(3) show ?thesis by simp
  next
    case False
    then have "find_class t ns cl m = Some (c, i)"
      using Cons(2-5) by (simp add: strncmp_eq_iff split: if_splits)
    from Cons(1) [OF this] Cons(3-5) show ?thesis by simp
  qed
qed simp

text \<open>
  \<open>findFunction\<close> only returns a method that is in the table under the name asked for, of a
  class that is in the table; but of the namespace and class names it checks only that what was
  asked for is a prefix of them.
\<close>

theorem findFunction_sound:
  assumes "findFunction tbl (ns @ CHR '':'' # cl @ CHR '':'' # m) = Some (c, i)"
    "CHR '':'' \<notin> set ns" "CHR '':'' \<notin> set cl" "no_nul ns" "no_nul cl"
    "\<forall>c\<in>set tbl. no_nul (names_pace c) \<and> no_nul (class_name c) \<and> length (class_functions c) < 256"
  shows "c \<in> set tbl \<and> unat i < length (class_functions c) \<and> md_name (class_functions c ! unat i) = m \<and>
    take (length ns) (names_pace c) = ns \<and> take (length cl) (class_name c) = cl"
  using assms find_class_sound [of tbl ns cl m c i] by (simp add: findFunction_def split_colon_append)

theorem findFunction_sound_witness:
  "findFunction [demo_class] (''n'' @ CHR '':'' # ''cl'' @ CHR '':'' # ''f'') = Some (demo_class, 0) \<and>
   demo_class \<in> set [demo_class] \<and> md_name (class_functions demo_class ! unat (0 :: u8)) = ''f''"
proof -
  have "findFunction [demo_class] (''n'' @ CHR '':'' # ''cl'' @ CHR '':'' # ''f'') = Some (demo_class, 0)"
    by (simp add: findFunction_def split_colon_def demo_class_def numeral_eq_Suc)
  from findFunction_sound [OF this] this show ?thesis
    by (simp add: demo_class_def)
qed

text \<open>
  A text that the parser has not rejected has no rejected prefix, and feeding it in two parts
  is feeding it whole: a rejection is final.
\<close>

theorem json_accepted_prefix:
  assumes "json_inv p" "feed cJsonRpcParser_putChar p (xs @ ys) = Some q" "jst q \<noteq> ST_ERROR"
  shows "\<exists>u. feed cJsonRpcParser_putChar p xs = Some u \<and> json_inv u \<and> jst u \<noteq> ST_ERROR \<and>
    feed cJsonRpcParser_putChar u ys = Some q"
  using assms by (rule jm.accepted_prefix)

theorem json_accepted_prefix_witness:
  "\<exists>q u. feed cJsonRpcParser_putChar (demo_parser ST_START PARAM_ST_START None) ('' '' @ ''{'') = Some q \<and>
    feed cJsonRpcParser_putChar (demo_parser ST_START PARAM_ST_START None) '' '' = Some u \<and>
    feed cJsonRpcParser_putChar u ''{'' = Some q"
proof -
  have "feed cJsonRpcParser_putChar (demo_parser ST_START PARAM_ST_START None) ('' '' @ ''{'') =
      Some ((demo_parser ST_START PARAM_ST_START None)\<lparr>jst := ST_NAME_Q\<rparr>)"
    by (simp add: cJsonRpcParser_putChar_def demo_parser_def in_strchr_def)
  from json_accepted_prefix [OF demo_parser_inv this] this show ?thesis by auto
qed

end
