(* ===== verification/IpTypes.thy ===== *)
theory IpTypes
  imports Memory
begin

text \<open>
  \<open>NyLPC_NetIf_ip_types.c\<close>, \<open>NyLPC_NetIf_ip_types.h\<close> and \<open>NyLPC_NetIf_ethernet_types.h\<close>: IPv4
  addresses and their dotted text, the headers of Ethernet, IPv4, IPv6, TCP, UDP, ICMP and ARP
  packets, the Internet checksum, and the walk over the options of a TCP header.

  A header struct is a record whose multi-byte fields hold what the processor loads, that is,
  numbers in network order. A packet is a list of bytes; \<open>ipv4_header_at\<close> is the cast of a
  packet to \<open>struct NyLPC_TIPv4Header*\<close>.
\<close>

unbundle bit_operations_syntax

section \<open>Byte order\<close>

abbreviation (input) "htons \<equiv> TUInt16_bswap"
abbreviation (input) "ntohs \<equiv> TUInt16_bswap"
abbreviation (input) "HTONS \<equiv> TUInt16_BSWAP"
abbreviation (input) "ntohl \<equiv> TUInt32_bswap"
abbreviation (input) "htonl \<equiv> TUInt32_bswap"

section \<open>Addresses\<close>

type_synonym eth_addr = "u8 list"
type_synonym ipv4_addr = u32

definition TIPv4Addr_isEqual :: "ipv4_addr \<Rightarrow> ipv4_addr \<Rightarrow> bool" where
  "TIPv4Addr_isEqual v1 v2 \<longleftrightarrow> v1 = v2"

definition TIPv4Addr_isEqualWithMask :: "ipv4_addr \<Rightarrow> ipv4_addr \<Rightarrow> ipv4_addr \<Rightarrow> bool" where
  "TIPv4Addr_isEqualWithMask addr1 addr2 msk \<longleftrightarrow> addr1 AND msk = addr2 AND msk"

definition TIPv4Addr_pack :: "u32 \<Rightarrow> u32 \<Rightarrow> u32 \<Rightarrow> u32 \<Rightarrow> ipv4_addr" where
  "TIPv4Addr_pack a0 a1 a2 a3 = htonl ((0xff000000 AND push_bit 24 a0) OR (0x00ff0000 AND push_bit 16 a1)
     OR (0x0000ff00 AND push_bit 8 a2) OR (0x000000ff AND a3))"

definition TIPv4Addr_ZERO :: ipv4_addr where
  "TIPv4Addr_ZERO = 0"

definition TIPv4Addr_BROADCAST :: ipv4_addr where
  "TIPv4Addr_BROADCAST = 0xffffffff"

definition TIPv4Addr_MULTICAST :: ipv4_addr where
  "TIPv4Addr_MULTICAST = TIPv4Addr_pack 224 0 0 0"

definition TIPv4Addr_MULTICAST_MASK :: ipv4_addr where
  "TIPv4Addr_MULTICAST_MASK = TIPv4Addr_pack 224 0 0 0"

definition TEthAddr_BROADCAST :: eth_addr where
  "TEthAddr_BROADCAST = [0xff, 0xff, 0xff, 0xff, 0xff, 0xff]"

text \<open>The digits that one turn of the loop of \<open>NyLPC_TIPv4Addr_toString\<close> writes for a byte.\<close>

definition byte_text :: "u8 \<Rightarrow> string" where
  "byte_text v =
     (if 100 \<le> v then [char_of (unat (v div 100) + 48)] else []) @
     (if 10 \<le> v then [char_of (unat ((v mod 100) div 10) + 48)] else []) @
     [char_of (unat (v mod 10) + 48)]"

fun addr_loop :: "u32 \<Rightarrow> nat \<Rightarrow> string" where
  "addr_loop ip 0 = []"
| "addr_loop ip (Suc l) = byte_text (ucast (drop_bit (8 * l) ip AND 0xff)) @ CHR ''.'' # addr_loop ip l"

text \<open>The terminator replaces the last dot; the result is the text and its length.\<close>

definition TIPv4Addr_toString :: "ipv4_addr \<Rightarrow> string \<times> nat" where
  "TIPv4Addr_toString i_ip = (let s = addr_loop (ntohl i_ip) 4 in (butlast s, length s - 1))"

section \<open>The Internet checksum\<close>

definition add_carry :: "u16 \<Rightarrow> u16 \<Rightarrow> u16" where
  "add_carry s t = (let s' = s + t in if s' < t then s' + 1 else s')"

fun chksum_loop :: "u16 \<Rightarrow> u8 list \<Rightarrow> u16" where
  "chksum_loop s (a # b # bs) = chksum_loop (add_carry s (push_bit 8 (ucast a) + ucast b)) bs"
| "chksum_loop s [a] = add_carry s (push_bit 8 (ucast a) + 0)"
| "chksum_loop s [] = s"

text \<open>\<open>n\<close> bytes from offset \<open>off\<close> of the packet.\<close>

definition uip_chksum :: "u16 \<Rightarrow> u8 list \<Rightarrow> nat \<Rightarrow> nat \<Rightarrow> u16 option" where
  "uip_chksum s pkt off n =
     (if off + n \<le> length pkt then Some (chksum_loop s (take n (drop off pkt))) else None)"

section \<open>Headers\<close>

record eth_header =
  eth_dest :: eth_addr
  eth_src :: eth_addr
  eth_type :: u16

record ipv4_header =
  vhl :: u8
  tos :: u8
  len16 :: u16
  ipid16 :: u16
  ipoffset :: u16
  ttl :: u8
  proto :: u8
  ipchksum :: u16
  srcipaddr :: ipv4_addr
  destipaddr :: ipv4_addr

record ipv6_header =
  vtc :: u8
  tcflow :: u8
  flow :: u16
  len16_6 :: u8
  proto6 :: u8
  ttl6 :: u8
  srcipaddr6 :: "u16 list"
  destipaddr6 :: "u16 list"

record tcp_header =
  srcport :: u16
  destport :: u16
  seqno32 :: u32
  ackno32 :: u32
  tcpoffset :: u8
  tcp_flags :: u8
  wnd16 :: u16
  tcpchksum :: u16
  urgp :: "u8 list"

record udp_header =
  udp_srcport :: u16
  udp_destport :: u16
  udplen :: u16
  udpchksum :: u16

record arp_header =
  hwtype :: u16
  protocol :: u16
  hwlen :: u8
  protolen :: u8
  opcode :: u16
  shwaddr :: eth_addr
  sipaddr :: ipv4_addr
  dhwaddr :: eth_addr
  dipaddr :: ipv4_addr

definition ipv4_header_bytes :: "ipv4_header \<Rightarrow> u8 list" where
  "ipv4_header_bytes h = [vhl h, tos h] @ half_bytes (len16 h) @ half_bytes (ipid16 h) @
     half_bytes (ipoffset h) @ [ttl h, proto h] @ half_bytes (ipchksum h) @
     word_bytes (srcipaddr h) @ word_bytes (destipaddr h)"

definition ipv4_header_at :: "u8 list \<Rightarrow> ipv4_header option" where
  "ipv4_header_at p = do {
     v \<leftarrow> rd p 0; t \<leftarrow> rd p 1; l \<leftarrow> half_at p 2; i \<leftarrow> half_at p 4; f \<leftarrow> half_at p 6;
     tl \<leftarrow> rd p 8; pr \<leftarrow> rd p 9; c \<leftarrow> half_at p 10; s \<leftarrow> word_at p 12; d \<leftarrow> word_at p 16;
     Some \<lparr>vhl = v, tos = t, len16 = l, ipid16 = i, ipoffset = f, ttl = tl, proto = pr, ipchksum = c,
       srcipaddr = s, destipaddr = d\<rparr> }"

abbreviation (input) "UIP_PROTO_ICMP \<equiv> (1 :: u8)"
abbreviation (input) "UIP_PROTO_TCP \<equiv> (6 :: u8)"
abbreviation (input) "UIP_PROTO_UDP \<equiv> (17 :: u8)"
abbreviation (input) "ARP_REQUEST \<equiv> (1 :: u16)"
abbreviation (input) "ARP_REPLY \<equiv> (2 :: u16)"
abbreviation (input) "ETH_TYPE_IP \<equiv> (0x0800 :: u16)"
abbreviation (input) "ETH_TYPE_ARP \<equiv> (0x0806 :: u16)"

subsection \<open>Ethernet\<close>

definition TEthernetIIHeader_setArpTx ::
  "eth_header \<Rightarrow> arp_header \<Rightarrow> eth_addr \<Rightarrow> eth_header \<times> u16" where
  "TEthernetIIHeader_setArpTx e arph my =
     (let e = e\<lparr>eth_type := HTONS ETH_TYPE_ARP\<rparr> in
      (if opcode arph = HTONS ARP_REPLY then e\<lparr>eth_src := my, eth_dest := dhwaddr arph\<rparr>
       else if opcode arph = HTONS ARP_REQUEST
       then e\<lparr>eth_dest := replicate 6 0xff, eth_src := my\<rparr>
       else e, 42))"

definition TEthernetIIHeader_setIPv4Tx ::
  "eth_header \<Rightarrow> ipv4_header \<Rightarrow> eth_addr \<Rightarrow> eth_addr \<Rightarrow> eth_header \<times> u16" where
  "TEthernetIIHeader_setIPv4Tx e iph src dest =
     (e\<lparr>eth_type := HTONS ETH_TYPE_IP, eth_dest := dest, eth_src := src\<rparr>,
      if proto iph = UIP_PROTO_TCP then 14 + htons (len16 iph)
      else if proto iph = UIP_PROTO_UDP then 14 + htons (len16 iph)
      else if proto iph = UIP_PROTO_ICMP then 14 + htons (len16 iph)
      else 0)"

subsection \<open>IPv4\<close>

definition TIPv4Header_getHeaderLength :: "ipv4_header \<Rightarrow> nat" where
  "TIPv4Header_getHeaderLength h = unat (vhl h AND 0x0f) * 4"

definition finish_chksum :: "u16 \<Rightarrow> u16" where
  "finish_chksum s = (if s = 0 then 0xffff else htons s)"

definition TIPv4Header_makeIpChecksum :: "u8 list \<Rightarrow> u16 option" where
  "TIPv4Header_makeIpChecksum pkt = do {
     h \<leftarrow> ipv4_header_at pkt;
     s \<leftarrow> uip_chksum 0 pkt 0 (TIPv4Header_getHeaderLength h);
     Some (finish_chksum s) }"

definition TIPv4Header_isCorrectIpCheckSum :: "u8 list \<Rightarrow> bool option" where
  "TIPv4Header_isCorrectIpCheckSum pkt =
     map_option (\<lambda>c. c = 0xffff) (TIPv4Header_makeIpChecksum pkt)"

text \<open>\<open>n\<close> (\<open>len\<close>) is an unsigned 16-bit difference; the sum of it and \<open>proto\<close> is cut to 16 bits.\<close>

definition TIPv4Header_makeTcpChecksum :: "u8 list \<Rightarrow> u16 option" where
  "TIPv4Header_makeTcpChecksum pkt = do {
     h \<leftarrow> ipv4_header_at pkt;
     let iph_len = TIPv4Header_getHeaderLength h;
     let n = ntohs (len16 h) - of_nat iph_len;
     s \<leftarrow> uip_chksum (n + ucast (proto h)) pkt 12 8;
     s \<leftarrow> uip_chksum s pkt iph_len (unat n);
     Some (finish_chksum s) }"

definition cIPv4Packet_isCorrectTcpCheckSum :: "u8 list \<Rightarrow> bool option" where
  "cIPv4Packet_isCorrectTcpCheckSum pkt =
     map_option (\<lambda>c. c = 0xffff) (TIPv4Header_makeTcpChecksum pkt)"

text \<open>The first argument is the static packet counter \<open>pid\<close>.\<close>

definition TIPv4Header_writeTxIpHeader :: "u16 \<Rightarrow> ipv4_header \<Rightarrow> u8 \<Rightarrow> u16 \<times> ipv4_header" where
  "TIPv4Header_writeTxIpHeader pid h i_proto =
     (pid + 1, h\<lparr>proto := i_proto, ttl := 64, tos := 0, ipid16 := pid, ipoffset := 0, ipchksum := 0\<rparr>)"

subsection \<open>IPv6\<close>

text \<open>The field \<open>len16\<close> of the IPv6 header has 8 bits: the length is cut to its low byte.\<close>

definition TIPv6Header_setSendHeader ::
  "ipv6_header \<Rightarrow> u16 list \<Rightarrow> u16 list \<Rightarrow> u8 \<Rightarrow> u8 \<Rightarrow> u16 \<Rightarrow> ipv6_header" where
  "TIPv6Header_setSendHeader h i_src i_dest i_proto i_ttl i_len =
     h\<lparr>srcipaddr6 := i_src, destipaddr6 := i_dest, proto6 := i_proto, ttl6 := i_ttl, vtc := 0x60,
       tcflow := 0, flow := 0, len16_6 := ucast (htons (i_len - 40))\<rparr>"

subsection \<open>TCP\<close>

datatype opt_result = Undefined | NoOption | OptionAt nat

abbreviation (input) "TCP_OPT_END \<equiv> (0 :: u8)"
abbreviation (input) "TCP_OPT_NOOP \<equiv> (1 :: u8)"
abbreviation (input) "TCP_OPT_MSS \<equiv> (2 :: u8)"
abbreviation (input) "TCP_OPT_MSS_LEN \<equiv> (4 :: u8)"

text \<open>
  The loop over the options, which are the bytes after the header; \<open>Undefined\<close> is a read behind
  them. The outer \<open>None\<close> is a loop that takes more turns than the first argument.
\<close>

fun opt_loop :: "nat \<Rightarrow> u8 list \<Rightarrow> u8 \<Rightarrow> nat \<Rightarrow> nat \<Rightarrow> opt_result option" where
  "opt_loop 0 opt_buf i_opt_id limit c = None"
| "opt_loop (Suc fuel) opt_buf i_opt_id limit c =
     (if \<not> c < limit then Some NoOption
      else case rd opt_buf c of
        None \<Rightarrow> Some Undefined
      | Some opt \<Rightarrow>
          if opt = i_opt_id then Some (OptionAt c)
          else if opt = TCP_OPT_NOOP then opt_loop fuel opt_buf i_opt_id limit c
          else if opt = TCP_OPT_END then Some NoOption
          else case rd opt_buf (1 + c) of
            None \<Rightarrow> Some Undefined
          | Some l \<Rightarrow>
              if l = 0 then Some NoOption
              else opt_loop fuel opt_buf i_opt_id limit (c + unat l))"

definition TTcpHeader_getTcpOptFragmentPtr ::
  "nat \<Rightarrow> tcp_header \<Rightarrow> u8 list \<Rightarrow> u8 \<Rightarrow> opt_result option" where
  "TTcpHeader_getTcpOptFragmentPtr fuel h opt_buf i_opt_id =
     (if tcpoffset h AND 0xf0 > 0x50
      then opt_loop fuel opt_buf i_opt_id ((unat (drop_bit 4 (tcpoffset h)) - 5) * 4) 0
      else Some NoOption)"

text \<open>The result is the returned flag with the value stored; \<open>None\<close> inside is an undefined read.\<close>

definition TTcpHeader_getTcpMmsOpt ::
  "nat \<Rightarrow> tcp_header \<Rightarrow> u8 list \<Rightarrow> u16 option option option" where
  "TTcpHeader_getTcpMmsOpt fuel h opt_buf =
     (case TTcpHeader_getTcpOptFragmentPtr fuel h opt_buf TCP_OPT_MSS of
        None \<Rightarrow> None
      | Some Undefined \<Rightarrow> Some None
      | Some NoOption \<Rightarrow> Some (Some None)
      | Some (OptionAt k) \<Rightarrow> Some (do {
          l \<leftarrow> rd opt_buf (k + 1);
          if l = TCP_OPT_MSS_LEN then do {
            a \<leftarrow> rd opt_buf (k + 2); b \<leftarrow> rd opt_buf (k + 3);
            Some (Some (push_bit 8 (ucast a) OR ucast b)) }
          else Some None }))"

definition TTcpHeader_setMmsOpt :: "u8 list \<Rightarrow> nat \<Rightarrow> u16 \<Rightarrow> u8 list option" where
  "TTcpHeader_setMmsOpt pkt i_opt_addr i_mms =
     blit pkt i_opt_addr [TCP_OPT_MSS, TCP_OPT_MSS_LEN, ucast (i_mms div 256), ucast (i_mms AND 255)]"

definition TTcpHeader_getHeaderLength :: "tcp_header \<Rightarrow> u16" where
  "TTcpHeader_getHeaderLength h = ucast (drop_bit 4 (tcpoffset h)) * 4"

subsection \<open>ARP\<close>

definition TArpHeader_setArpRequest ::
  "arp_header \<Rightarrow> ipv4_addr \<Rightarrow> eth_addr \<Rightarrow> ipv4_addr \<Rightarrow> arp_header" where
  "TArpHeader_setArpRequest h i_saddr i_srceth i_req_addr =
     h\<lparr>dhwaddr := replicate 6 0, shwaddr := i_srceth, dipaddr := i_req_addr, sipaddr := i_saddr,
       opcode := HTONS ARP_REQUEST, hwtype := HTONS 1, protocol := HTONS ETH_TYPE_IP, hwlen := 6,
       protolen := 4\<rparr>"

section \<open>Lemmas\<close>

subsection \<open>Loading a header\<close>

lemma length_ipv4_header_bytes [simp]: "length (ipv4_header_bytes h) = 20"
  by (simp add: ipv4_header_bytes_def)

lemma ipv4_header_at_bytes [simp]: "ipv4_header_at (ipv4_header_bytes h @ ys) = Some h"
  by (simp add: ipv4_header_at_def ipv4_header_bytes_def half_at_def half_bytes_def rd_def
      word_at_def word_bytes_def half_value word_value)

subsection \<open>The sum as a number modulo 65535\<close>

text \<open>The sum of the big-endian 16-bit words of a block, the last byte padded with zero.\<close>

fun be_sum :: "u8 list \<Rightarrow> nat" where
  "be_sum (a # b # bs) = 256 * unat a + unat b + be_sum bs"
| "be_sum [a] = 256 * unat a"
| "be_sum [] = 0"

lemma unat_be: "unat (push_bit 8 (ucast a) + ucast b :: u16) = 256 * unat (a :: u8) + unat (b :: u8)"
proof -
  have a: "unat a < 256" and b: "unat b < 256" by simp_all
  have u: "unat (ucast x :: u16) = unat x" for x :: u8
    unfolding unsigned_ucast_eq by (rule take_bit_nat_eq_self) (rule order.strict_trans [OF unat_u8_less], simp)
  have "unat (push_bit 8 (ucast a) :: u16) = 256 * unat a"
    using a by (simp add: push_bit_eq_mult unat_word_ariths u)
  moreover have "256 * unat a + unat b < 65536" using a b by linarith
  ultimately show ?thesis by (subst unat_add_small) (simp_all add: u)
qed

lemma unat_add_carry:
  "unat (add_carry s t) = (if unat s + unat t < 65536 then unat s + unat t else unat s + unat t - 65535)"
proof (cases "unat s + unat t < 65536")
  case True
  then have "unat (s + t) = unat s + unat t" by (intro unat_add_small) simp
  with True show ?thesis by (simp add: add_carry_def Let_def word_less_nat_alt)
next
  case False
  have "unat s + unat t - 65536 < 65536"
    using unat_u16_less [of s] unat_u16_less [of t] by linarith
  with False have u: "unat (s + t) = unat s + unat t - 65536"
    by (simp add: unat_word_ariths le_mod_geq)
  moreover have "unat (s + t) < unat t" unfolding u using False unat_u16_less [of s] by linarith
  moreover from this have "unat (s + t) + 1 < 65536" using unat_u16_less [of t] by linarith
  then have "unat (s + t + 1) = unat (s + t) + 1" by (subst unat_add_small) simp_all
  ultimately show ?thesis using False by (simp add: add_carry_def Let_def word_less_nat_alt)
qed

lemma add_carry_mod: "unat (add_carry s t) mod 65535 = (unat s + unat t) mod 65535"
  by (simp add: unat_add_carry le_mod_geq)

lemma add_carry_0_iff: "add_carry s t = 0 \<longleftrightarrow> s = 0 \<and> t = 0"
  using unat_add_carry [of s t] unat_u16_less [of s] unat_u16_less [of t]
  by (auto simp flip: unat_eq_0 split: if_splits)

lemma be_0_iff: "push_bit 8 (ucast a) + ucast b = (0 :: u16) \<longleftrightarrow> a = (0 :: u8) \<and> b = (0 :: u8)"
  using unat_be [of a b] by (simp flip: unat_eq_0)

lemma chksum_loop_mod: "unat (chksum_loop s bs) mod 65535 = (unat s + be_sum bs) mod 65535"
proof (induction s bs rule: chksum_loop.induct)
  case (1 s a b bs)
  then show ?case
    by (simp add: unat_be) (metis (no_types, lifting) add.assoc add_carry_mod mod_add_left_eq unat_be)
next
  case (2 s a)
  then show ?case using add_carry_mod [of s "push_bit 8 (ucast a) + ucast (0 :: u8)"] unat_be [of a 0] by simp
qed simp

lemma chksum_loop_0_iff: "chksum_loop s bs = 0 \<longleftrightarrow> s = 0 \<and> be_sum bs = 0"
proof (induction s bs rule: chksum_loop.induct)
  case (2 s a)
  then show ?case using be_0_iff [of a 0] by (simp add: add_carry_0_iff unat_eq_0)
qed (auto simp: add_carry_0_iff be_0_iff unat_eq_0)

lemma be_sum_append: "even (length xs) \<Longrightarrow> be_sum (xs @ ys) = be_sum xs + be_sum ys"
  by (induction xs rule: be_sum.induct) auto

lemma be_sum_half: "be_sum (half_bytes (htons v)) = unat v"
  by (simp add: half_bytes_bswap unat_bytes_u16)

lemma u16_max: "unat (s :: u16) = 65535 \<longleftrightarrow> s = 0xffff"
proof
  assume "unat s = 65535"
  then have "(of_nat (unat s) :: u16) = of_nat 65535" by (simp only:)
  then show "s = 0xffff" by simp
qed simp

lemma htons_max: "htons 0xffff = 0xffff"
  by (simp add: TUInt16_bswap_def TUInt16_BSWAP_def)

lemma dvd_unat_u16: "65535 dvd unat (s::u16) \<longleftrightarrow> s = 0 \<or> s = 0xffff"
proof
  assume "65535 dvd unat s"
  then obtain k where k: "unat s = 65535 * k" ..
  have "k < 2" using k unat_u16_less [of s] by linarith
  then have "k = 0 \<or> k = 1" by linarith
  then show "s = 0 \<or> s = 0xffff"
  proof
    assume "k = 0"
    with k have "unat s = 0" by simp
    then show ?thesis by (simp add: unat_eq_0)
  next
    assume "k = 1"
    with k have "unat s = 65535" by simp
    then show ?thesis by (simp add: u16_max)
  qed
next
  assume "s = 0 \<or> s = 0xffff"
  then show "65535 dvd unat s" by (elim disjE) simp_all
qed

lemma finish_chksum_ok: "finish_chksum s = 0xffff \<longleftrightarrow> 65535 dvd unat s"
proof -
  have "htons s = 0xffff \<longleftrightarrow> s = 0xffff" by (metis TUInt16_bswap_invol htons_max)
  then show ?thesis by (simp add: finish_chksum_def dvd_unat_u16)
qed

lemma finish_chksum_loop: "finish_chksum (chksum_loop s bs) = 0xffff \<longleftrightarrow> 65535 dvd unat s + be_sum bs"
  by (simp add: finish_chksum_ok dvd_eq_mod_eq_0 chksum_loop_mod)

subsection \<open>Stored headers\<close>

lemma half_at_half_bytes: "half_at b i = Some v \<Longrightarrow> half_bytes v = [b ! i, b ! (i + 1)]"
proof -
  have "ucast (ucast a OR push_bit 8 (ucast c) :: u16) = (a :: u8)" for a c :: u8
    by (rule bit_word_eqI) (simp add: bit_simps)
  moreover have "ucast (drop_bit 8 (ucast a OR push_bit 8 (ucast c) :: u16)) = (c :: u8)" for a c :: u8
    by (rule bit_word_eqI) (auto simp: bit_simps dest: bit_imp_le_length)
  ultimately show "half_at b i = Some v \<Longrightarrow> half_bytes v = [b ! i, b ! (i + 1)]"
    by (auto simp: half_at_def half_bytes_def rd_def split: if_splits Option.bind_splits)
qed

lemma word_at_word_bytes_inv: "word_at b i = Some v \<Longrightarrow> word_bytes v = [b ! i, b ! (i + 1), b ! (i + 2), b ! (i + 3)]"
proof -
  let ?w = "\<lambda>(a :: u8) (c :: u8) (d :: u8) (e :: u8). ucast a OR push_bit 8 (ucast c) OR push_bit 16 (ucast d) OR push_bit 24 (ucast e) :: u32"
  have "ucast (?w a c d e) = a" "ucast (drop_bit 8 (?w a c d e)) = c"
    "ucast (drop_bit 16 (?w a c d e)) = d" "ucast (drop_bit 24 (?w a c d e)) = e" for a c d e :: u8
    by (rule bit_word_eqI, auto simp: bit_simps dest: bit_imp_le_length)+
  then show "word_at b i = Some v \<Longrightarrow> word_bytes v = [b ! i, b ! (i + 1), b ! (i + 2), b ! (i + 3)]"
    by (auto simp: word_at_def word_bytes_def rd_def split: if_splits Option.bind_splits)
qed

text \<open>A packet holds a header exactly when it starts with the header's bytes.\<close>

lemma ipv4_header_at_iff:
  "ipv4_header_at p = Some h \<longleftrightarrow> (\<exists>r. p = ipv4_header_bytes h @ r)"
proof
  assume "ipv4_header_at p = Some h"
  then have f: "rd p 0 = Some (vhl h)" "rd p 1 = Some (tos h)" "half_at p 2 = Some (len16 h)"
    "half_at p 4 = Some (ipid16 h)" "half_at p 6 = Some (ipoffset h)" "rd p 8 = Some (ttl h)"
    "rd p 9 = Some (proto h)" "half_at p 10 = Some (ipchksum h)" "word_at p 12 = Some (srcipaddr h)"
    "word_at p 16 = Some (destipaddr h)"
    by (auto simp: ipv4_header_at_def split: Option.bind_splits)
  have "20 \<le> length p" using f(10) by (auto simp: word_at_def rd_def split: Option.bind_splits if_splits)
  moreover from this have "take 20 p = [p ! 0, p ! 1, p ! 2, p ! 3, p ! 4, p ! 5, p ! 6, p ! 7, p ! 8, p ! 9,
      p ! 10, p ! 11, p ! 12, p ! 13, p ! 14, p ! 15, p ! 16, p ! 17, p ! 18, p ! 19]"
    by (auto simp: eval_nat_numeral Suc_le_length_iff)
  moreover have "\<dots> = ipv4_header_bytes h"
    using f(1,2,6,7) f(3,4,5,8) [THEN half_at_half_bytes] f(9,10) [THEN word_at_word_bytes_inv]
    by (simp add: ipv4_header_bytes_def rd_Some_iff)
  ultimately have "p = ipv4_header_bytes h @ drop 20 p" by (metis append_take_drop_id)
  then show "\<exists>r. p = ipv4_header_bytes h @ r" ..
qed auto

section \<open>The IP header checksum\<close>

text \<open>The header has at least the five words of the struct.\<close>

definition header_fits :: "ipv4_header \<Rightarrow> u8 list \<Rightarrow> bool" where
  "header_fits h pkt \<longleftrightarrow> 20 \<le> TIPv4Header_getHeaderLength h \<and> TIPv4Header_getHeaderLength h \<le> length pkt"

lemma even_header_length [simp]: "even (TIPv4Header_getHeaderLength h)"
  by (simp add: TIPv4Header_getHeaderLength_def)

lemma header_length_le: "TIPv4Header_getHeaderLength h \<le> 60"
proof -
  have "vhl h AND 0x0f \<le> 0x0f" by (rule word_and_le1)
  then have "unat (vhl h AND 0x0f) \<le> 15" by (simp add: word_le_nat_alt)
  then show ?thesis by (simp add: TIPv4Header_getHeaderLength_def)
qed

lemma header_length_cong [simp]:
  "TIPv4Header_getHeaderLength (h\<lparr>ipchksum := c\<rparr>) = TIPv4Header_getHeaderLength h"
  by (simp add: TIPv4Header_getHeaderLength_def)

lemma make_ip_checksum:
  assumes "ipv4_header_at pkt = Some h" "TIPv4Header_getHeaderLength h \<le> length pkt"
  shows "TIPv4Header_makeIpChecksum pkt =
    Some (finish_chksum (chksum_loop 0 (take (TIPv4Header_getHeaderLength h) pkt)))"
  using assms by (simp add: TIPv4Header_makeIpChecksum_def uip_chksum_def)

lemma ip_checksum_iff:
  assumes "ipv4_header_at pkt = Some h" "TIPv4Header_getHeaderLength h \<le> length pkt"
  shows "TIPv4Header_isCorrectIpCheckSum pkt =
    Some (65535 dvd be_sum (take (TIPv4Header_getHeaderLength h) pkt))"
  using assms by (simp add: TIPv4Header_isCorrectIpCheckSum_def make_ip_checksum finish_chksum_loop)

text \<open>Bytes of a block around an aligned word of it.\<close>

lemma htons_0 [simp]: "htons 0 = 0"
  by (simp add: TUInt16_bswap_def TUInt16_BSWAP_def)

lemma be_sum_around:
  "even (length xs) \<Longrightarrow> be_sum (xs @ half_bytes w @ ys) = be_sum (xs @ half_bytes 0 @ ys) + unat (htons w)"
  using be_sum_half [of "htons w"] be_sum_half [of 0] by (simp add: be_sum_append)

lemma take_around:
  "length xs + 2 \<le> n \<Longrightarrow> take n (xs @ half_bytes w @ ys) = xs @ half_bytes w @ take (n - length xs - 2) ys"
  by (simp add: half_bytes_def take_Cons' numeral_2_eq_2)

lemma htons_NOT: "htons (NOT w) = NOT (htons w)"
proof (rule bit_word_eqI)
  fix k :: nat
  assume "k < LENGTH(16)"
  then have k: "k < 16" by simp
  then have "k < 32" by simp
  then show "bit (htons (NOT w)) k = bit (NOT (htons w)) k"
  proof (rule bit_in_byte)
    fix i :: nat
    assume i: "i < 8" and "k = i \<or> k = i + 8 \<or> k = i + 16 \<or> k = i + 24"
    with k have "k = i \<or> k = i + 8" by auto
    with i show ?thesis by (auto simp: TUInt16_bswap_def bit_TUInt16_BSWAP bit_not_iff)
  qed
qed

text \<open>The complement of a checksum, stored in the block, brings the sum to zero.\<close>

lemma unat_NOT_u16: "unat (NOT (s :: u16)) = 65535 - unat s"
proof -
  have m: "(0xffff :: u16) = - 1" by simp
  have "NOT s = 0xffff - s" unfolding m by (simp add: not_eq_complement)
  moreover have "unat s \<le> 65535" using unat_u16_less [of s] by linarith
  ultimately show ?thesis using unat_sub_le [of s "0xffff"] by (simp add: word_le_nat_alt)
qed

lemma dvd_add_cong: "a mod m = b mod m \<Longrightarrow> m dvd a + c \<longleftrightarrow> m dvd b + c" for a b c m :: nat
  by (metis dvd_eq_mod_eq_0 mod_add_left_eq)

lemma NOT_max_u16: "NOT (0xffff :: u16) = 0"
  by code_simp

lemma chksum_complement: "65535 dvd unat s + unat (htons (NOT (finish_chksum s)))"
proof (cases "s = 0")
  case False
  then have "htons (NOT (finish_chksum s)) = NOT s" by (simp add: finish_chksum_def htons_NOT)
  moreover have "unat s \<le> 65535" using unat_u16_less [of s] by linarith
  ultimately show ?thesis by (simp add: unat_NOT_u16)
qed (simp only: finish_chksum_def NOT_max_u16 htons_0 unat_0 simp_thms if_True add_0 dvd_0_right)

lemma ipv4_header_bytes_chksum:
  obtains xs ys where "length xs = 10" "length ys = 8"
    "\<And>w. ipv4_header_bytes (h\<lparr>ipchksum := w\<rparr>) = xs @ half_bytes w @ ys"
proof (rule that)
  show "ipv4_header_bytes (h\<lparr>ipchksum := w\<rparr>) = ([vhl h, tos h] @ half_bytes (len16 h) @ half_bytes (ipid16 h) @
     half_bytes (ipoffset h) @ [ttl h, proto h]) @ half_bytes w @ (word_bytes (srcipaddr h) @ word_bytes (destipaddr h))" for w
    by (simp add: ipv4_header_bytes_def)
qed simp_all

lemma ipv4_header_at_total:
  assumes "20 \<le> length p"
  shows "\<exists>h. ipv4_header_at p = Some h \<and> vhl h = p ! 0"
  using assms by (cases p) (auto simp: ipv4_header_at_def rd_def half_at_def word_at_def)

lemma ip_checksum_accepted:
  assumes "header_fits h (ipv4_header_bytes h @ r)" "ipchksum h = 0"
    "TIPv4Header_makeIpChecksum (ipv4_header_bytes h @ r) = Some c"
  shows "TIPv4Header_isCorrectIpCheckSum (ipv4_header_bytes (h\<lparr>ipchksum := NOT c\<rparr>) @ r) = Some True"
proof -
  let ?n = "TIPv4Header_getHeaderLength h"
  obtain xs ys where b: "length xs = 10" "length ys = 8"
    "\<And>w. ipv4_header_bytes (h\<lparr>ipchksum := w\<rparr>) = xs @ half_bytes w @ ys"
    using ipv4_header_bytes_chksum [of h] by blast
  have n: "20 \<le> ?n" "?n \<le> 20 + length r" using assms(1) by (simp_all add: header_fits_def)
  let ?b = "\<lambda>w. xs @ half_bytes w @ take (?n - 12) (ys @ r)"
  have p: "take ?n (ipv4_header_bytes (h\<lparr>ipchksum := w\<rparr>) @ r) = ?b w" for w
    using take_around [of xs ?n w "ys @ r"] b(1) n(1) by (simp add: b(3))
  have "h\<lparr>ipchksum := 0\<rparr> = h" using assms(2) by (cases h) simp
  then have "take ?n (ipv4_header_bytes h @ r) = ?b 0" using p [of 0] by simp
  then have c: "c = finish_chksum (chksum_loop 0 (?b 0))"
    using assms(3) n(2) make_ip_checksum [of "ipv4_header_bytes h @ r" h] by simp
  have "be_sum (?b (NOT c)) = be_sum (?b 0) + unat (htons (NOT c))"
    using be_sum_around [of xs "NOT c"] b(1) by simp
  moreover have "65535 dvd be_sum (?b 0) + unat (htons (NOT c))"
    using chksum_complement [of "chksum_loop 0 (?b 0)"] dvd_add_cong [OF chksum_loop_mod [of 0 "?b 0"]]
    unfolding c by (simp only: unat_0 add_0)
  ultimately have "65535 dvd be_sum (?b (NOT c))" by (simp only:)
  then show ?thesis using n(2) p [of "NOT c"] by (simp add: ip_checksum_iff)
qed

text \<open>
  A sender stores the complement of the header sum, computed while the checksum field is
  zero; the receiver's test then accepts the header, whatever its options and field values are.
\<close>

theorem ip_checksum_roundtrip:
  assumes "header_fits h (ipv4_header_bytes h @ r)" "ipchksum h = 0"
    "TIPv4Header_makeIpChecksum (ipv4_header_bytes h @ r) = Some c"
  shows "TIPv4Header_isCorrectIpCheckSum (ipv4_header_bytes (h\<lparr>ipchksum := NOT c\<rparr>) @ r) = Some True"
  by (rule ip_checksum_accepted [OF assms])

definition demo_header :: ipv4_header where
  "demo_header = \<lparr>vhl = 0x45, tos = 0, len16 = 0x1800, ipid16 = 0x3939, ipoffset = 0, ttl = 64, proto = 6,
     ipchksum = 0, srcipaddr = 0x0100a8c0, destipaddr = 0x0200a8c0\<rparr>"

theorem ip_checksum_roundtrip_witness:
  "\<exists>c. TIPv4Header_makeIpChecksum (ipv4_header_bytes demo_header @ [1, 2, 3, 4]) = Some c \<and>
    TIPv4Header_isCorrectIpCheckSum (ipv4_header_bytes (demo_header\<lparr>ipchksum := NOT c\<rparr>) @ [1, 2, 3, 4]) = Some True"
proof -
  have f: "header_fits demo_header (ipv4_header_bytes demo_header @ [1, 2, 3, 4])"
    by (simp add: header_fits_def TIPv4Header_getHeaderLength_def demo_header_def)
  then obtain c where c: "TIPv4Header_makeIpChecksum (ipv4_header_bytes demo_header @ [1, 2, 3, 4]) = Some c"
    by (simp add: make_ip_checksum header_fits_def)
  moreover have "ipchksum demo_header = 0" by (simp add: demo_header_def)
  ultimately show ?thesis using ip_checksum_roundtrip [OF f _ c] by blast
qed

lemma ip_checksum_around:
  assumes "ipv4_header_at (xs @ half_bytes w @ ys) = Some h"
    "TIPv4Header_getHeaderLength h \<le> length (xs @ half_bytes w @ ys)"
    "even (length xs)" "length xs + 2 \<le> TIPv4Header_getHeaderLength h"
  shows "TIPv4Header_isCorrectIpCheckSum (xs @ half_bytes w @ ys) =
    Some (65535 dvd be_sum (xs @ half_bytes 0 @ take (TIPv4Header_getHeaderLength h - length xs - 2) ys) + unat (htons w))"
  unfolding ip_checksum_iff [OF assms(1,2)] take_around [OF assms(4)]
  by (subst be_sum_around [OF assms(3)]) (rule refl)

lemma mod_eq_of_dvd: "m dvd s + a \<Longrightarrow> m dvd s + b \<Longrightarrow> a mod m = b mod m" for a b m s :: nat
proof -
  assume "m dvd s + a" "m dvd s + b"
  then have "int m dvd int (s + a) - int (s + b)" by (intro dvd_diff) (simp_all only: int_dvd_int_iff)
  then have "int a mod int m = int b mod int m" by (simp add: mod_eq_dvd_iff)
  then show "a mod m = b mod m" by (simp flip: zmod_int)
qed

lemma unat_mod_max: "unat (x :: u16) mod 65535 = (if x = 0xffff then 0 else unat x)"
proof (cases "x = 0xffff")
  case False
  then have "unat x < 65535" using unat_u16_less [of x] u16_max [of x] by linarith
  with False show ?thesis by simp
qed simp

lemma unat_mod_eqD:
  "unat x mod 65535 = unat y mod 65535 \<Longrightarrow> x \<noteq> y \<Longrightarrow> x = 0 \<and> y = 0xffff \<or> x = 0xffff \<and> y = (0 :: u16)"
  by (cases "x = 0xffff"; cases "y = 0xffff") (simp_all add: unat_mod_max unat_eq_0 flip: word_unat_eq_iff)

lemma htons_eq_iff: "htons x = y \<longleftrightarrow> x = htons y"
  by (metis TUInt16_bswap_invol)

text \<open>
  The header test detects every change of a single aligned 16-bit word of the header behind
  its first word, but for the change between the two representations of zero.
\<close>

theorem ip_checksum_detects:
  assumes "TIPv4Header_isCorrectIpCheckSum (xs @ half_bytes w @ ys) = Some True"
    "ipv4_header_at (xs @ half_bytes w @ ys) = Some h" "header_fits h (xs @ half_bytes w @ ys)"
    "2 \<le> length xs" "even (length xs)" "length xs + 2 \<le> TIPv4Header_getHeaderLength h"
    "w' \<noteq> w" "{w, w'} \<noteq> {0, 0xffff}"
  shows "TIPv4Header_isCorrectIpCheckSum (xs @ half_bytes w' @ ys) = Some False"
proof -
  let ?n = "TIPv4Header_getHeaderLength h" and ?p = "\<lambda>w. xs @ half_bytes w @ ys"
  have n: "20 \<le> ?n" "?n \<le> length xs + 2 + length ys" using assms(3) by (simp_all add: header_fits_def)
  then have "20 \<le> length (?p w')" by simp
  from ipv4_header_at_total [OF this] obtain h' where h': "ipv4_header_at (?p w') = Some h'" "vhl h' = ?p w' ! 0"
    by blast
  have "?p w' ! 0 = xs ! 0" using assms(4) by (cases xs) simp_all
  also have "\<dots> = vhl h"
    using assms(2,4) by (cases xs) (auto simp: ipv4_header_at_def rd_def split: Option.bind_splits)
  finally have n': "TIPv4Header_getHeaderLength h' = ?n"
    using h'(2) by (simp add: TIPv4Header_getHeaderLength_def)
  let ?s = "be_sum (xs @ half_bytes 0 @ take (?n - length xs - 2) ys)"
  have "65535 dvd ?s + unat (htons w)"
    using assms(1) ip_checksum_around [OF assms(2) _ assms(5,6)] n by simp
  moreover have "htons w \<noteq> htons w'" using assms(7) by (simp add: htons_eq_iff)
  from unat_mod_eqD [OF _ this] have "unat (htons w) mod 65535 \<noteq> unat (htons w') mod 65535"
    using assms(8) by (auto simp: htons_eq_iff htons_max)
  ultimately have "\<not> 65535 dvd ?s + unat (htons w')" using mod_eq_of_dvd by blast
  then show ?thesis using ip_checksum_around [OF h'(1) _ assms(5)] n assms(6) by (simp add: n')
qed

theorem ip_checksum_detects_witness:
  "TIPv4Header_isCorrectIpCheckSum ([0x45, 0] @ half_bytes 0x1500 @ [0, 0, 0, 0, 64, 1, 0xf9, 0x95, 192, 168, 0, 1, 192, 168, 0, 2]) = Some False"
proof -
  let ?ys = "[0, 0, 0, 0, 64, 1, 0xf9, 0x95, 192, 168, 0, 1, 192, 168, 0, 2] :: u8 list"
  have "TIPv4Header_isCorrectIpCheckSum ([0x45, 0] @ half_bytes 0x1400 @ ?ys) = Some True" by code_simp
  moreover obtain h where h: "ipv4_header_at ([0x45, 0] @ half_bytes 0x1400 @ ?ys) = Some h" "vhl h = 0x45"
    using ipv4_header_at_total [of "[0x45, 0] @ half_bytes 0x1400 @ ?ys"] by auto
  moreover from h(2) have "TIPv4Header_getHeaderLength h = 20" by (simp add: TIPv4Header_getHeaderLength_def)
  ultimately show ?thesis using ip_checksum_detects [of "[0x45, 0]" "0x1400" ?ys h "0x1500"]
    by (simp add: header_fits_def doubleton_eq_iff)
qed

section \<open>The TCP and UDP checksum\<close>

definition seg_len :: "ipv4_header \<Rightarrow> u16" where
  "seg_len h = ntohs (len16 h) - of_nat (TIPv4Header_getHeaderLength h)"

lemma make_tcp_checksum:
  assumes "ipv4_header_at pkt = Some h" "TIPv4Header_getHeaderLength h + unat (seg_len h) \<le> length pkt"
  shows "TIPv4Header_makeTcpChecksum pkt = Some (finish_chksum
    (chksum_loop (chksum_loop (seg_len h + ucast (proto h)) (take 8 (drop 12 pkt)))
      (take (unat (seg_len h)) (drop (TIPv4Header_getHeaderLength h) pkt))))"
proof -
  obtain r where "pkt = ipv4_header_bytes h @ r" using assms(1) by (auto simp: ipv4_header_at_iff)
  then have "20 \<le> length pkt" by simp
  then show ?thesis using assms
    by (simp add: TIPv4Header_makeTcpChecksum_def uip_chksum_def seg_len_def Let_def)
qed

lemma ipv4_header_at_cong:
  assumes "ipv4_header_at (hs @ zs) = Some h" "20 \<le> length hs"
  shows "ipv4_header_at (hs @ zs') = Some h" "drop 12 (hs @ zs) = drop 12 hs @ zs"
proof -
  obtain r where "hs @ zs = ipv4_header_bytes h @ r" using assms(1) by (auto simp: ipv4_header_at_iff)
  then have "take 20 hs = ipv4_header_bytes h" using assms(2) by (metis append_eq_append_conv_if length_ipv4_header_bytes)
  then have "hs @ zs' = ipv4_header_bytes h @ (drop 20 hs @ zs')" by (metis append_assoc append_take_drop_id)
  then show "ipv4_header_at (hs @ zs') = Some h" by (subst ipv4_header_at_iff) (rule exI)
qed (use assms(2) in simp)

lemma tcp_checksum_accepted:
  assumes "ipv4_header_at (hs @ xs @ half_bytes 0 @ ys) = Some h"
    "length hs = TIPv4Header_getHeaderLength h" "20 \<le> length hs"
    "even (length xs)" "length xs + 2 \<le> unat (seg_len h)" "unat (seg_len h) \<le> length xs + 2 + length ys"
    "TIPv4Header_makeTcpChecksum (hs @ xs @ half_bytes 0 @ ys) = Some c"
  shows "cIPv4Packet_isCorrectTcpCheckSum (hs @ xs @ half_bytes (NOT c) @ ys) = Some True"
proof -
  let ?p = "\<lambda>w. hs @ xs @ half_bytes w @ ys" and ?n = "unat (seg_len h)"
  let ?s = "chksum_loop (seg_len h + ucast (proto h)) (take 8 (drop 12 hs))"
  let ?b = "\<lambda>w. xs @ half_bytes w @ take (?n - length xs - 2) ys"
  have h: "ipv4_header_at (?p w) = Some h" for w by (rule ipv4_header_at_cong [OF assms(1,3)])
  have t: "take 8 (drop 12 (?p w)) = take 8 (drop 12 hs)" for w using assms(3) by simp
  have b: "take ?n (drop (TIPv4Header_getHeaderLength h) (?p w)) = ?b w" for w
    using take_around [OF assms(5), of w ys] assms(2) by simp
  have m: "TIPv4Header_makeTcpChecksum (?p w) = Some (finish_chksum (chksum_loop ?s (?b w)))" for w
    unfolding make_tcp_checksum [OF h, of w, unfolded length_append length_half_bytes,
        OF add_le_mono [OF eq_imp_le [OF assms(2) [symmetric]] assms(6), unfolded add.assoc]] t b ..
  have c: "c = finish_chksum (chksum_loop ?s (?b 0))" using assms(7) m [of 0] by simp
  have "65535 dvd unat ?s + be_sum (?b 0) + unat (htons (NOT c))"
    using chksum_complement [of "chksum_loop ?s (?b 0)"] dvd_add_cong [OF chksum_loop_mod [of ?s "?b 0"]]
    unfolding c by (simp only:)
  then have "65535 dvd unat ?s + be_sum (?b (NOT c))"
    using be_sum_around [OF assms(4), of "NOT c" "take (?n - length xs - 2) ys"] by (simp only: add.assoc)
  then show ?thesis
    unfolding cIPv4Packet_isCorrectTcpCheckSum_def m by (simp only: finish_chksum_loop option.map)
qed

text \<open>
  C9: The same for the checksum of TCP and UDP, which covers the addresses, the protocol, the
  length and the segment: storing its complement in a zeroed, aligned field of the segment makes
  the receiver's test succeed.
\<close>

theorem tcp_checksum_roundtrip:
  assumes "ipv4_header_at (hs @ xs @ half_bytes 0 @ ys) = Some h"
    "length hs = TIPv4Header_getHeaderLength h" "20 \<le> length hs"
    "even (length xs)" "length xs + 2 \<le> unat (seg_len h)" "unat (seg_len h) \<le> length xs + 2 + length ys"
    "TIPv4Header_makeTcpChecksum (hs @ xs @ half_bytes 0 @ ys) = Some c"
  shows "cIPv4Packet_isCorrectTcpCheckSum (hs @ xs @ half_bytes (NOT c) @ ys) = Some True"
  by (rule tcp_checksum_accepted [OF assms])

theorem tcp_checksum_roundtrip_witness:
  "\<exists>c. TIPv4Header_makeTcpChecksum (ipv4_header_bytes (demo_header\<lparr>proto := 17, len16 := 0x1e00\<rparr>) @
      [0, 80, 0, 81, 0, 10] @ half_bytes 0 @ [65, 66]) = Some c \<and>
    cIPv4Packet_isCorrectTcpCheckSum (ipv4_header_bytes (demo_header\<lparr>proto := 17, len16 := 0x1e00\<rparr>) @
      [0, 80, 0, 81, 0, 10] @ half_bytes (NOT c) @ [65, 66]) = Some True"
proof -
  let ?h = "demo_header\<lparr>proto := 17, len16 := 0x1e00\<rparr>"
  let ?p = "ipv4_header_bytes ?h @ [0, 80, 0, 81, 0, 10] @ half_bytes 0 @ [65, 66]"
  have l: "TIPv4Header_getHeaderLength ?h = 20" by (simp add: TIPv4Header_getHeaderLength_def demo_header_def)
  moreover have s: "unat (seg_len ?h) = 10" unfolding seg_len_def l by (simp add: TUInt16_bswap_def TUInt16_BSWAP_def)
  ultimately obtain c where "TIPv4Header_makeTcpChecksum ?p = Some c"
    using make_tcp_checksum [of ?p ?h] by simp
  with l s show ?thesis using tcp_checksum_roundtrip [of "ipv4_header_bytes ?h" "[0, 80, 0, 81, 0, 10]" "[65, 66]" ?h c] by auto
qed

section \<open>TCP options\<close>

text \<open>
  C19: A no-operation option that the walk meets before the option it looks for stops it for good:
  the loop continues without advancing, so no number of turns is enough.
\<close>

theorem tcp_opt_noop_loops:
  assumes "6 * 16 \<le> unat (tcpoffset h AND 0xf0)" "i_opt_id \<noteq> TCP_OPT_NOOP"
  shows "TTcpHeader_getTcpOptFragmentPtr fuel h (TCP_OPT_NOOP # opts) i_opt_id = None"
proof -
  have "0x60 \<le> tcpoffset h AND 0xf0" using assms(1) by (simp add: word_le_nat_alt)
  then have *: "0x50 < tcpoffset h AND 0xf0" by (rule less_le_trans [rotated]) simp
  have "opt_loop fuel (TCP_OPT_NOOP # opts) i_opt_id limit 0 = None" if "0 < limit" for limit
    using that assms(2) by (induction fuel) (simp_all add: rd_def)
  moreover have "0 < (unat (drop_bit 4 (tcpoffset h)) - 5) * 4"
  proof -
    have "unat (tcpoffset h AND 0xf0) \<le> unat (tcpoffset h)" by (simp add: word_and_le2 flip: word_le_nat_alt)
    then have "96 \<le> unat (tcpoffset h)" using assms(1) by linarith
    moreover have "unat (drop_bit 4 (tcpoffset h)) = unat (tcpoffset h) div 16"
      by (simp add: drop_bit_eq_div unat_div_distrib)
    ultimately show ?thesis by simp
  qed
  ultimately show ?thesis using * by (simp add: TTcpHeader_getTcpOptFragmentPtr_def)
qed

theorem tcp_opt_noop_loops_witness:
  "TTcpHeader_getTcpOptFragmentPtr 1000 \<lparr>srcport = 1, destport = 2, seqno32 = 0, ackno32 = 0, tcpoffset = 0x60,
     tcp_flags = 2, wnd16 = 0, tcpchksum = 0, urgp = [0, 0]\<rparr> (TCP_OPT_NOOP # [1, 1, 0]) TCP_OPT_MSS = None"
  by (rule tcp_opt_noop_loops) simp_all

text \<open>
  The options have at most 40 bytes, so 41 turns are enough: a walk that needs more has met a
  no-operation and never ends.
\<close>

lemma opt_loop_noop:
  "c < limit \<Longrightarrow> rd opt_buf c = Some TCP_OPT_NOOP \<Longrightarrow> i_opt_id \<noteq> TCP_OPT_NOOP \<Longrightarrow>
    opt_loop k opt_buf i_opt_id limit c = None"
  by (induction k) simp_all

lemma opt_loop_diverges:
  "opt_loop fuel opt_buf i_opt_id limit c = None \<Longrightarrow> limit - c < fuel \<Longrightarrow> opt_loop k opt_buf i_opt_id limit c = None"
proof (induction fuel opt_buf i_opt_id limit c arbitrary: k rule: opt_loop.induct)
  case (2 fuel opt_buf i_opt_id limit c)
  obtain opt where o: "c < limit" "rd opt_buf c = Some opt" "opt \<noteq> i_opt_id"
    using "2.prems"(1) by (auto split: if_splits option.splits)
  show ?case
  proof (cases "opt = TCP_OPT_NOOP")
    case True
    then show ?thesis using opt_loop_noop [OF o(1), of opt_buf i_opt_id k] o(2,3) by simp
  next
    case False
    then obtain l where l: "rd opt_buf (1 + c) = Some l" "l \<noteq> 0" "opt \<noteq> TCP_OPT_END"
      "opt_loop fuel opt_buf i_opt_id limit (c + unat l) = None"
      using "2.prems"(1) o by (auto split: if_splits option.splits)
    have "0 < unat l" using l(2) by (simp add: unat_gt_0)
    then have "limit - (c + unat l) < fuel" using "2.prems"(2) o(1) by linarith
    moreover have "\<not> \<not> c < limit" using o(1) by simp
    ultimately have "opt_loop j opt_buf i_opt_id limit (c + unat l) = None" for j
      using "2.IH"(2) [of opt l] o(2,3) False l by blast
    then show ?thesis using o l(1-3) False by (cases k) simp_all
  qed
qed simp

text \<open>Options as the walk can skip them: a kind that is neither of the special ones nor the one
  looked for, and a length that covers the kind and the length byte.\<close>

definition skippable :: "u8 \<Rightarrow> u8 list \<Rightarrow> bool" where
  "skippable i_opt_id opt \<longleftrightarrow> 2 \<le> length opt \<and> length opt < 256 \<and> opt ! 1 = of_nat (length opt) \<and>
     opt ! 0 \<notin> {i_opt_id, TCP_OPT_END, TCP_OPT_NOOP}"

lemma opt_loop_skip:
  assumes "skippable i_opt_id opt" "length pre < limit"
  shows "opt_loop (Suc fuel) (pre @ opt @ r) i_opt_id limit (length pre) =
    opt_loop fuel (pre @ opt @ r) i_opt_id limit (length pre + length opt)"
proof -
  have opt: "2 \<le> length opt" "length opt < 256" "opt ! 1 = of_nat (length opt)"
    "opt ! 0 \<noteq> i_opt_id" "opt ! 0 \<noteq> TCP_OPT_END" "opt ! 0 \<noteq> TCP_OPT_NOOP"
    using assms(1) by (auto simp: skippable_def)
  then have r: "rd (pre @ opt @ r) (length pre) = Some (opt ! 0)" "rd (pre @ opt @ r) (1 + length pre) = Some (opt ! 1)"
    by (auto simp: rd_def nth_append)
  have u: "unat (opt ! 1) = length opt" using opt(2,3) by (simp add: unat_of_nat)
  then have "opt ! 1 \<noteq> 0" using opt(1) by auto
  with r u opt(4-6) assms(2) show ?thesis by simp
qed

lemma opt_loop_skips:
  assumes "\<forall>x\<in>set os. skippable i_opt_id x" "length (pre @ concat os) < limit"
  shows "opt_loop (length os + fuel) (pre @ concat os @ r) i_opt_id limit (length pre) =
    opt_loop fuel (pre @ concat os @ r) i_opt_id limit (length (pre @ concat os))"
  using assms
proof (induction os arbitrary: pre)
  case (Cons x os)
  from Cons(2,3) show ?case
    using Cons(1) [of "pre @ x"] opt_loop_skip [of i_opt_id x pre limit "length os + fuel" "concat os @ r"] by simp
qed simp

text \<open>
  The segment size that \<open>NyLPC_TTcpHeader_setMmsOpt\<close> writes is what
  \<open>NyLPC_TTcpHeader_getTcpMmsOpt\<close> reads, also behind any other well-formed options that are not
  no-operations, and the walk ends: as many turns as options are enough.
\<close>

theorem mss_option_roundtrip:
  assumes "\<forall>x\<in>set os. skippable TCP_OPT_MSS x"
    "TTcpHeader_setMmsOpt opts (length (concat os)) mss = Some (concat os @ r)"
    "length (concat os) < (unat (drop_bit 4 (tcpoffset h)) - 5) * 4" "0x50 < tcpoffset h AND 0xf0"
    "length os < fuel"
  shows "TTcpHeader_getTcpMmsOpt fuel h (concat os @ r) = Some (Some (Some mss))"
proof -
  let ?k = "length (concat os)" and ?m = "[TCP_OPT_MSS, TCP_OPT_MSS_LEN, ucast (mss div 256), ucast (mss AND 255)]"
  obtain r' where r: "r = ?m @ r'"
    using assms(2) by (auto simp: TTcpHeader_setMmsOpt_def blit_Some_iff append_eq_append_conv_if)
  obtain f where f: "fuel = length os + Suc f" using assms(5) less_imp_Suc_add by force
  have "TTcpHeader_getTcpOptFragmentPtr fuel h (concat os @ r) TCP_OPT_MSS = Some (OptionAt ?k)"
    using assms(3,4) opt_loop_skips [OF assms(1), of "[]" _ "Suc f" r] unfolding f r
    by (simp add: TTcpHeader_getTcpOptFragmentPtr_def rd_def)
  moreover have "push_bit 8 (ucast (ucast (mss div 256) :: u8)) OR ucast (ucast (mss AND 255) :: u8) = mss"
  proof -
    have "mss div 256 = drop_bit 8 mss" by (simp add: drop_bit_eq_div)
    moreover have m: "(255 :: u16) = mask 8" by (simp add: mask_eq_exp_minus_1)
    have "(ucast (mss AND 255) :: u8) = ucast mss"
      unfolding m by (intro bit_word_eqI) (simp add: bit_simps)
    ultimately show ?thesis using half_value [of mss] by (simp only: or.commute)
  qed
  ultimately show ?thesis unfolding r by (simp add: TTcpHeader_getTcpMmsOpt_def rd_def nth_append)
qed

theorem mss_option_roundtrip_witness:
  "TTcpHeader_getTcpMmsOpt 2 \<lparr>srcport = 1, destport = 2, seqno32 = 0, ackno32 = 0, tcpoffset = 0x70,
     tcp_flags = 2, wnd16 = 0, tcpchksum = 0, urgp = [0, 0]\<rparr> (concat [[3, 4, 7, 0]] @ [2, 4, 5, 0xb4]) = Some (Some (Some 1460))"
proof -
  let ?h = "\<lparr>srcport = 1, destport = 2, seqno32 = 0, ackno32 = 0, tcpoffset = 0x70,
     tcp_flags = 2, wnd16 = 0, tcpchksum = 0, urgp = [0, 0]\<rparr> :: tcp_header"
  have "TTcpHeader_setMmsOpt [3, 4, 7, 0, 0, 0, 0, 0] (length (concat [[3 :: u8, 4, 7, 0]])) 1460 =
      Some (concat [[3, 4, 7, 0]] @ [2, 4, 5, 0xb4])" by code_simp
  moreover have "\<forall>x\<in>set [[3, 4, 7, 0 :: u8]]. skippable TCP_OPT_MSS x" by (simp add: skippable_def)
  moreover have "length (concat [[3 :: u8, 4, 7, 0]]) < (unat (drop_bit 4 (tcpoffset ?h)) - 5) * 4" by code_simp
  moreover have "0x50 < tcpoffset ?h AND 0xf0" by code_simp
  ultimately show ?thesis
    using mss_option_roundtrip [of "[[3, 4, 7, 0]]" "[3, 4, 7, 0, 0, 0, 0, 0]" 1460 "[2, 4, 5, 0xb4]" ?h 2] by simp
qed

section \<open>The text of an address\<close>

lemma num_value_append: "num_value b (s @ [c]) = b * num_value b s + ctox c"
  by (simp add: num_value_def)

lemma digit_of_nat: "d < 10 \<Longrightarrow> ctox (char_of (d + 48)) = d \<and> isdigit (char_of (d + 48))"
  by (simp add: ctox_def cchars)

lemma byte_text_value: "num_value 10 (byte_text v) = unat v \<and> list_all isdigit (byte_text v) \<and> length (byte_text v) \<le> 3"
proof -
  let ?n = "unat v"
  have "?n < 10 * 100" by (rule order.strict_trans [OF unat_u8_less]) simp
  moreover have "?n mod 100 < 10 * 10" by simp
  ultimately have d: "?n div 100 < 10" "?n mod 100 div 10 < 10" "?n mod 10 < 10"
    by (simp_all only: less_mult_imp_div_less mod_less_divisor zero_less_numeral)
  have u: "unat (v div 100) = ?n div 100" "unat (v mod 100 div 10) = ?n mod 100 div 10" "unat (v mod 10) = ?n mod 10"
    by (simp_all add: unat_div_distrib unat_mod_distrib)
  have 3: "100 * (?n div 100) + 10 * (?n mod 100 div 10) + ?n mod 10 = ?n"
  proof -
    have "?n mod 100 mod 10 = ?n mod 10" by (simp add: mod_mod_cancel)
    then show ?thesis using div_mult_mod_eq [of ?n 100] div_mult_mod_eq [of "?n mod 100" 10] by linarith
  qed
  then have 2: "10 * (?n mod 100 div 10) + ?n mod 10 = ?n" if "?n < 100" using that by simp
  consider "100 \<le> ?n" | "10 \<le> ?n" "?n < 100" | "?n < 10" by linarith
  then show ?thesis
  proof cases
    case 1
    then have "byte_text v = [char_of (?n div 100 + 48), char_of (?n mod 100 div 10 + 48), char_of (?n mod 10 + 48)]"
      by (simp add: byte_text_def u word_le_nat_alt)
    then show ?thesis using d 3 by (simp add: num_value_def digit_of_nat)
  next
    case 2
    then have "byte_text v = [char_of (?n mod 100 div 10 + 48), char_of (?n mod 10 + 48)]"
      by (simp add: byte_text_def u word_le_nat_alt)
    then show ?thesis using d \<open>?n < 100\<close> 3 by (simp add: num_value_def digit_of_nat)
  next
    case 3
    then have "byte_text v = [char_of (?n mod 10 + 48)]" by (simp add: byte_text_def u word_le_nat_alt)
    then show ?thesis using d \<open>?n < 10\<close> by (simp add: num_value_def digit_of_nat)
  qed
qed

lemma host_bytes:
  "map (\<lambda>l. ucast (drop_bit (8 * l) (ntohl ip) AND 0xff) :: u8) [3, 2, 1, 0] = word_bytes ip"
proof -
  have m: "(0xff :: u32) = mask 8" by (simp add: mask_eq_exp_minus_1)
  have "(ucast (drop_bit 24 (ntohl ip) AND 0xff) :: u8) = ucast ip"
    "(ucast (drop_bit 16 (ntohl ip) AND 0xff) :: u8) = ucast (drop_bit 8 ip)"
    "(ucast (drop_bit 8 (ntohl ip) AND 0xff) :: u8) = ucast (drop_bit 16 ip)"
    "(ucast (drop_bit 0 (ntohl ip) AND 0xff) :: u8) = ucast (drop_bit 24 ip)"
    unfolding m by (rule bit_word_eqI, simp add: bit_simps bit_TUInt32_bswap add.commute)+
  then show ?thesis by (simp add: word_bytes_def)
qed

text \<open>
  The text of an address is the four bytes in decimal, joined by dots, and at most 15
  characters long, so that a buffer of 16 bytes is enough; the returned length is that of the text.
\<close>

theorem addr_text:
  "\<exists>a b c d. TIPv4Addr_toString ip = (a @ ''.'' @ b @ ''.'' @ c @ ''.'' @ d, length (a @ ''.'' @ b @ ''.'' @ c @ ''.'' @ d)) \<and>
     list_all (\<lambda>s. list_all isdigit s) [a, b, c, d] \<and>
     map (num_value 10) [a, b, c, d] = map unat (word_bytes ip) \<and>
     snd (TIPv4Addr_toString ip) \<le> 15"
proof -
  define t where "t l = byte_text (ucast (drop_bit (8 * l) (ntohl ip) AND 0xff))" for l
  have "TIPv4Addr_toString ip = (t 3 @ ''.'' @ t 2 @ ''.'' @ t 1 @ ''.'' @ t 0,
      length (t 3 @ ''.'' @ t 2 @ ''.'' @ t 1 @ ''.'' @ t 0))"
    by (simp add: TIPv4Addr_toString_def Let_def numeral_eq_Suc t_def butlast_append)
  moreover have "map (num_value 10) [t 3, t 2, t 1, t 0] = map unat (word_bytes ip)"
    unfolding host_bytes [symmetric] by (simp add: t_def byte_text_value)
  moreover have "list_all isdigit (t l)" "length (t l) \<le> 3" for l by (simp_all add: t_def byte_text_value)
  moreover from this(2) [of 3] this(2) [of 2] this(2) [of 1] this(2) [of 0]
  have "length (t 3 @ ''.'' @ t 2 @ ''.'' @ t 1 @ ''.'' @ t 0) \<le> 15" by simp
  ultimately show ?thesis by (intro exI [of _ "t 3"] exI [of _ "t 2"] exI [of _ "t 1"] exI [of _ "t 0"]) simp
qed

end
