(* ===== verification/Arp.thy ===== *)
theory Arp
  imports IpTypes
begin

text \<open>
  \<open>NyLPC_cIPv4Config.c\<close>, the network configuration, and \<open>NyLPC_cIPv4Arp.c\<close>, the ARP module: a
  table of eight entries that maps IPv4 addresses to Ethernet addresses, filled by received
  packets, aged by a periodic call, and asked by the sender.

  The table is an instance of a contract for such caches (locale \<open>neighbour_cache\<close>): a look-up
  after an update finds the address stored, and nothing is ever found that was not put in.
\<close>

unbundle bit_operations_syntax

section \<open>The configuration\<close>

record ipv4_config =
  eth_mac :: eth_addr
  ip_addr :: ipv4_addr
  netmask :: ipv4_addr
  dr_addr :: ipv4_addr
  default_mss :: u16

definition cIPv4Config_initialzeForEthernet :: "ipv4_config \<Rightarrow> eth_addr \<Rightarrow> u16 \<Rightarrow> ipv4_config" where
  "cIPv4Config_initialzeForEthernet c i_ether_addr i_ether_frame_len =
     c\<lparr>ip_addr := TIPv4Addr_ZERO, netmask := TIPv4Addr_ZERO, dr_addr := TIPv4Addr_ZERO,
       eth_mac := i_ether_addr, default_mss := i_ether_frame_len - (14 + 20 + 20)\<rparr>"

definition cIPv4Config_initialzeCopy :: "ipv4_config \<Rightarrow> ipv4_config \<Rightarrow> ipv4_config" where
  "cIPv4Config_initialzeCopy c i_src = i_src"

definition cIPv4Config_setDefaultRoute :: "ipv4_config \<Rightarrow> ipv4_addr \<Rightarrow> ipv4_config" where
  "cIPv4Config_setDefaultRoute c i_dr_addr = c\<lparr>dr_addr := i_dr_addr\<rparr>"

definition cIPv4Config_setIp :: "ipv4_config \<Rightarrow> ipv4_addr \<Rightarrow> ipv4_addr \<Rightarrow> ipv4_config" where
  "cIPv4Config_setIp c i_ipaddr i_netmask = c\<lparr>ip_addr := i_ipaddr, netmask := i_netmask\<rparr>"

definition cIPv4Config_isLocalIP :: "ipv4_config \<Rightarrow> ipv4_addr \<Rightarrow> bool" where
  "cIPv4Config_isLocalIP c i_target_ip = TIPv4Addr_isEqualWithMask (ip_addr c) i_target_ip (netmask c)"

section \<open>The ARP table\<close>

abbreviation (input) "ARPTAB_SIZE \<equiv> (8 :: nat)"
abbreviation (input) "UIP_ARP_MAXAGE \<equiv> (120 :: int)"

record arp_item =
  ai_ipaddr :: ipv4_addr
  ai_ethaddr :: eth_addr
  ai_time :: u8

record arp =
  arp_cfg :: ipv4_config
  arptime :: u8
  tmpage :: u8
  arp_table :: "arp_item list"

text \<open>The initializer clears only the addresses of the entries.\<close>

definition cIPv4Arp_initialize :: "arp \<Rightarrow> ipv4_config \<Rightarrow> arp" where
  "cIPv4Arp_initialize a i_ref_config = a\<lparr>arp_cfg := i_ref_config, arptime := 0, tmpage := 0,
     arp_table := map (\<lambda>t. t\<lparr>ai_ipaddr := 0\<rparr>) (arp_table a)\<rparr>"

text \<open>C subtracts the two 8-bit times as \<open>int\<close>: the age of an entry can be negative.\<close>

definition age :: "u8 \<Rightarrow> arp_item \<Rightarrow> int" where
  "age now t = int (unat now) - int (unat (ai_time t))"

definition expire_item :: "u8 \<Rightarrow> arp_item \<Rightarrow> arp_item" where
  "expire_item now t =
     (if ai_ipaddr t \<noteq> 0 \<and> age now t \<ge> UIP_ARP_MAXAGE then t\<lparr>ai_ipaddr := 0\<rparr> else t)"

definition cIPv4Arp_periodic :: "arp \<Rightarrow> arp" where
  "cIPv4Arp_periodic a = (let now = arptime a + 1 in
     a\<lparr>arptime := now, arp_table := map (expire_item now) (arp_table a)\<rparr>)"

text \<open>The index of the first entry with a property, as the searching loops find it.\<close>

fun find_entry :: "(arp_item \<Rightarrow> bool) \<Rightarrow> arp_item list \<Rightarrow> nat option" where
  "find_entry P [] = None"
| "find_entry P (t # ts) = (if P t then Some 0 else map_option Suc (find_entry P ts))"

text \<open>The loop that looks for the oldest entry, from index \<open>i\<close> on.\<close>

fun oldest_loop :: "u8 \<Rightarrow> arp_item list \<Rightarrow> nat \<Rightarrow> u8 \<Rightarrow> nat \<Rightarrow> u8 \<times> nat" where
  "oldest_loop now [] i tmp c = (tmp, c)"
| "oldest_loop now (t # ts) i tmp c =
     (if age now t > int (unat tmp) then oldest_loop now ts (i + 1) (now - ai_time t) i
      else oldest_loop now ts (i + 1) tmp c)"

definition uip_arp_update :: "arp \<Rightarrow> ipv4_addr \<Rightarrow> eth_addr \<Rightarrow> arp" where
  "uip_arp_update a ipaddr ethaddr =
     (case find_entry (\<lambda>t. ai_ipaddr t \<noteq> 0 \<and> ipaddr = ai_ipaddr t) (arp_table a) of
        Some i \<Rightarrow> a\<lparr>arp_table := (arp_table a)[i := (arp_table a ! i)\<lparr>ai_ethaddr := ethaddr, ai_time := arptime a\<rparr>]\<rparr>
      | None \<Rightarrow>
          let (tmp, i) = (case find_entry (\<lambda>t. ai_ipaddr t = 0) (arp_table a) of
                            Some i \<Rightarrow> (tmpage a, i)
                          | None \<Rightarrow> oldest_loop (arptime a) (arp_table a) 0 0 0) in
          a\<lparr>tmpage := tmp,
            arp_table := (arp_table a)[i := \<lparr>ai_ipaddr = ipaddr, ai_ethaddr = ethaddr, ai_time = arptime a\<rparr>]\<rparr>)"

definition cIPv4Arp_incomingIp :: "arp \<Rightarrow> eth_header \<Rightarrow> ipv4_addr \<Rightarrow> arp" where
  "cIPv4Arp_incomingIp a i_eth i_ip_src =
     (if i_ip_src AND netmask (arp_cfg a) \<noteq> ip_addr (arp_cfg a) AND netmask (arp_cfg a) then a
      else uip_arp_update a i_ip_src (eth_src i_eth))"

text \<open>
  The answer packet is built in a transmit buffer, of which \<open>tx_eth\<close> is the old Ethernet header;
  every field of the ARP header is assigned. The result is the answer, its Ethernet header and
  the frame length, or none.
\<close>

definition cIPv4Arp_rx ::
  "arp \<Rightarrow> arp_header \<Rightarrow> u16 \<Rightarrow> eth_header \<Rightarrow> arp \<times> (arp_header \<times> eth_header \<times> u16) option" where
  "cIPv4Arp_rx a i_arp i_len tx_eth =
     (if i_len < 28 then (a, None)
      else if opcode i_arp = HTONS ARP_REQUEST then
        (if TIPv4Addr_isEqual (dipaddr i_arp) (ip_addr (arp_cfg a)) then
           let a = uip_arp_update a (sipaddr i_arp) (shwaddr i_arp);
               arp_tx = \<lparr>hwtype = hwtype i_arp, protocol = protocol i_arp, hwlen = hwlen i_arp,
                 protolen = protolen i_arp, opcode = HTONS 2, shwaddr = eth_mac (arp_cfg a),
                 sipaddr = ip_addr (arp_cfg a), dhwaddr = shwaddr i_arp, dipaddr = sipaddr i_arp\<rparr>;
               (e, n) = TEthernetIIHeader_setArpTx tx_eth arp_tx (eth_mac (arp_cfg a)) in
           (a, Some (arp_tx, e, n))
         else (a, None))
      else if opcode i_arp = HTONS ARP_REPLY then
        (if TIPv4Addr_isEqual (dipaddr i_arp) (ip_addr (arp_cfg a))
         then (uip_arp_update a (sipaddr i_arp) (shwaddr i_arp), None)
         else (a, None))
      else (a, None))"

text \<open>The look-up runs from the last entry to the first and does not skip unused entries.\<close>

definition cIPv4Arp_IPv4toEthAddr :: "arp \<Rightarrow> ipv4_addr \<Rightarrow> eth_addr option" where
  "cIPv4Arp_IPv4toEthAddr a i_ip_addr =
     map_option ai_ethaddr (find (\<lambda>t. TIPv4Addr_isEqual i_ip_addr (ai_ipaddr t)) (rev (arp_table a)))"

section \<open>The contract of a neighbour cache\<close>

locale neighbour_cache =
  fixes inv :: "'s \<Rightarrow> bool"
    and known :: "'s \<Rightarrow> 'ip \<Rightarrow> 'eth option"
    and learn :: "'s \<Rightarrow> 'ip \<Rightarrow> 'eth \<Rightarrow> 's"
    and valid :: "'ip \<Rightarrow> bool"
  assumes inv_learn: "inv s \<Longrightarrow> valid ip \<Longrightarrow> inv (learn s ip e)"
    and known_learn: "inv s \<Longrightarrow> valid ip \<Longrightarrow> known (learn s ip e) ip = Some e"
    and known_other: "inv s \<Longrightarrow> valid ip \<Longrightarrow> valid ip' \<Longrightarrow> ip' \<noteq> ip \<Longrightarrow>
      known (learn s ip e) ip' = Some e' \<Longrightarrow> known s ip' = Some e'"
begin

definition learn_all :: "'s \<Rightarrow> ('ip \<times> 'eth) list \<Rightarrow> 's" where
  "learn_all = foldl (\<lambda>s (ip, e). learn s ip e)"

lemma learn_all_inv: "inv s \<Longrightarrow> \<forall>(ip, e)\<in>set ps. valid ip \<Longrightarrow> inv (learn_all s ps)"
  by (induction ps arbitrary: s) (auto simp: learn_all_def inv_learn)

text \<open>What the cache answers is the last address learnt, or was there before.\<close>

lemma learn_all_sound:
  assumes "inv s" "\<forall>(ip, e)\<in>set ps. valid ip" "valid ip" "known (learn_all s ps) ip = Some e"
  shows "map_of (rev ps) ip = Some e \<or> map_of (rev ps) ip = None \<and> known s ip = Some e"
  using assms(2,4)
proof (induction ps rule: rev_induct)
  case (snoc p ps)
  obtain ip' e' where p: "p = (ip', e')" by (cases p)
  let ?s = "learn_all s ps"
  have i: "inv ?s" using snoc(2) assms(1) by (intro learn_all_inv) auto
  have l: "learn_all s (ps @ [(ip', e')]) = learn ?s ip' e'" by (simp add: learn_all_def)
  show ?case
  proof (cases "ip = ip'")
    case True
    then show ?thesis using known_learn [OF i] snoc(2,3) by (simp add: l p)
  next
    case False
    then have "known ?s ip = Some e" using known_other [OF i _ assms(3) False] snoc(2,3) by (simp add: l p)
    with snoc(1,2) False show ?thesis by (simp add: p)
  qed
qed (simp add: learn_all_def)

end

section \<open>The table as a cache\<close>

text \<open>The table has eight entries, and no address is in two of them.\<close>

definition arp_inv :: "arp \<Rightarrow> bool" where
  "arp_inv a \<longleftrightarrow> length (arp_table a) = ARPTAB_SIZE \<and>
     (\<forall>i<ARPTAB_SIZE. \<forall>j<ARPTAB_SIZE. ai_ipaddr (arp_table a ! i) \<noteq> 0 \<longrightarrow>
        ai_ipaddr (arp_table a ! i) = ai_ipaddr (arp_table a ! j) \<longrightarrow> i = j)"

lemma arp_initialize_inv: "length (arp_table a) = ARPTAB_SIZE \<Longrightarrow> arp_inv (cIPv4Arp_initialize a c)"
  by (simp add: arp_inv_def cIPv4Arp_initialize_def)

lemma find_entry_Some: "find_entry P ts = Some i \<Longrightarrow> i < length ts \<and> P (ts ! i)"
  by (induction ts arbitrary: i) (auto split: if_splits)

lemma find_entry_None: "find_entry P ts = None \<longleftrightarrow> (\<forall>t\<in>set ts. \<not> P t)"
  by (induction ts) auto

lemma oldest_loop_index: "oldest_loop now ts i tmp c = (tmp', k) \<Longrightarrow> k = c \<or> i \<le> k \<and> k < i + length ts"
  by (induction now ts i tmp c rule: oldest_loop.induct) (fastforce split: if_splits)+

text \<open>An update overwrites one entry: the one of the address if there is one.\<close>

lemma update_entry:
  assumes "arp_inv a"
  obtains i t tmp where "i < ARPTAB_SIZE" "uip_arp_update a ip e = a\<lparr>tmpage := tmp, arp_table := (arp_table a)[i := t]\<rparr>"
    "ai_ipaddr t = ip" "ai_ethaddr t = e" "ai_time t = arptime a"
    "ip \<noteq> 0 \<Longrightarrow> (\<forall>j<ARPTAB_SIZE. j \<noteq> i \<longrightarrow> ai_ipaddr (arp_table a ! j) \<noteq> ip)"
proof (cases "find_entry (\<lambda>t. ai_ipaddr t \<noteq> 0 \<and> ip = ai_ipaddr t) (arp_table a)")
  case (Some i)
  then have i: "i < ARPTAB_SIZE" "ai_ipaddr (arp_table a ! i) = ip" "ip \<noteq> 0"
    using find_entry_Some [OF Some] assms by (auto simp: arp_inv_def)
  with Some assms show ?thesis
    by (intro that [of i "(arp_table a ! i)\<lparr>ai_ethaddr := e, ai_time := arptime a\<rparr>" "tmpage a"]) (auto simp: uip_arp_update_def arp_inv_def)
next
  case None
  let ?x = "case find_entry (\<lambda>t. ai_ipaddr t = 0) (arp_table a) of
    Some i \<Rightarrow> (tmpage a, i) | None \<Rightarrow> oldest_loop (arptime a) (arp_table a) 0 0 0"
  obtain tmp i where x: "?x = (tmp, i)" by (cases ?x)
  then have "i < ARPTAB_SIZE"
    using assms find_entry_Some oldest_loop_index
    by (fastforce simp: arp_inv_def split: option.splits)
  moreover have "\<forall>j<ARPTAB_SIZE. ai_ipaddr (arp_table a ! j) \<noteq> ip" if "ip \<noteq> 0"
    using None that assms by (auto simp: find_entry_None arp_inv_def)
  ultimately show ?thesis
    using None x by (intro that [of i "\<lparr>ai_ipaddr = ip, ai_ethaddr = e, ai_time = arptime a\<rparr>" tmp]) (auto simp: uip_arp_update_def Let_def)
qed

lemma update_inv:
  assumes "arp_inv a"
  shows "arp_inv (uip_arp_update a ip e)"
proof -
  obtain i t tmp where u: "i < ARPTAB_SIZE" "uip_arp_update a ip e = a\<lparr>tmpage := tmp, arp_table := (arp_table a)[i := t]\<rparr>"
    "ai_ipaddr t = ip" "ip \<noteq> 0 \<Longrightarrow> (\<forall>j<ARPTAB_SIZE. j \<noteq> i \<longrightarrow> ai_ipaddr (arp_table a ! j) \<noteq> ip)"
    by (rule update_entry [OF assms, of ip e]) blast
  then show ?thesis using assms by (auto simp: arp_inv_def nth_list_update)
qed

lemma lookup_iff:
  assumes "arp_inv a" "ip \<noteq> 0"
  shows "cIPv4Arp_IPv4toEthAddr a ip = Some e \<longleftrightarrow>
    (\<exists>i<ARPTAB_SIZE. ai_ipaddr (arp_table a ! i) = ip \<and> ai_ethaddr (arp_table a ! i) = e)"
proof -
  let ?P = "\<lambda>t. ip = ai_ipaddr t"
  have u: "s = t" if "s \<in> set (arp_table a)" "t \<in> set (arp_table a)" "?P s" "?P t" for s t
    using that assms by (auto simp: arp_inv_def in_set_conv_nth)
  have s: "t \<in> set (arp_table a) \<and> ?P t \<longleftrightarrow> find ?P (rev (arp_table a)) = Some t" for t
  proof
    assume t: "t \<in> set (arp_table a) \<and> ?P t"
    then obtain t' where t': "find ?P (rev (arp_table a)) = Some t'"
      by (cases "find ?P (rev (arp_table a))") (auto simp: find_None_iff)
    then have "t' \<in> set (arp_table a)" "?P t'" by (auto simp: find_Some_iff) (metis length_rev nth_mem set_rev)
    with u t t' show "find ?P (rev (arp_table a)) = Some t" by blast
  next
    assume "find ?P (rev (arp_table a)) = Some t"
    then show "t \<in> set (arp_table a) \<and> ?P t" by (auto simp: find_Some_iff) (metis length_rev nth_mem set_rev)
  qed
  have "cIPv4Arp_IPv4toEthAddr a ip = Some e \<longleftrightarrow> (\<exists>t\<in>set (arp_table a). ?P t \<and> ai_ethaddr t = e)"
    by (auto simp: cIPv4Arp_IPv4toEthAddr_def TIPv4Addr_isEqual_def s simp flip: s)
  moreover have "(\<exists>t\<in>set (arp_table a). Q t) \<longleftrightarrow> (\<exists>i<ARPTAB_SIZE. Q (arp_table a ! i))" for Q
    using assms(1) by (metis arp_inv_def in_set_conv_nth)
  ultimately show ?thesis by auto
qed

interpretation arpc: neighbour_cache arp_inv cIPv4Arp_IPv4toEthAddr uip_arp_update "\<lambda>ip. ip \<noteq> 0"
proof
  fix s ip ip' e e'
  assume s: "arp_inv s" "ip \<noteq> (0 :: ipv4_addr)"
  obtain i t tmp where u: "i < ARPTAB_SIZE" "uip_arp_update s ip e = s\<lparr>tmpage := tmp, arp_table := (arp_table s)[i := t]\<rparr>"
    "ai_ipaddr t = ip" "ai_ethaddr t = e"
    by (rule update_entry [OF s(1), of ip e]) blast
  have l: "length (arp_table s) = ARPTAB_SIZE" using s(1) by (simp add: arp_inv_def)
  show "arp_inv (uip_arp_update s ip e)" by (rule update_inv) (rule s(1))
  from lookup_iff [OF this s(2)] show "cIPv4Arp_IPv4toEthAddr (uip_arp_update s ip e) ip = Some e"
    using u l by auto
  assume "ip' \<noteq> 0" "ip' \<noteq> ip" "cIPv4Arp_IPv4toEthAddr (uip_arp_update s ip e) ip' = Some e'"
  then show "cIPv4Arp_IPv4toEthAddr s ip' = Some e'"
    using lookup_iff [OF update_inv [OF s(1)], of ip' ip e e'] lookup_iff [OF s(1), of ip' e'] u l
    by (auto simp: nth_list_update split: if_splits)
qed

text \<open>
  C11: The table never invents an address: after any sequence of updates from packets, a look-up
  of an address gives the Ethernet address learnt last for it, or the one it gave before when
  nothing was learnt for it.
\<close>

theorem arp_lookup_sound:
  assumes "arp_inv a" "\<forall>(ip, e)\<in>set ps. ip \<noteq> 0" "ip \<noteq> 0"
    "cIPv4Arp_IPv4toEthAddr (foldl (\<lambda>a (ip, e). uip_arp_update a ip e) a ps) ip = Some e"
  shows "map_of (rev ps) ip = Some e \<or> map_of (rev ps) ip = None \<and> cIPv4Arp_IPv4toEthAddr a ip = Some e"
  using arpc.learn_all_sound [OF assms(1,2,3)] assms(4) by (simp add: arpc.learn_all_def)

definition demo_arp :: arp where
  "demo_arp = cIPv4Arp_initialize \<lparr>arp_cfg = \<lparr>eth_mac = [2, 0, 0, 0, 0, 1], ip_addr = 0x0100a8c0,
     netmask = 0x00ffffff, dr_addr = 0, default_mss = 1460\<rparr>, arptime = 0, tmpage = 0,
     arp_table = replicate 8 \<lparr>ai_ipaddr = 1, ai_ethaddr = replicate 6 0, ai_time = 0\<rparr>\<rparr>
     \<lparr>eth_mac = [2, 0, 0, 0, 0, 1], ip_addr = 0x0100a8c0, netmask = 0x00ffffff, dr_addr = 0, default_mss = 1460\<rparr>"

lemma demo_arp_inv: "arp_inv demo_arp"
  unfolding demo_arp_def by (rule arp_initialize_inv) simp

theorem arp_lookup_sound_witness:
  "cIPv4Arp_IPv4toEthAddr (foldl (\<lambda>a (ip, e). uip_arp_update a ip e) demo_arp
     [(0x0200a8c0, [1]), (0x0300a8c0, [2]), (0x0200a8c0, [3])]) 0x0200a8c0 = Some [3] \<and>
   map_of (rev [(0x0200a8c0 :: ipv4_addr, [1 :: u8]), (0x0300a8c0, [2]), (0x0200a8c0, [3])]) 0x0200a8c0 = Some [3]"
proof -
  let ?ps = "[(0x0200a8c0 :: ipv4_addr, [1 :: u8]), (0x0300a8c0, [2]), (0x0200a8c0, [3])]"
  have l: "cIPv4Arp_IPv4toEthAddr (foldl (\<lambda>a (ip, e). uip_arp_update a ip e) demo_arp ?ps) 0x0200a8c0 = Some [3]"
    by code_simp
  then show ?thesis using arp_lookup_sound [OF demo_arp_inv _ _ l] by simp
qed

section \<open>Reachable tables\<close>

text \<open>What can happen to the table once it is initialised: time passes, an IP or an ARP packet arrives.\<close>

inductive arp_step :: "arp \<Rightarrow> arp \<Rightarrow> bool" where
  step_periodic: "arp_step a (cIPv4Arp_periodic a)"
| step_ip: "arp_step a (cIPv4Arp_incomingIp a i_eth i_ip_src)"
| step_arp: "cIPv4Arp_rx a i_arp i_len tx_eth = (a', r) \<Longrightarrow> arp_step a a'"

inductive_cases arp_stepE: "arp_step a a'"

inductive arp_reach :: "arp \<Rightarrow> bool" where
  reach_init: "length (arp_table a) = ARPTAB_SIZE \<Longrightarrow> arp_reach (cIPv4Arp_initialize a c)"
| reach_step: "arp_reach a \<Longrightarrow> arp_step a a' \<Longrightarrow> arp_reach a'"

lemma periodic_inv: "arp_inv a \<Longrightarrow> arp_inv (cIPv4Arp_periodic a)"
  by (auto simp: arp_inv_def cIPv4Arp_periodic_def expire_item_def Let_def split: if_splits)

lemma rx_table:
  assumes "cIPv4Arp_rx a i_arp i_len tx_eth = (a', r)"
  shows "a' = a \<or> a' = uip_arp_update a (sipaddr i_arp) (shwaddr i_arp)"
  using assms by (auto simp: cIPv4Arp_rx_def Let_def split: if_splits prod.splits)

lemma step_inv: "arp_step a a' \<Longrightarrow> arp_inv a \<Longrightarrow> arp_inv a'"
  by (erule arp_stepE) (auto simp: periodic_inv cIPv4Arp_incomingIp_def update_inv dest: rx_table)

text \<open>
  C10: In every state that the ARP module can reach from its initialisation, the table has its
  eight entries and no address is in two of them.
\<close>

theorem arp_reachable_inv:
  assumes "arp_reach a"
  shows "arp_inv a"
  using assms by (induction) (auto intro: arp_initialize_inv step_inv)

theorem arp_reachable_inv_witness:
  "arp_inv (cIPv4Arp_periodic demo_arp)"
proof -
  have "arp_reach demo_arp" unfolding demo_arp_def by (rule reach_init) simp
  then have "arp_reach (cIPv4Arp_periodic demo_arp)" by (rule reach_step) (rule step_periodic)
  then show ?thesis by (rule arp_reachable_inv)
qed

section \<open>Requests\<close>

lemma setArpTx_reply:
  "opcode arph = HTONS 2 \<Longrightarrow> TEthernetIIHeader_setArpTx e arph my =
     (e\<lparr>eth_type := HTONS ETH_TYPE_ARP, eth_src := my, eth_dest := dhwaddr arph\<rparr>, 42)"
  by (simp add: TEthernetIIHeader_setArpTx_def Let_def)

text \<open>
  A well-formed request for the module's own address is answered by a frame of 42 bytes that
  goes to the sender and names the module's Ethernet and IP address, and the sender is in the
  table afterwards; every other packet is not answered, and a packet that is too short changes
  nothing.
\<close>

theorem arp_request_answered:
  assumes "arp_inv a" "sipaddr i_arp \<noteq> 0"
  shows "(28 \<le> i_len \<and> opcode i_arp = HTONS ARP_REQUEST \<and> dipaddr i_arp = ip_addr (arp_cfg a) \<longrightarrow>
      (\<exists>a' tx e. cIPv4Arp_rx a i_arp i_len tx_eth = (a', Some (tx, e, 42)) \<and>
         cIPv4Arp_IPv4toEthAddr a' (sipaddr i_arp) = Some (shwaddr i_arp) \<and>
         opcode tx = HTONS ARP_REPLY \<and> shwaddr tx = eth_mac (arp_cfg a) \<and> sipaddr tx = ip_addr (arp_cfg a) \<and>
         dhwaddr tx = shwaddr i_arp \<and> dipaddr tx = sipaddr i_arp \<and>
         eth_dest e = shwaddr i_arp \<and> eth_src e = eth_mac (arp_cfg a) \<and> eth_type e = HTONS ETH_TYPE_ARP)) \<and>
    (\<not> (28 \<le> i_len \<and> opcode i_arp = HTONS ARP_REQUEST \<and> dipaddr i_arp = ip_addr (arp_cfg a)) \<longrightarrow>
      snd (cIPv4Arp_rx a i_arp i_len tx_eth) = None) \<and>
    (i_len < 28 \<longrightarrow> cIPv4Arp_rx a i_arp i_len tx_eth = (a, None))"
proof -
  have "arp_cfg (uip_arp_update a ip e) = arp_cfg a" for ip e
    by (rule update_entry [OF assms(1), of ip e]) simp
  then show ?thesis
    using arpc.known_learn [OF assms] setArpTx_reply
    by (auto simp: cIPv4Arp_rx_def Let_def not_less TIPv4Addr_isEqual_def)
qed

theorem arp_request_answered_witness:
  "\<exists>tx e. snd (cIPv4Arp_rx demo_arp \<lparr>hwtype = 0x100, protocol = 8, hwlen = 6, protolen = 4, opcode = HTONS 1,
      shwaddr = [1, 2, 3, 4, 5, 6], sipaddr = 0x0200a8c0, dhwaddr = replicate 6 0, dipaddr = 0x0100a8c0\<rparr> 28
      \<lparr>eth_dest = [], eth_src = [], eth_type = 0\<rparr>) = Some (tx, e, 42) \<and> eth_dest e = [1, 2, 3, 4, 5, 6]"
  using arp_request_answered [OF demo_arp_inv, of "\<lparr>hwtype = 0x100, protocol = 8, hwlen = 6, protolen = 4,
    opcode = HTONS 1, shwaddr = [1, 2, 3, 4, 5, 6], sipaddr = 0x0200a8c0, dhwaddr = replicate 6 0,
    dipaddr = 0x0100a8c0\<rparr>" 28 "\<lparr>eth_dest = [], eth_src = [], eth_type = 0\<rparr>"]
  by (auto simp: demo_arp_def cIPv4Arp_initialize_def)

section \<open>Ageing\<close>

lemma periodic_table: "arp_table (cIPv4Arp_periodic a) = map (expire_item (arptime a + 1)) (arp_table a)"
  "arptime (cIPv4Arp_periodic a) = arptime a + 1"
  by (simp_all add: cIPv4Arp_periodic_def Let_def)




text \<open>
  An entry that is stored while the clock shows 136 or more is never dropped by the periodic
  call, however long the module runs: the difference of the two 8-bit times is taken as a signed
  integer and cannot reach 120 any more once the clock has wrapped around.
\<close>

theorem arp_entry_never_expires:
  assumes "t \<in> set (arp_table a)" "136 \<le> unat (ai_time t)"
  shows "t \<in> set (arp_table ((cIPv4Arp_periodic ^^ n) a))"
proof (induction n)
  case (Suc n)
  have "age now t < 120" for now using assms(2) unat_u8_less [of now] unfolding age_def by linarith
  then have "expire_item now t = t" for now by (simp add: expire_item_def not_le)
  with Suc show ?case by (auto simp: periodic_table intro!: image_eqI [of t _ t])
qed (simp add: assms(1))

theorem arp_entry_never_expires_witness:
  "\<lparr>ai_ipaddr = 0x0200a8c0, ai_ethaddr = [1], ai_time = 136\<rparr> \<in>
     set (arp_table ((cIPv4Arp_periodic ^^ 10000) (uip_arp_update (demo_arp\<lparr>arptime := 136\<rparr>) 0x0200a8c0 [1])))"
proof (rule arp_entry_never_expires)
  show "\<lparr>ai_ipaddr = 0x0200a8c0, ai_ethaddr = [1], ai_time = 136\<rparr> \<in>
     set (arp_table (uip_arp_update (demo_arp\<lparr>arptime := 136\<rparr>) 0x0200a8c0 [1]))" by code_simp
qed simp

section \<open>Replacement\<close>

lemma oldest_loop_max:
  assumes "oldest_loop now ts i tmp c = (tmp', k)" "\<forall>t\<in>set ts. 0 \<le> age now t"
  shows "unat tmp \<le> unat tmp' \<and> (\<forall>t\<in>set ts. age now t \<le> int (unat tmp')) \<and>
    (k = c \<and> tmp' = tmp \<or> i \<le> k \<and> k < i + length ts \<and> age now (ts ! (k - i)) = int (unat tmp'))"
  using assms
proof (induction now ts i tmp c rule: oldest_loop.induct)
  case (2 now t ts i tmp c)
  show ?case
  proof (cases "age now t > int (unat tmp)")
    case True
    then have le: "unat (ai_time t) \<le> unat now" unfolding age_def by linarith
    then have "unat (now - ai_time t) = unat now - unat (ai_time t)" by (simp add: unat_sub_le word_le_nat_alt)
    then have "int (unat (now - ai_time t)) = age now t" using le unfolding age_def by linarith
    moreover have "unat (now - ai_time t) \<le> unat tmp' \<and> (\<forall>t\<in>set ts. age now t \<le> int (unat tmp')) \<and>
        (k = i \<and> tmp' = now - ai_time t \<or> i + 1 \<le> k \<and> k < i + 1 + length ts \<and> age now (ts ! (k - (i + 1))) = int (unat tmp'))"
      using 2(1) [OF True] 2(3,4) True by simp
    ultimately show ?thesis using True by (auto simp: nth_Cons' simp del: of_nat_unat)
  next
    case False
    moreover have "unat tmp \<le> unat tmp' \<and> (\<forall>t\<in>set ts. age now t \<le> int (unat tmp')) \<and>
        (k = c \<and> tmp' = tmp \<or> i + 1 \<le> k \<and> k < i + 1 + length ts \<and> age now (ts ! (k - (i + 1))) = int (unat tmp'))"
      using 2(2) [OF False] 2(3,4) False by simp
    ultimately show ?thesis by (auto simp: nth_Cons' simp del: of_nat_unat)
  qed
qed auto

text \<open>
  When the table is full and the clock has not wrapped around since its entries were stored,
  a new address replaces an entry of the greatest age, and all others stay.
\<close>

theorem arp_evicts_oldest:
  assumes "arp_inv a" "ip \<noteq> 0" "\<forall>t\<in>set (arp_table a). ai_ipaddr t \<notin> {0, ip} \<and> ai_time t \<le> arptime a"
  shows "\<exists>i<ARPTAB_SIZE. arp_table (uip_arp_update a ip e) =
      (arp_table a)[i := \<lparr>ai_ipaddr = ip, ai_ethaddr = e, ai_time = arptime a\<rparr>] \<and>
    (\<forall>t\<in>set (arp_table a). age (arptime a) t \<le> age (arptime a) (arp_table a ! i))"
proof -
  let ?ts = "arp_table a" and ?now = "arptime a"
  obtain tmp i where o: "oldest_loop ?now ?ts 0 0 0 = (tmp, i)" by fastforce
  have l: "length ?ts = 8" using assms(1) by (simp add: arp_inv_def)
  have n: "\<forall>t\<in>set ?ts. 0 \<le> age ?now t"
  proof
    fix t assume "t \<in> set ?ts"
    then have "unat (ai_time t) \<le> unat ?now" using assms(3) by (simp add: word_le_nat_alt)
    then show "0 \<le> age ?now t" unfolding age_def by linarith
  qed
  have f: "find_entry (\<lambda>t. ai_ipaddr t \<noteq> 0 \<and> ip = ai_ipaddr t) ?ts = None" "find_entry (\<lambda>t. ai_ipaddr t = 0) ?ts = None"
    using assms(3) by (auto simp: find_entry_None)
  have u: "arp_table (uip_arp_update a ip e) = ?ts[i := \<lparr>ai_ipaddr = ip, ai_ethaddr = e, ai_time = ?now\<rparr>]"
    by (simp add: uip_arp_update_def f o)
  have m: "\<forall>t\<in>set ?ts. age ?now t \<le> int (unat tmp)"
    "i = 0 \<and> tmp = 0 \<or> i < 8 \<and> age ?now (?ts ! i) = int (unat tmp)"
    using oldest_loop_max [OF o n] l by auto
  moreover have "?ts ! 0 \<in> set ?ts" using l by (intro nth_mem) simp
  ultimately have "i < 8 \<and> age ?now (?ts ! i) = int (unat tmp)" using n by force
  with m(1) u show ?thesis by auto
qed

definition full_arp :: arp where
  "full_arp = demo_arp\<lparr>arptime := 9, arp_table := map (\<lambda>n. \<lparr>ai_ipaddr = of_nat n, ai_ethaddr = [], ai_time = of_nat (n mod 5)\<rparr>) [2..<10]\<rparr>"

theorem arp_evicts_oldest_witness:
  "\<exists>i<ARPTAB_SIZE. arp_table (uip_arp_update full_arp 77 [1]) =
      (arp_table full_arp)[i := \<lparr>ai_ipaddr = 77, ai_ethaddr = [1], ai_time = 9\<rparr>]"
proof -
  have "\<forall>i<ARPTAB_SIZE. ai_ipaddr (arp_table full_arp ! i) = of_nat (i + 2)"
    by (simp add: full_arp_def add.commute del: upt_rec_numeral)
  moreover have "length (arp_table full_arp) = 8" by (simp add: full_arp_def)
  moreover have "(of_nat (i + 2) :: u32) = of_nat (j + 2) \<Longrightarrow> i < 8 \<Longrightarrow> j < 8 \<Longrightarrow> i = j" for i j
    by (drule arg_cong [of _ _ unat]) (simp only: unat_of_nat, simp)
  ultimately have "arp_inv full_arp" by (auto simp: arp_inv_def)
  moreover have "list_all (\<lambda>t. ai_ipaddr t \<notin> {0, 77} \<and> ai_time t \<le> arptime full_arp) (arp_table full_arp)"
    by code_simp
  moreover have "arptime full_arp = 9" by (simp add: full_arp_def)
  ultimately show ?thesis using arp_evicts_oldest [of full_arp 77 "[1]"] by (auto simp: list_all_iff)
qed

end
