(* ===== verification/Str.thy ===== *)
theory Str
  imports Stdlib
begin

text \<open>
  \<open>NyLPC_cStr.c\<close> and \<open>NyLPC_cStr.h\<close>: a string builder on a fixed buffer. \<open>s\<close> is the capacity (one
  less than the buffer, for the terminator), \<open>l\<close> the length. \<open>NyLPC_cStr_clear\<close> only resets the
  length, so the C string in the buffer (\<open>str_text\<close>) stays what it was until the next \<open>put\<close>.
\<close>

record str_builder =
  str_s :: nat
  str_l :: nat
  str_buf :: "char list"

definition cStr_initialize :: "char list \<Rightarrow> str_builder option" where
  "cStr_initialize i_buf = do {
     b \<leftarrow> wr i_buf 0 NUL; Some \<lparr>str_s = length i_buf - 1, str_l = 0, str_buf = b\<rparr> }"

definition cStr_put :: "str_builder \<Rightarrow> char \<Rightarrow> (bool \<times> str_builder) option" where
  "cStr_put i i_c =
     (if str_l i < str_s i then do {
        b \<leftarrow> wr (str_buf i) (str_l i) i_c;
        b \<leftarrow> wr b (str_l i + 1) NUL;
        Some (True, i\<lparr>str_buf := b, str_l := str_l i + 1\<rparr>) }
      else Some (False, i))"

definition cStr_clear :: "str_builder \<Rightarrow> str_builder" where
  "cStr_clear i = i\<lparr>str_l := 0\<rparr>"

text \<open>The C string of the buffer; there must be a terminator in it.\<close>

definition str_text :: "str_builder \<Rightarrow> string option" where
  "str_text i = (if NUL \<in> set (str_buf i) then Some (cstr (str_buf i)) else None)"

definition cStr_isEqual :: "str_builder \<Rightarrow> string \<Rightarrow> bool option" where
  "cStr_isEqual i i_str = map_option (\<lambda>t. t = i_str) (str_text i)"

fun upper_loop :: "char list \<Rightarrow> char list option" where
  "upper_loop [] = None"
| "upper_loop (c # cs) = (if c = NUL then Some (c # cs) else map_option ((#) (toupper c)) (upper_loop cs))"

definition cStr_toUpper :: "str_builder \<Rightarrow> str_builder option" where
  "cStr_toUpper i = map_option (\<lambda>b. i\<lparr>str_buf := b\<rparr>) (upper_loop (str_buf i))"

section \<open>Lemmas\<close>

definition str_inv :: "str_builder \<Rightarrow> bool" where
  "str_inv i \<longleftrightarrow> length (str_buf i) = str_s i + 1 \<and> str_l i \<le> str_s i \<and> NUL \<in> set (str_buf i)"

text \<open>The builder holds the text \<open>t\<close>: nothing of a former text is left in front of the end.\<close>

definition holds :: "str_builder \<Rightarrow> string \<Rightarrow> bool" where
  "holds i t \<longleftrightarrow> str_inv i \<and> str_l i = length t \<and> no_nul t \<and>
     (t \<noteq> [] \<longrightarrow> (\<exists>r. str_buf i = t @ NUL # r))"

lemma str_initialize_inv: "cStr_initialize b = Some i \<Longrightarrow> str_inv i \<and> holds i []"
  by (auto simp: cStr_initialize_def str_inv_def holds_def wr_Some_iff set_update_memI split: Option.bind_splits)

lemma str_put_inv:
  assumes "str_inv i"
  shows "\<exists>b i'. cStr_put i c = Some (b, i') \<and> str_inv i' \<and> b = (str_l i < str_s i) \<and> str_s i' = str_s i"
  using assms by (auto simp: cStr_put_def str_inv_def wr_def set_update_memI)

lemma str_clear_inv: "str_inv i \<Longrightarrow> holds (cStr_clear i) [] \<and> str_inv (cStr_clear i)"
  by (simp add: str_inv_def cStr_clear_def holds_def)

lemma str_text_Some: "str_inv i \<Longrightarrow> str_text i = Some (cstr (str_buf i))"
  by (simp add: str_inv_def str_text_def)

lemma str_text_holds: "holds i t \<Longrightarrow> t \<noteq> [] \<Longrightarrow> str_text i = Some t"
  by (auto simp: holds_def str_text_def cstr_ident)

lemma toupper_NUL [simp]: "toupper c = NUL \<longleftrightarrow> c = NUL" "NUL = toupper c \<longleftrightarrow> c = NUL"
proof -
  have "char_of (ord c - 32) \<noteq> NUL" if "97 \<le> ord c"
  proof
    assume "char_of (ord c - 32) = NUL"
    then have "ord (char_of (ord c - 32) :: char) = ord NUL" by (rule arg_cong)
    moreover have "ord (char_of (ord c - 32) :: char) = ord c - 32"
      using ord_less [of c] by (simp del: ord_less)
    ultimately show False using that by simp
  qed
  then show "toupper c = NUL \<longleftrightarrow> c = NUL" by (auto simp: toupper_def)
  then show "NUL = toupper c \<longleftrightarrow> c = NUL" by auto
qed

lemma toupper_of_NUL [simp]: "toupper NUL = NUL"
  by (simp add: toupper_def)

lemma upper_loop_text: "no_nul t \<Longrightarrow> upper_loop (t @ NUL # r) = Some (map toupper t @ NUL # r)"
  by (induction t) auto

lemma str_upper_inv:
  assumes "str_inv i"
  shows "\<exists>i'. cStr_toUpper i = Some i' \<and> str_inv i' \<and> str_s i' = str_s i \<and> str_l i' = str_l i"
proof -
  obtain t r where "str_buf i = t @ NUL # r" "no_nul t"
    using assms by (metis no_nul_def split_list_first str_inv_def)
  then show ?thesis using assms by (auto simp: cStr_toUpper_def upper_loop_text str_inv_def)
qed

lemma str_put_holds:
  assumes "holds i t" "length t < str_s i" "c \<noteq> NUL"
  shows "\<exists>i'. cStr_put i c = Some (True, i') \<and> holds i' (t @ [c]) \<and> str_s i' = str_s i"
proof -
  let ?n = "length t"
  have i: "length (str_buf i) = str_s i + 1" "str_l i = ?n" "take ?n (str_buf i) = t" "no_nul t"
    using assms(1) by (auto simp: holds_def str_inv_def)
  let ?b = "(str_buf i)[?n := c, ?n + 1 := NUL]"
  have p: "cStr_put i c = Some (True, i\<lparr>str_buf := ?b, str_l := ?n + 1\<rparr>)"
    using i assms(2) by (simp add: cStr_put_def wr_def)
  have "?b = take ?n (str_buf i) @ c # NUL # drop (?n + 2) (str_buf i)"
    using i(1) assms(2) by (simp add: upd_conv_take_nth_drop take_Suc_conv_app_nth nth_append)
  then have "?b = (t @ [c]) @ NUL # drop (?n + 2) (str_buf i)" using i(3) by simp
  then have "holds (i\<lparr>str_buf := ?b, str_l := ?n + 1\<rparr>) (t @ [c])"
    using i assms(2,3) by (simp add: holds_def str_inv_def)
  with p show ?thesis by simp
qed

lemma str_upper_holds:
  assumes "holds i t" "t \<noteq> []"
  shows "\<exists>i'. cStr_toUpper i = Some i' \<and> holds i' (map toupper t) \<and> str_s i' = str_s i"
proof -
  obtain r where "str_buf i = t @ NUL # r" using assms by (auto simp: holds_def)
  then show ?thesis
    using assms by (auto simp: cStr_toUpper_def upper_loop_text holds_def str_inv_def no_nul_def)
qed

end
