(* ===== verification/HttpHeader.thy ===== *)
theory HttpHeader
  imports Str CharMachine
begin

text \<open>
  \<open>NyLPC_cHttpBasicHeaderParser.c\<close> and \<open>NyLPC_cHttpBasicHeaderParser.h\<close>: the parser of HTTP
  request and response headers. It takes the text in pieces of any size, one character at a time,
  keeps the current word in a string builder of 32 bytes, and passes the URL and unknown header
  fields to two handlers of the embedding program, which are parameters here (\<open>'h\<close> is their
  state; a handler may also write to the result).

  \<open>None\<close> is an access outside of the word buffer or a search for a terminator that runs out of it.
\<close>

unbundle bit_operations_syntax

section \<open>Constants and data\<close>

abbreviation (input) "HST_START \<equiv> (0x01 :: u8)"
abbreviation (input) "HST_RL_URL \<equiv> (0x12 :: u8)"
abbreviation (input) "HST_RL_VERSION \<equiv> (0x13 :: u8)"
abbreviation (input) "HST_SL_STATUSCODE \<equiv> (0x21 :: u8)"
abbreviation (input) "HST_SL_REASON \<equiv> (0x22 :: u8)"
abbreviation (input) "HST_MSGHEAD \<equiv> (0x31 :: u8)"
abbreviation (input) "HST_MSGPARAM \<equiv> (0x32 :: u8)"
abbreviation (input) "HST_MSG_CONTENTLENGTH \<equiv> (0x33 :: u8)"
abbreviation (input) "HST_MSG_CONNECTION \<equiv> (0x34 :: u8)"
abbreviation (input) "HST_MSG_TRANSFERENCODING \<equiv> (0x35 :: u8)"
abbreviation (input) "HST_EOH \<equiv> (0x7F :: u8)"
abbreviation (input) "HST_ERROR \<equiv> (0x80 :: u8)"

abbreviation (input) "METHOD_NULL \<equiv> (0x00 :: u8)"
abbreviation (input) "METHOD_GET \<equiv> (0x01 :: u8)"
abbreviation (input) "VERSION_09 \<equiv> (0x01 :: u8)"
abbreviation (input) "VERSION_10 \<equiv> (0x02 :: u8)"
abbreviation (input) "VERSION_11 \<equiv> (0x03 :: u8)"
abbreviation (input) "VERSION_UNKNOWN \<equiv> (0x04 :: u8)"
abbreviation (input) "TYPE_REQUEST \<equiv> (0x01 :: u8)"
abbreviation (input) "TYPE_RESPONSE \<equiv> (0x02 :: u8)"
abbreviation (input) "CONN_NONE \<equiv> (0x01 :: u8)"
abbreviation (input) "CONN_CLOSE \<equiv> (0x02 :: u8)"
abbreviation (input) "CONN_KEEPALIVE \<equiv> (0x03 :: u8)"
abbreviation (input) "CONN_UPGRADE \<equiv> (0x04 :: u8)"
abbreviation (input) "CONN_UNKNOWN \<equiv> (0x10 :: u8)"
abbreviation (input) "TE_NONE \<equiv> (0x01 :: u8)"
abbreviation (input) "TE_CHUNKED \<equiv> (0x02 :: u8)"
abbreviation (input) "TE_UNKNOWN \<equiv> (0x10 :: u8)"
abbreviation (input) "INVALID_LENGTH \<equiv> (0xFFFFFFFF :: u32)"

abbreviation (input) "SP \<equiv> CHR 0x20"
abbreviation (input) "LF \<equiv> CHR 0x0A"
abbreviation (input) "CR \<equiv> CHR 0x0D"

definition method_id_table :: text_id_tbl where
  "method_id_table = \<lparr>tbl_items = [(''GET'', 1), (''POST'', 2), (''HEAD'', 3), (''M-SEARCH'', 0x11), (''NOTIFY'', 0x12)],
     tbl_end = METHOD_NULL\<rparr>"

text \<open>The two start lines of the union agree in the version; method and status do not overlap.\<close>

record http_header =
  transfer_encoding :: u8
  connection :: u8
  htype :: u8
  version :: u8
  req_method :: u8
  status :: u32
  content_length :: u32

record 'h header_parser =
  rcode :: u16
  hst :: u8
  wsb :: str_builder
  hstate :: 'h

record 'h handler =
  messageHandler :: "('h \<Rightarrow> string option \<Rightarrow> char \<Rightarrow> http_header \<Rightarrow> bool \<times> 'h \<times> http_header) option"
  urlHandler :: "('h \<Rightarrow> char \<Rightarrow> http_header \<Rightarrow> bool \<times> 'h \<times> http_header) option"

definition THttpMethodType_toString :: "u8 \<Rightarrow> string option" where
  "THttpMethodType_toString i_method = TTextIdTbl_getTextById i_method method_id_table"

definition THttpBasicHeader_isPersistent :: "http_header \<Rightarrow> bool" where
  "THttpBasicHeader_isPersistent h =
     (if htype h = TYPE_REQUEST then connection h \<noteq> CONN_CLOSE \<and> version h = VERSION_11 else False)"

section \<open>Words\<close>

definition parseRequestMethodStr :: "string \<Rightarrow> http_header \<Rightarrow> bool \<times> http_header" where
  "parseRequestMethodStr t h = (let m = TTextIdTbl_getMatchIdIgnoreCase t method_id_table in
     (m \<noteq> METHOD_NULL, h\<lparr>req_method := m\<rparr>))"

text \<open>
  \<open>mi\<close> comes from \<open>strtoul\<close> and is then a signed \<open>long\<close>; for major version 0 and minor below 9
  the function succeeds and leaves the version as it was. The first argument is the length field of
  the builder, which after a reset is not the length of the text.
\<close>

definition parseHttpVersionStr :: "nat \<Rightarrow> string \<Rightarrow> http_header \<Rightarrow> bool \<times> http_header" where
  "parseHttpVersionStr l t h =
     (if l < 6 then (False, h)
      else if \<not> strncmp_eq t ''HTTP/'' 5 then (False, h)
      else let p = drop 5 t; (ma, n) = strtol10 p in
        if n = 0 then (False, h)
        else if cget p n \<noteq> CHR ''.'' then (False, h)
        else let q = drop (n + 1) p; (mi, k) = strtoul10 q; mi = sint mi in
          if k = 0 then (False, h)
          else if ma < 0 \<or> mi < 0 then (False, h)
          else if ma = 0 then (True, if mi \<ge> 9 then h\<lparr>version := VERSION_09\<rparr> else h)
          else if ma = 1 then (True, if mi = 0 then h\<lparr>version := VERSION_10\<rparr>
            else if mi \<ge> 1 then h\<lparr>version := VERSION_11\<rparr> else h\<lparr>version := VERSION_UNKNOWN\<rparr>)
          else (True, h\<lparr>version := VERSION_UNKNOWN\<rparr>))"

section \<open>The states\<close>

type_synonym 'h parse_result = "('h header_parser \<times> http_header) option"

definition to_state :: "'h header_parser \<Rightarrow> u8 \<Rightarrow> 'h header_parser" where
  "to_state p s = p\<lparr>hst := s\<rparr>"

definition header_error :: "'h header_parser \<Rightarrow> u16 \<Rightarrow> http_header \<Rightarrow> 'h parse_result" where
  "header_error p code h = Some (p\<lparr>rcode := code, hst := HST_ERROR\<rparr>, h)"

definition clear_to :: "'h header_parser \<Rightarrow> u8 \<Rightarrow> http_header \<Rightarrow> 'h parse_result" where
  "clear_to p s h = Some (p\<lparr>wsb := cStr_clear (wsb p), hst := s\<rparr>, h)"

text \<open>\<open>if(!NyLPC_cStr_put(..)) { _rcode=500; goto Error; } return s;\<close>\<close>

definition put_char :: "'h header_parser \<Rightarrow> char \<Rightarrow> u8 \<Rightarrow> http_header \<Rightarrow> 'h parse_result" where
  "put_char p c s h = do {
     (ok, w) \<leftarrow> cStr_put (wsb p) c;
     if ok then Some (p\<lparr>wsb := w, hst := s\<rparr>, h) else header_error (p\<lparr>wsb := w\<rparr>) 500 h }"

text \<open>The first character that is not a space puts a mark into the empty builder.\<close>

definition mark_start :: "'h header_parser \<Rightarrow> 'h header_parser option" where
  "mark_start p = (if str_l (wsb p) = 0 then map_option (\<lambda>(b, w). p\<lparr>wsb := w\<rparr>) (cStr_put (wsb p) (CHR ''C''))
     else Some p)"

definition call_message ::
  "'h handler \<Rightarrow> 'h header_parser \<Rightarrow> string option \<Rightarrow> char \<Rightarrow> http_header \<Rightarrow> bool \<times> 'h header_parser \<times> http_header" where
  "call_message hn p name c h = (case messageHandler hn of
     None \<Rightarrow> (True, p, h)
   | Some f \<Rightarrow> (case f (hstate p) name c h of (ok, s, h) \<Rightarrow> (ok, p\<lparr>hstate := s\<rparr>, h)))"

definition call_url :: "'h handler \<Rightarrow> 'h header_parser \<Rightarrow> char \<Rightarrow> http_header \<Rightarrow> bool \<times> 'h header_parser \<times> http_header" where
  "call_url hn p c h = (case urlHandler hn of
     None \<Rightarrow> (True, p, h)
   | Some f \<Rightarrow> (case f (hstate p) c h of (ok, s, h) \<Rightarrow> (ok, p\<lparr>hstate := s\<rparr>, h)))"

definition parseMessage_TransferEncoding :: "'h header_parser \<Rightarrow> char \<Rightarrow> http_header \<Rightarrow> 'h parse_result" where
  "parseMessage_TransferEncoding p c h =
     (if str_l (wsb p) = 0 \<and> c = SP then Some (to_state p HST_MSG_TRANSFERENCODING, h)
      else if c = CR then Some (to_state p HST_MSG_TRANSFERENCODING, h)
      else if c = LF then do {
        w \<leftarrow> cStr_toUpper (wsb p);
        e \<leftarrow> cStr_isEqual w ''CHUNKED'';
        clear_to (p\<lparr>wsb := w\<rparr>) HST_MSGHEAD (h\<lparr>transfer_encoding := if e then TE_CHUNKED else TE_UNKNOWN\<rparr>) }
      else put_char p c HST_MSG_TRANSFERENCODING h)"

definition connection_id :: "string \<Rightarrow> u8" where
  "connection_id t = (if t = ''CLOSE'' then CONN_CLOSE else if t = ''KEEP-ALIVE'' then CONN_KEEPALIVE
     else if t = ''UPGRADE'' then CONN_UPGRADE else CONN_UNKNOWN)"

definition parseMessage_Connection :: "'h header_parser \<Rightarrow> char \<Rightarrow> http_header \<Rightarrow> 'h parse_result" where
  "parseMessage_Connection p c h =
     (if str_l (wsb p) = 0 \<and> c = SP then Some (to_state p HST_MSG_CONNECTION, h)
      else if c = CR then Some (to_state p HST_MSG_CONNECTION, h)
      else if c = LF then do {
        w \<leftarrow> cStr_toUpper (wsb p);
        t \<leftarrow> str_text w;
        clear_to (p\<lparr>wsb := w\<rparr>) HST_MSGHEAD (h\<lparr>connection := connection_id t\<rparr>) }
      else put_char p c HST_MSG_CONNECTION h)"

text \<open>The signed result of \<open>strtol\<close> is stored in an unsigned field, also before an error.\<close>

definition parseMessage_ContentLength :: "'h header_parser \<Rightarrow> char \<Rightarrow> http_header \<Rightarrow> 'h parse_result" where
  "parseMessage_ContentLength p c h =
     (if str_l (wsb p) = 0 \<and> c = SP then Some (to_state p HST_MSG_CONTENTLENGTH, h)
      else if c = CR then Some (to_state p HST_MSG_CONTENTLENGTH, h)
      else if c = LF then do {
        t \<leftarrow> str_text (wsb p);
        let (v, e) = strtol10 t;
        let h = h\<lparr>content_length := word_of_int v\<rparr>;
        if e = 0 then header_error p 400 h else clear_to p HST_MSGHEAD h }
      else put_char p c HST_MSG_CONTENTLENGTH h)"

definition parseStatusCode :: "'h header_parser \<Rightarrow> char \<Rightarrow> http_header \<Rightarrow> 'h parse_result" where
  "parseStatusCode p c h =
     (if str_l (wsb p) = 0 \<and> c = SP then Some (to_state p HST_SL_STATUSCODE, h)
      else if c = SP then do {
        t \<leftarrow> str_text (wsb p);
        let (v, e) = strtol10 t;
        let h = h\<lparr>status := word_of_int v\<rparr>;
        if e = 0 then header_error p 400 h else clear_to p HST_SL_REASON h }
      else put_char p c HST_SL_STATUSCODE h)"

definition parseReason :: "'h header_parser \<Rightarrow> char \<Rightarrow> http_header \<Rightarrow> 'h parse_result" where
  "parseReason p c h = (if c = LF then clear_to p HST_MSGHEAD h else Some (to_state p HST_SL_REASON, h))"

definition parseMessageParam :: "'h handler \<Rightarrow> 'h header_parser \<Rightarrow> char \<Rightarrow> http_header \<Rightarrow> 'h parse_result" where
  "parseMessageParam hn p c h =
     (if str_l (wsb p) = 0 \<and> c = SP then Some (to_state p HST_MSGPARAM, h)
      else do {
        p \<leftarrow> mark_start p;
        if c = CR then Some (to_state p HST_MSGPARAM, h)
        else if c = LF then
          (case call_message hn p None NUL h of (ok, p, h) \<Rightarrow>
             if \<not> ok then header_error p 500 h else clear_to p HST_MSGHEAD h)
        else (case call_message hn p None c h of (ok, p, h) \<Rightarrow>
             if \<not> ok then header_error p 500 h else Some (to_state p HST_MSGPARAM, h)) })"

text \<open>The field name is forgotten only where a handler was there to take it.\<close>

definition parseMessage1 :: "'h handler \<Rightarrow> 'h header_parser \<Rightarrow> char \<Rightarrow> http_header \<Rightarrow> 'h parse_result" where
  "parseMessage1 hn p c h =
     (if c = CHR '':'' then do {
        w \<leftarrow> cStr_toUpper (wsb p);
        let p = p\<lparr>wsb := w\<rparr>;
        t \<leftarrow> str_text w;
        if t = ''CONNECTION'' then clear_to p HST_MSG_CONNECTION h
        else if t = ''CONTENT-LENGTH'' then clear_to p HST_MSG_CONTENTLENGTH h
        else if t = ''TRANSFER-ENCODING'' then clear_to p HST_MSG_TRANSFERENCODING h
        else if messageHandler hn = None then Some (to_state p HST_MSGPARAM, h)
        else (case call_message hn p (Some t) NUL h of (ok, p, h) \<Rightarrow>
                if \<not> ok then header_error p 500 h else clear_to p HST_MSGPARAM h) }
      else if c = CR then Some (to_state p HST_MSGHEAD, h)
      else if c = LF then
        (if str_l (wsb p) = 0 then clear_to p HST_EOH h else header_error p 400 h)
      else put_char p c HST_MSGHEAD h)"

definition parseVersion :: "'h header_parser \<Rightarrow> char \<Rightarrow> u8 \<Rightarrow> http_header \<Rightarrow> 'h parse_result" where
  "parseVersion p c i_next h =
     (if str_l (wsb p) = 0 \<and> c = SP then Some (to_state p HST_RL_VERSION, h)
      else if c = CR then Some (to_state p HST_RL_VERSION, h)
      else if c = LF then do {
        t \<leftarrow> str_text (wsb p);
        let (ok, h) = parseHttpVersionStr (str_l (wsb p)) t h;
        if ok then clear_to p i_next h
        else header_error (p\<lparr>wsb := cStr_clear (wsb p)\<rparr>) 505 h }
      else put_char p c HST_RL_VERSION h)"

definition parseRequestUrl :: "'h handler \<Rightarrow> 'h header_parser \<Rightarrow> char \<Rightarrow> http_header \<Rightarrow> 'h parse_result" where
  "parseRequestUrl hn p c h =
     (if str_l (wsb p) = 0 \<and> c = SP then Some (to_state p HST_RL_URL, h)
      else do {
        p \<leftarrow> mark_start p;
        if c = SP then
          (case call_url hn (p\<lparr>wsb := cStr_clear (wsb p)\<rparr>) NUL h of (ok, p, h) \<Rightarrow>
             if \<not> ok then header_error p 500 h else Some (to_state p HST_RL_VERSION, h))
        else (case call_url hn p c h of (ok, p, h) \<Rightarrow>
             if \<not> ok then header_error p 500 h else Some (to_state p HST_RL_URL, h)) })"

definition parseStartLine :: "'h header_parser \<Rightarrow> char \<Rightarrow> http_header \<Rightarrow> 'h parse_result" where
  "parseStartLine p c h =
     (if c = SP then do {
        t \<leftarrow> str_text (wsb p);
        (case parseHttpVersionStr (str_l (wsb p)) t h of (ok, h) \<Rightarrow>
           if ok then clear_to p HST_SL_STATUSCODE (h\<lparr>htype := TYPE_RESPONSE\<rparr>)
           else (case parseRequestMethodStr t h of (ok, h) \<Rightarrow>
             if \<not> ok then header_error p 400 h
             else clear_to p HST_RL_URL (h\<lparr>htype := TYPE_REQUEST\<rparr>))) }
      else put_char p c HST_START h)"

section \<open>The parser\<close>

definition cHttpBasicHeaderParser_initialize :: "char list \<Rightarrow> 'h \<Rightarrow> u16 \<Rightarrow> u8 \<Rightarrow> 'h header_parser option" where
  "cHttpBasicHeaderParser_initialize wsb_buf s rc st =
     map_option (\<lambda>w. \<lparr>rcode = rc, hst = st, wsb = w, hstate = s\<rparr>) (cStr_initialize wsb_buf)"

definition cHttpBasicHeaderParser_parseInit :: "'h header_parser \<Rightarrow> http_header \<Rightarrow> 'h header_parser \<times> http_header" where
  "cHttpBasicHeaderParser_parseInit p h = (to_state p HST_START,
     h\<lparr>connection := CONN_NONE, content_length := INVALID_LENGTH, transfer_encoding := TE_NONE\<rparr>)"

definition testHeader :: "http_header \<Rightarrow> u16 \<Rightarrow> bool \<times> http_header \<times> u16" where
  "testHeader h code =
     (if version h = VERSION_09 then
        (if htype h = TYPE_REQUEST \<and> req_method h \<noteq> METHOD_GET then (False, h, 400)
         else if transfer_encoding h \<noteq> TE_NONE then (False, h, 400)
         else (True, h\<lparr>content_length := 0, connection := CONN_CLOSE\<rparr>, code))
      else if version h = VERSION_10 then
        (if transfer_encoding h \<noteq> TE_NONE then (False, h, 406)
         else let h = (if content_length h = INVALID_LENGTH then h\<lparr>content_length := 0\<rparr> else h) in
           (True, h\<lparr>connection := CONN_CLOSE\<rparr>, code))
      else if version h = VERSION_11 then
        (if content_length h = INVALID_LENGTH then
           (True, if transfer_encoding h \<noteq> TE_CHUNKED then h\<lparr>content_length := 0\<rparr> else h, code)
         else if transfer_encoding h \<noteq> TE_NONE then (False, h, 400)
         else (True, h, code))
      else if version h = VERSION_UNKNOWN then (False, h, 505)
      else (False, h, 500))"

definition cHttpBasicHeaderParser_parseFinish ::
  "'h header_parser \<Rightarrow> http_header \<Rightarrow> bool \<times> 'h header_parser \<times> http_header" where
  "cHttpBasicHeaderParser_parseFinish p h =
     (if hst p \<noteq> HST_EOH then (False, p, h)
      else case testHeader h (rcode p) of (ok, h, code) \<Rightarrow>
        if \<not> ok then (False, p\<lparr>rcode := code, hst := HST_ERROR\<rparr>, h)
        else (True, p\<lparr>rcode := code\<rparr>, h))"

text \<open>The switch of \<open>parseChar\<close>, on the parser and the result it fills.\<close>

definition header_step :: "'h handler \<Rightarrow> 'h header_parser \<times> http_header \<Rightarrow> char \<Rightarrow> 'h parse_result" where
  "header_step hn s c = (case s of (p, h) \<Rightarrow>
     if hst p = HST_START then parseStartLine p c h
     else if hst p = HST_MSGPARAM then parseMessageParam hn p c h
     else if hst p = HST_MSGHEAD then parseMessage1 hn p c h
     else if hst p = HST_RL_URL then parseRequestUrl hn p c h
     else if hst p = HST_RL_VERSION then parseVersion p c HST_MSGHEAD h
     else if hst p = HST_SL_STATUSCODE then parseStatusCode p c h
     else if hst p = HST_SL_REASON then parseReason p c h
     else if hst p = HST_MSG_CONTENTLENGTH then parseMessage_ContentLength p c h
     else if hst p = HST_MSG_CONNECTION then parseMessage_Connection p c h
     else if hst p = HST_MSG_TRANSFERENCODING then parseMessage_TransferEncoding p c h
     else header_error p 500 h)"

fun parse_loop :: "'h handler \<Rightarrow> nat \<Rightarrow> 'h header_parser \<times> http_header \<Rightarrow> string \<Rightarrow>
    (nat \<times> 'h header_parser \<times> http_header) option" where
  "parse_loop hn i s [] = Some (i, s)"
| "parse_loop hn i s (c # cs) = do {
     s \<leftarrow> header_step hn s c;
     if hst (fst s) = HST_ERROR then Some (i, s)
     else if hst (fst s) = HST_EOH then Some (i + 1, s)
     else parse_loop hn (i + 1) s cs }"

definition cHttpBasicHeaderParser_parseChar :: "'h handler \<Rightarrow> 'h header_parser \<times> http_header \<Rightarrow> string \<Rightarrow>
    (nat \<times> 'h header_parser \<times> http_header) option" where
  "cHttpBasicHeaderParser_parseChar hn s i_c =
     (if hst (fst s) = HST_ERROR then Some (0, s) else parse_loop hn 0 s i_c)"

text \<open>
  \<open>parseStream\<close> on a stream whose successive reads give the listed pieces, and then fail; the
  result is the returned flag, the parser and what is left to be read. Empty reads end the loop.
\<close>

fun parseStream :: "'h handler \<Rightarrow> 'h header_parser \<times> http_header \<Rightarrow> string list \<Rightarrow>
    (bool \<times> ('h header_parser \<times> http_header) \<times> string list) option" where
  "parseStream hn s [] = Some (False, s, [])"
| "parseStream hn s (x # xs) =
     (if x = [] then Some (False, s, x # xs)
      else do {
        (n, s) \<leftarrow> cHttpBasicHeaderParser_parseChar hn s x;
        if hst (fst s) = HST_ERROR then Some (False, s, drop n x # xs)
        else if hst (fst s) = HST_EOH then Some (True, s, drop n x # xs)
        else parseStream hn s xs })"

section \<open>Safety\<close>

definition header_inv :: "'h header_parser \<Rightarrow> bool" where
  "header_inv p \<longleftrightarrow> str_inv (wsb p) \<and> str_s (wsb p) = 31"

definition step_fine :: "'h parse_result \<Rightarrow> bool" where
  "step_fine r \<longleftrightarrow> (\<exists>p h. r = Some (p, h) \<and> header_inv p)"

lemma header_inv_simps [simp]:
  "header_inv (to_state p st) = header_inv p" "header_inv (p\<lparr>hst := st\<rparr>) = header_inv p"
  "header_inv (p\<lparr>rcode := rc\<rparr>) = header_inv p" "header_inv (p\<lparr>hstate := x\<rparr>) = header_inv p"
  "header_inv (p\<lparr>wsb := w\<rparr>) \<longleftrightarrow> str_inv w \<and> str_s w = 31"
  "str_inv w \<Longrightarrow> str_inv (cStr_clear w)" "str_s (cStr_clear w) = str_s w"
  by (auto simp: header_inv_def to_state_def str_inv_def cStr_clear_def)

lemma step_fine_simps [simp]:
  "step_fine (Some (p, h)) = header_inv p" "step_fine (header_error p code h) = header_inv p"
  by (simp_all add: step_fine_def header_error_def)

lemma clear_fine [simp]: "header_inv p \<Longrightarrow> step_fine (clear_to p st h)"
  by (simp add: clear_to_def header_inv_def str_clear_inv)

lemma put_fine [simp]:
  assumes "header_inv p"
  shows "step_fine (put_char p c st h)"
proof -
  obtain b w where "cStr_put (wsb p) c = Some (b, w)" "str_inv w" "str_s w = 31"
    using str_put_inv [of "wsb p" c] assms by (auto simp: header_inv_def)
  then show ?thesis by (simp add: put_char_def)
qed

lemma call_fine:
  assumes "header_inv p" "\<And>q g. header_inv q \<Longrightarrow> step_fine (f q g)"
  shows "step_fine (case call_message hn p n c h of (ok, q, g) \<Rightarrow> if \<not> ok then header_error q 500 g else f q g)"
    "step_fine (case call_url hn p c h of (ok, q, g) \<Rightarrow> if \<not> ok then header_error q 500 g else f q g)"
  using assms by (auto simp: call_message_def call_url_def split: option.split prod.split)

lemma upper_fine:
  assumes "header_inv p" "\<And>w. str_inv w \<Longrightarrow> str_s w = 31 \<Longrightarrow> step_fine (f w)"
  shows "step_fine (Option.bind (cStr_toUpper (wsb p)) f)"
  using str_upper_inv [of "wsb p"] assms by (auto simp: header_inv_def)

lemma start_fine:
  assumes "header_inv p" "\<And>q. header_inv q \<Longrightarrow> step_fine (f q)"
  shows "step_fine (Option.bind (mark_start p) f)"
proof (cases "str_l (wsb p) = 0")
  case True
  obtain b w where "cStr_put (wsb p) (CHR ''C'') = Some (b, w)" "str_inv w" "str_s w = 31"
    using str_put_inv [of "wsb p" "CHR ''C''"] assms(1) by (auto simp: header_inv_def)
  then show ?thesis using True assms by (simp add: mark_start_def)
qed (use assms in \<open>simp add: mark_start_def\<close>)

lemma text_bind: "header_inv p \<Longrightarrow> Option.bind (str_text (wsb p)) f = f (cstr (str_buf (wsb p)))"
  by (simp add: header_inv_def str_text_Some)

lemma clear_wsb_inv: "header_inv p \<Longrightarrow> str_inv (cStr_clear (wsb p)) \<and> str_s (wsb p) = 31"
  by (simp add: header_inv_def str_clear_inv)

lemma parse_word_fine:
  assumes "header_inv p"
  shows "step_fine (parseMessage_TransferEncoding p c h)" "step_fine (parseMessage_Connection p c h)"
    "step_fine (parseMessage_ContentLength p c h)" "step_fine (parseStatusCode p c h)"
    "step_fine (parseReason p c h)" "step_fine (parseVersion p c st h)" "step_fine (parseStartLine p c h)"
  using assms clear_wsb_inv [OF assms]
  by (auto simp: parseMessage_TransferEncoding_def parseMessage_Connection_def cStr_isEqual_def str_text_Some
      parseMessage_ContentLength_def parseStatusCode_def parseReason_def parseVersion_def
      parseStartLine_def text_bind [OF assms] Let_def split: prod.splits intro!: upper_fine)

lemma parse_field_fine:
  assumes "header_inv p"
  shows "step_fine (parseMessageParam hn p c h)" "step_fine (parseMessage1 hn p c h)" "step_fine (parseRequestUrl hn p c h)"
proof -
  show "step_fine (parseMessageParam hn p c h)" "step_fine (parseRequestUrl hn p c h)"
    using assms unfolding parseMessageParam_def parseRequestUrl_def
    by (auto intro!: start_fine call_fine simp: clear_wsb_inv simp del: not_not)
  have "step_fine (case call_message hn (p\<lparr>wsb := w\<rparr>) n d h of (ok, p, h) \<Rightarrow>
      if \<not> ok then header_error p 500 h else clear_to p HST_MSGPARAM h)" if "str_inv w" "str_s w = 31" for w n d
    by (rule call_fine) (use that in simp_all)
  then show "step_fine (parseMessage1 hn p c h)"
    using assms by (simp add: parseMessage1_def Let_def str_text_Some upper_fine)
qed

lemma header_step_fine: "header_inv p \<Longrightarrow> step_fine (header_step hn (p, h) c)"
  by (simp add: header_step_def parse_word_fine parse_field_fine)

lemma header_step_ok:
  "header_inv (fst s) \<Longrightarrow> \<exists>s'. header_step hn s c = Some s' \<and> header_inv (fst s')"
  using header_step_fine [of "fst s" hn "snd s" c] by (auto simp: step_fine_def)

lemma header_step_stuck:
  "hst (fst s) \<in> {HST_ERROR, HST_EOH} \<Longrightarrow> header_step hn s c = header_error (fst s) 500 (snd s)"
  by (auto simp: header_step_def split: prod.splits)

interpretation hm: char_machine "header_step hn" "\<lambda>s. header_inv (fst s)" "\<lambda>s. hst (fst s) = HST_ERROR"
  for hn :: "'h handler"
proof
  fix s :: "'h header_parser \<times> http_header" and c
  assume "hst (fst s) = HST_ERROR"
  then show "\<exists>s'. header_step hn s c = Some s' \<and> hst (fst s') = HST_ERROR"
    by (simp add: header_step_stuck header_error_def)
next
  fix s s' :: "'h header_parser \<times> http_header" and c
  assume "header_inv (fst s)" "header_step hn s c = Some s'"
  then show "header_inv (fst s')" using header_step_ok [of s hn c] by auto
qed

lemma parse_loop_total:
  assumes "header_inv (fst s)"
  shows "\<exists>n s'. parse_loop hn i s xs = Some (i + n, s') \<and> header_inv (fst s') \<and> n \<le> length xs \<and>
    (hst (fst s') \<notin> {HST_ERROR, HST_EOH} \<longrightarrow> n = length xs)"
  using assms
proof (induction xs arbitrary: i s)
  case (Cons x xs)
  obtain s' where s': "header_step hn s x = Some s'" "header_inv (fst s')" using header_step_ok Cons(2) by blast
  show ?case
  proof (cases "hst (fst s') \<in> {HST_ERROR, HST_EOH}")
    case True
    then show ?thesis using s' by (cases s') auto
  next
    case False
    then show ?thesis using s' Cons(1) [OF s'(2), of "i + 1"] by (auto simp: add.assoc)
  qed
qed auto

section \<open>Pieces\<close>

lemma parse_loop_shift: "parse_loop hn (k + i) s xs = map_option (\<lambda>(n, t). (k + n, t)) (parse_loop hn i s xs)"
proof (induction xs arbitrary: i s)
  case (Cons x xs)
  show ?case
    using Cons [of "i + 1"] by (cases "header_step hn s x") (simp_all add: add.assoc [symmetric])
qed simp

lemma parse_loop_append:
  assumes "parse_loop hn i s xs = Some (n, t)" "hst (fst t) \<notin> {HST_ERROR, HST_EOH}"
  shows "parse_loop hn i s (xs @ ys) = parse_loop hn (i + length xs) t ys"
  using assms
proof (induction xs arbitrary: i s)
  case (Cons x xs)
  then obtain s' where "header_step hn s x = Some s'" "hst (fst s') \<notin> {HST_ERROR, HST_EOH}"
    by (auto split: Option.bind_splits if_splits)
  with Cons show ?case by simp
qed simp

lemma parse_loop_stop:
  assumes "parse_loop hn i s xs = Some (n, t)" "hst (fst t) \<in> {HST_ERROR, HST_EOH}" "hst (fst s) \<notin> {HST_ERROR, HST_EOH}"
  shows "parse_loop hn i s (xs @ ys) = Some (n, t)"
  using assms
proof (induction xs arbitrary: i s)
  case (Cons x xs)
  then obtain s' where s': "header_step hn s x = Some s'" by (auto split: Option.bind_splits)
  show ?case
    using Cons s' by (cases "hst (fst s') \<in> {HST_ERROR, HST_EOH}") auto
qed auto

text \<open>
  C12: The parser is total and keeps its memory: on any text and with any handlers it consumes at
  most the text, never leaves the word buffer, and consumes all of it unless it stops in the error
  state or at the end of the header.
\<close>

theorem header_parser_safe:
  assumes "header_inv (fst s)"
  shows "\<exists>n t. cHttpBasicHeaderParser_parseChar hn s xs = Some (n, t) \<and> header_inv (fst t) \<and> n \<le> length xs \<and>
    (hst (fst t) \<notin> {HST_ERROR, HST_EOH} \<longrightarrow> n = length xs)"
  using parse_loop_total [OF assms, of hn 0 xs] assms
  by (cases s) (auto simp: cHttpBasicHeaderParser_parseChar_def)

definition null_handler :: "unit handler" where
  "null_handler = \<lparr>messageHandler = None, urlHandler = None\<rparr>"

definition demo_hparser :: "unit header_parser" where
  "demo_hparser = \<lparr>rcode = 0, hst = HST_START, wsb = \<lparr>str_s = 31, str_l = 0, str_buf = replicate 32 NUL\<rparr>, hstate = ()\<rparr>"

definition demo_http :: http_header where
  "demo_http = \<lparr>transfer_encoding = TE_NONE, connection = CONN_NONE, htype = 0, version = 0, req_method = 0,
     status = 0, content_length = INVALID_LENGTH\<rparr>"

lemma demo_hparser_inv: "header_inv demo_hparser" "holds (wsb demo_hparser) []"
  by (simp_all add: header_inv_def demo_hparser_def str_inv_def holds_def)

theorem header_parser_safe_witness:
  "\<exists>n t. cHttpBasicHeaderParser_parseChar null_handler (demo_hparser, demo_http) ''GET / HTTP/9'' = Some (n, t) \<and>
     header_inv (fst t)"
  using header_parser_safe [of "(demo_hparser, demo_http)" null_handler "''GET / HTTP/9''"] demo_hparser_inv by auto

text \<open>
  The cut of the text into pieces does not matter: parsing a text in two calls is parsing it
  in one, with the counts of consumed characters added up.
\<close>

theorem header_fragments:
  assumes "cHttpBasicHeaderParser_parseChar hn s xs = Some (n, t)" "hst (fst t) \<notin> {HST_ERROR, HST_EOH}"
  shows "cHttpBasicHeaderParser_parseChar hn s (xs @ ys) =
    map_option (\<lambda>(m, u). (length xs + m, u)) (cHttpBasicHeaderParser_parseChar hn t ys)"
proof -
  have "hst (fst s) \<noteq> HST_ERROR" using assms by (auto simp: cHttpBasicHeaderParser_parseChar_def)
  then show ?thesis
    using assms parse_loop_append [of hn 0 s xs n t ys] parse_loop_shift [of hn "length xs" 0 t ys]
    by (simp add: cHttpBasicHeaderParser_parseChar_def)
qed

theorem header_fragments_witness:
  "cHttpBasicHeaderParser_parseChar null_handler (demo_hparser, demo_http) (''GE'' @ ''T '') =
    map_option (\<lambda>(m, u). (2 + m, u)) (cHttpBasicHeaderParser_parseChar null_handler
      (demo_hparser\<lparr>wsb := \<lparr>str_s = 31, str_l = 2, str_buf = ''GE'' @ replicate 30 NUL\<rparr>\<rparr>, demo_http) ''T '')"
proof -
  have "cHttpBasicHeaderParser_parseChar null_handler (demo_hparser, demo_http) ''GE'' =
      Some (2, demo_hparser\<lparr>wsb := \<lparr>str_s = 31, str_l = 2, str_buf = ''GE'' @ replicate 30 NUL\<rparr>\<rparr>, demo_http)"
    by code_simp
  from header_fragments [OF this, of "''T ''"] show ?thesis by (simp add: demo_hparser_def)
qed

text \<open>
  C17: Reading a header from a stream is parsing the concatenation of what the stream delivers,
  and what is left in the stream afterwards is exactly the text behind the header.
\<close>

theorem header_stream:
  assumes "header_inv (fst s)" "hst (fst s) \<notin> {HST_ERROR, HST_EOH}" "[] \<notin> set xs"
    "parseStream hn s xs = Some (True, t, rest)"
  shows "\<exists>n. cHttpBasicHeaderParser_parseChar hn s (concat xs) = Some (n, t) \<and> concat rest = drop n (concat xs) \<and>
    hst (fst t) = HST_EOH"
  using assms
proof (induction xs arbitrary: s)
  case (Cons x xs)
  obtain n u where u: "cHttpBasicHeaderParser_parseChar hn s x = Some (n, u)" "header_inv (fst u)" "n \<le> length x"
    using header_parser_safe [OF Cons(2), of hn x] by blast
  have l: "parse_loop hn 0 s x = Some (n, u)" using u(1) Cons(3) by (simp add: cHttpBasicHeaderParser_parseChar_def)
  show ?case
  proof (cases "hst (fst u) \<in> {HST_ERROR, HST_EOH}")
    case True
    have "t = u \<and> rest = drop n x # xs \<and> hst (fst u) = HST_EOH"
      using Cons(4,5) u(1) True by (auto split: if_splits)
    moreover have "cHttpBasicHeaderParser_parseChar hn s (concat (x # xs)) = Some (n, u)"
      using parse_loop_stop [OF l True Cons(3), of "concat xs"] Cons(3) by (simp add: cHttpBasicHeaderParser_parseChar_def)
    ultimately show ?thesis using u(3) by simp
  next
    case False
    then have "parseStream hn u xs = Some (True, t, rest)" using Cons(4,5) u(1) by (auto split: if_splits)
    from Cons(1) [OF u(2) False _ this] Cons(4) obtain m where
      "cHttpBasicHeaderParser_parseChar hn u (concat xs) = Some (m, t)" "concat rest = drop m (concat xs)"
      "hst (fst t) = HST_EOH" by auto
    then show ?thesis using header_fragments [OF u(1) False, of "concat xs"] by simp
  qed
qed simp

theorem header_stream_witness:
  "\<exists>t. parseStream null_handler (demo_hparser\<lparr>hst := HST_MSGHEAD\<rparr>, demo_http) [''X: a'', [LF, LF] @ ''xy''] =
     Some (True, t, [''xy'']) \<and> hst (fst t) = HST_EOH"
proof -
  let ?s = "(demo_hparser\<lparr>hst := HST_MSGHEAD\<rparr>, demo_http)" and ?xs = "[''X: a'', [LF, LF] @ ''xy'']"
  have "map_option (\<lambda>(b, t, r). (b, r)) (parseStream null_handler ?s ?xs) = Some (True, [''xy''])"
    by code_simp
  then obtain t where t: "parseStream null_handler ?s ?xs = Some (True, t, [''xy''])" by auto
  moreover have "header_inv (fst ?s)" "hst (fst ?s) \<notin> {HST_ERROR, HST_EOH}" "[] \<notin> set ?xs"
    using demo_hparser_inv by simp_all
  ultimately show ?thesis using header_stream [of ?s ?xs null_handler t "[''xy'']"] by blast
qed

end
