(* ===== verification/HttpRequest.thy ===== *)
theory HttpRequest
  imports HttpHeader
begin

text \<open>
  What the header parser makes of whole requests: a request that is printed in the usual form is
  read back (\<open>http_request_roundtrip\<close>), an accepted header determines the length of its body, and
  two inputs on which the parser does not do what it means to do.
\<close>

section \<open>Requests as they are written\<close>

lemma parse_loop_feed:
  assumes "feed (header_step hn) s xs = Some t" "hst (fst t) \<noteq> HST_ERROR" "header_inv (fst s)"
    "hst (fst s) \<notin> {HST_ERROR, HST_EOH}" "xs \<noteq> []"
  shows "parse_loop hn i s (xs @ ys) =
    (if hst (fst t) = HST_EOH then Some (i + length xs, t) else parse_loop hn (i + length xs) t ys)"
  using assms
proof (induction xs arbitrary: i s)
  case (Cons x xs)
  then obtain u where u: "header_step hn s x = Some u" "feed (header_step hn) u xs = Some t"
    by (auto split: Option.bind_splits)
  have i: "header_inv (fst u)" using header_step_ok [OF Cons(4), of hn x] u(1) by auto
  have e: "hst (fst u) \<noteq> HST_ERROR" using hm.err_feed [OF i, of hn xs] u(2) Cons(3) by auto
  show ?case
  proof (cases "xs = []")
    case True
    then show ?thesis using u e by simp
  next
    case False
    have "hst (fst u) \<noteq> HST_EOH"
    proof
      assume "hst (fst u) = HST_EOH"
      moreover obtain y zs where "xs = y # zs" using False by (cases xs) auto
      ultimately have "feed (header_step hn) ((fst u)\<lparr>rcode := 500, hst := HST_ERROR\<rparr>, snd u) zs = Some t"
        using u(2) by (simp add: header_step_stuck header_error_def)
      then show False using hm.err_feed [of "((fst u)\<lparr>rcode := 500, hst := HST_ERROR\<rparr>, snd u)" hn zs] i Cons(3) by simp
    qed
    then show ?thesis using Cons(1) [OF u(2) Cons(3) i _ False, of "i + 1"] u(1) e by simp
  qed
qed simp

text \<open>In a state that collects a word, the characters of the word go to the builder.\<close>

lemma feed_word:
  assumes "\<And>p c. hst p = st \<Longrightarrow> c \<in> set w \<Longrightarrow> str_l (wsb p) = 0 \<and> c = SP \<or> header_step hn (p, h) c = put_char p c st h"
    "holds (wsb p) t" "hst p = st" "str_s (wsb p) = 31" "length t + length w \<le> 31" "no_nul w" "t = [] \<Longrightarrow> cget w 0 \<noteq> SP"
  shows "\<exists>b. feed (header_step hn) (p, h) w = Some (p\<lparr>wsb := b\<rparr>, h) \<and> holds b (t @ w) \<and> str_s b = 31"
  using assms
proof (induction w arbitrary: p t)
  case Nil
  then show ?case by (intro exI [of _ "wsb p"]) simp
next
  case (Cons c w)
  have "\<not> (str_l (wsb p) = 0 \<and> c = SP)" using Cons(3,8) by (auto simp: holds_def cget_def)
  then have s: "header_step hn (p, h) c = put_char p c st h" using Cons(2) [OF Cons(4), of c] by auto
  obtain b where b: "cStr_put (wsb p) c = Some (True, b)" "holds b (t @ [c])" "str_s b = 31"
    using str_put_holds [OF Cons(3), of c] Cons(5,6,7) by auto
  have st: "header_step hn (p, h) c = Some (p\<lparr>wsb := b\<rparr>, h)"
    using s b(1) Cons(4) by (simp add: put_char_def)
  have "\<exists>b'. feed (header_step hn) (p\<lparr>wsb := b\<rparr>, h) w = Some (p\<lparr>wsb := b, wsb := b'\<rparr>, h) \<and> holds b' ((t @ [c]) @ w) \<and> str_s b' = 31"
    using Cons(2) b Cons(4,6,7) by (intro Cons(1)) auto
  then show ?case using st by simp
qed

datatype field = Connection string | ContentLength nat | TransferEncoding string | Other string string

definition crlf :: string where
  "crlf = [CR, LF]"

fun field_name :: "field \<Rightarrow> string" where
  "field_name (Connection v) = ''Connection''"
| "field_name (ContentLength n) = ''Content-Length''"
| "field_name (TransferEncoding v) = ''Transfer-Encoding''"
| "field_name (Other n v) = n"

fun field_value :: "field \<Rightarrow> string" where
  "field_value (Connection v) = v"
| "field_value (ContentLength n) = dec_text n"
| "field_value (TransferEncoding v) = v"
| "field_value (Other n v) = v"

definition print_field :: "field \<Rightarrow> string" where
  "print_field f = field_name f @ '':'' @ [SP] @ field_value f @ crlf"

fun apply_field :: "http_header \<Rightarrow> field \<Rightarrow> http_header" where
  "apply_field h (Connection v) = h\<lparr>connection := connection_id (map toupper v)\<rparr>"
| "apply_field h (ContentLength n) = h\<lparr>content_length := of_nat n\<rparr>"
| "apply_field h (TransferEncoding v) =
     h\<lparr>transfer_encoding := if map toupper v = ''CHUNKED'' then TE_CHUNKED else TE_UNKNOWN\<rparr>"
| "apply_field h (Other n v) = h"

definition value_ok :: "string \<Rightarrow> bool" where
  "value_ok v \<longleftrightarrow> v \<noteq> [] \<and> length v \<le> 31 \<and> no_nul v \<and> CR \<notin> set v \<and> LF \<notin> set v \<and> cget v 0 \<noteq> SP"

definition name_ok :: "string \<Rightarrow> bool" where
  "name_ok n \<longleftrightarrow> n \<noteq> [] \<and> length n \<le> 31 \<and> no_nul n \<and> CR \<notin> set n \<and> LF \<notin> set n \<and> CHR '':'' \<notin> set n \<and>
     cget n 0 \<noteq> SP"

fun field_ok :: "field \<Rightarrow> bool" where
  "field_ok (Connection v) = value_ok v"
| "field_ok (ContentLength n) = (n < 2 ^ 31)"
| "field_ok (TransferEncoding v) = value_ok v"
| "field_ok (Other n v) = (name_ok n \<and> map toupper n \<notin> {''CONNECTION'', ''CONTENT-LENGTH'', ''TRANSFER-ENCODING''} \<and>
     LF \<notin> set v)"

definition print_request :: "string \<Rightarrow> string \<Rightarrow> field list \<Rightarrow> string" where
  "print_request m url fs = m @ [SP] @ url @ [SP] @ ''HTTP/1.1'' @ crlf @ concat (map print_field fs) @ crlf"

lemma value_ok_dec_text: "n < 2 ^ 31 \<Longrightarrow> value_ok (dec_text n)"
proof -
  assume n: "n < 2 ^ 31"
  have "(2 :: nat) ^ 31 \<le> 10 ^ Suc 9" by simp
  then have "length (dec_text n) \<le> Suc 9" using n by (intro length_dec_text) linarith
  moreover have "\<forall>c\<in>set (dec_text n). isdigit c" using dec_text_digits(1) by (simp add: list_all_iff)
  moreover have "isdigit (cget (dec_text n) 0)" using dec_text_digits [of n] by (cases "dec_text n") (auto simp: cget_def)
  ultimately show ?thesis using isdigit_facts dec_text_digits(2) [of n] by (auto simp: value_ok_def no_nul_def)
qed

lemma update_order: "p\<lparr>hst := st, wsb := b\<rparr> = p\<lparr>wsb := b, hst := st\<rparr>" for p :: "'h header_parser"
  by (cases p) simp

lemma feed_name:
  fixes hn :: "'h handler"
  assumes "hst p = HST_MSGHEAD" "holds (wsb p) []" "str_s (wsb p) = 31" "name_ok n"
  shows "\<exists>b. feed (header_step hn) (p, h) n = Some (p\<lparr>wsb := b\<rparr>, h) \<and> holds b n \<and> str_s b = 31"
proof -
  have "\<exists>b. feed (header_step hn) (p, h) n = Some (p\<lparr>wsb := b\<rparr>, h) \<and> holds b ([] @ n) \<and> str_s b = 31"
  proof (rule feed_word [of HST_MSGHEAD])
    fix p :: "'h header_parser" and c
    assume "hst p = HST_MSGHEAD" "c \<in> set n"
    then show "str_l (wsb p) = 0 \<and> c = SP \<or> header_step hn (p, h) c = put_char p c HST_MSGHEAD h"
      using assms(4) by (auto simp: header_step_def parseMessage1_def name_ok_def)
  qed (use assms in \<open>auto simp: name_ok_def\<close>)
  then show ?thesis by simp
qed

lemma feed_value:
  fixes hn :: "'h handler"
  assumes "hst p = st" "st \<in> {HST_MSG_CONTENTLENGTH, HST_MSG_CONNECTION, HST_MSG_TRANSFERENCODING}"
    "holds (wsb p) []" "str_s (wsb p) = 31" "value_ok v"
  shows "\<exists>b. feed (header_step hn) (p, h) ([SP] @ v @ [CR]) = Some (p\<lparr>wsb := b\<rparr>, h) \<and> holds b v \<and> str_s b = 31"
proof -
  note defs = header_step_def parseMessage_ContentLength_def parseMessage_Connection_def parseMessage_TransferEncoding_def
  have "\<exists>b. feed (header_step hn) (p, h) v = Some (p\<lparr>wsb := b\<rparr>, h) \<and> holds b ([] @ v) \<and> str_s b = 31"
  proof (rule feed_word [of st])
    fix p :: "'h header_parser" and c
    assume "hst p = st" "c \<in> set v"
    then show "str_l (wsb p) = 0 \<and> c = SP \<or> header_step hn (p, h) c = put_char p c st h"
      using assms(2,5) by (auto simp: defs value_ok_def)
  qed (use assms in \<open>auto simp: value_ok_def\<close>)
  moreover have "header_step hn (p, h) SP = Some (p, h)"
    using assms(1-3) by (auto simp: defs to_state_def holds_def)
  moreover have "header_step hn (p\<lparr>wsb := b\<rparr>, h) CR = Some (p\<lparr>wsb := b\<rparr>, h)" for b
    using assms(1,2) by (auto simp: defs to_state_def)
  ultimately show ?thesis by (auto simp: feed_append)
qed

lemma known_field:
  fixes hn :: "'h handler"
  assumes "hst p = HST_MSGHEAD" "holds (wsb p) []" "str_s (wsb p) = 31" "name_ok n" "value_ok v"
    "(map toupper n, st) \<in> {(''CONNECTION'', HST_MSG_CONNECTION), (''CONTENT-LENGTH'', HST_MSG_CONTENTLENGTH),
       (''TRANSFER-ENCODING'', HST_MSG_TRANSFERENCODING)}"
  shows "\<exists>b. feed (header_step hn) (p, h) (n @ '':'' @ [SP] @ v @ [CR]) = Some (p\<lparr>wsb := b, hst := st\<rparr>, h) \<and>
    holds b v \<and> str_s b = 31"
proof -
  obtain b where b: "feed (header_step hn) (p, h) n = Some (p\<lparr>wsb := b\<rparr>, h)" "holds b n" "str_s b = 31"
    using feed_name [OF assms(1-4)] by blast
  have "n \<noteq> []" using assms(4) by (simp add: name_ok_def)
  then obtain w where w: "cStr_toUpper b = Some w" "holds w (map toupper n)" "str_s w = 31"
    using str_upper_holds [OF b(2)] b(3) by auto
  have t: "str_text w = Some (map toupper n)" using str_text_holds [OF w(2)] \<open>n \<noteq> []\<close> by simp
  let ?q = "p\<lparr>wsb := cStr_clear w, hst := st\<rparr>"
  have "header_step hn (p\<lparr>wsb := b\<rparr>, h) (CHR '':'') = Some (?q, h)"
    using assms(1,6) w(1) t by (auto simp: header_step_def parseMessage1_def clear_to_def Let_def)
  moreover have "holds (wsb ?q) []" "str_s (wsb ?q) = 31"
    using w(2,3) str_clear_inv [of w] by (simp_all add: holds_def)
  then obtain b' where "feed (header_step hn) (?q, h) ([SP] @ v @ [CR]) = Some (?q\<lparr>wsb := b'\<rparr>, h)" "holds b' v" "str_s b' = 31"
    using feed_value [of ?q st v hn h] assms(5,6) by auto
  ultimately show ?thesis using b(1) by (auto simp: feed_append update_order)
qed

lemma feed_param:
  assumes "hst p = HST_MSGPARAM" "0 < str_l (wsb p)" "messageHandler hn = None" "LF \<notin> set v"
  shows "feed (header_step hn) (p, h) v = Some (p, h)"
  using assms(4)
proof (induction v)
  case (Cons c v)
  have "header_step hn (p, h) c = Some (p, h)"
    using assms(1-3) Cons(2) by (auto simp: header_step_def parseMessageParam_def mark_start_def call_message_def to_state_def)
  with Cons show ?case by simp
qed simp

lemma known_line:
  fixes hn :: "'h handler"
  assumes "hst p = HST_MSGHEAD" "holds (wsb p) []" "str_s (wsb p) = 31"
    and st: "(map toupper (field_name f), st) \<in> {(''CONNECTION'', HST_MSG_CONNECTION),
        (''CONTENT-LENGTH'', HST_MSG_CONTENTLENGTH), (''TRANSFER-ENCODING'', HST_MSG_TRANSFERENCODING)}"
      "name_ok (field_name f)" "value_ok (field_value f)"
    and fin: "\<And>b. holds b (field_value f) \<Longrightarrow> str_s b = 31 \<Longrightarrow> \<exists>w. str_inv w \<and> str_s w = 31 \<and>
        header_step hn (p\<lparr>wsb := b, hst := st\<rparr>, h) LF = clear_to (p\<lparr>wsb := w, hst := st\<rparr>) HST_MSGHEAD (apply_field h f)"
  shows "\<exists>b. feed (header_step hn) (p, h) (print_field f) = Some (p\<lparr>wsb := b\<rparr>, apply_field h f) \<and> holds b [] \<and> str_s b = 31"
proof -
  let ?l = "field_name f @ '':'' @ [SP] @ field_value f @ [CR]"
  obtain b where b: "feed (header_step hn) (p, h) ?l = Some (p\<lparr>wsb := b, hst := st\<rparr>, h)" "holds b (field_value f)" "str_s b = 31"
    using known_field [OF assms(1-3) st(2,3,1)] by blast
  obtain w where "str_inv w" "str_s w = 31"
    "header_step hn (p\<lparr>wsb := b, hst := st\<rparr>, h) LF = clear_to (p\<lparr>wsb := w, hst := st\<rparr>) HST_MSGHEAD (apply_field h f)"
    using fin [OF b(2,3)] by blast
  moreover have "p\<lparr>wsb := x, hst := HST_MSGHEAD\<rparr> = p\<lparr>wsb := x\<rparr>" for x using assms(1) by (cases p) simp
  moreover have "print_field f = ?l @ [LF]" by (simp add: print_field_def crlf_def)
  then have "feed (header_step hn) (p, h) (print_field f) = header_step hn (p\<lparr>wsb := b, hst := st\<rparr>, h) LF"
    by (simp only: feed_append [of _ _ ?l] b(1)) simp
  ultimately show ?thesis using str_clear_inv [of w] by (auto simp: clear_to_def)
qed

lemma other_line:
  assumes "hst p = HST_MSGHEAD" "holds (wsb p) []" "str_s (wsb p) = 31" "field_ok (Other n v)" "messageHandler hn = None"
  shows "\<exists>b. feed (header_step hn) (p, h) (print_field (Other n v)) = Some (p\<lparr>wsb := b\<rparr>, h) \<and> holds b [] \<and> str_s b = 31"
proof -
  obtain b where b: "feed (header_step hn) (p, h) n = Some (p\<lparr>wsb := b\<rparr>, h)" "holds b n" "str_s b = 31"
    using feed_name [OF assms(1-3), of n hn h] assms(4) by auto
  have ne: "n \<noteq> []" using assms(4) by (simp add: name_ok_def)
  then obtain w where w: "cStr_toUpper b = Some w" "holds w (map toupper n)" "str_s w = 31"
    using str_upper_holds [OF b(2)] b(3) by auto
  let ?q = "p\<lparr>wsb := w, hst := HST_MSGPARAM\<rparr>"
  have c: "header_step hn (p\<lparr>wsb := b\<rparr>, h) (CHR '':'') = Some (?q, h)"
    using assms(1,4,5) w(1) str_text_holds [OF w(2)] ne
    by (auto simp: header_step_def parseMessage1_def to_state_def Let_def)
  have l: "0 < str_l (wsb ?q)" using w(2) ne by (simp add: holds_def)
  then have v: "feed (header_step hn) (?q, h) ([SP] @ v @ [CR]) = Some (?q, h)"
    using assms(4,5) by (intro feed_param) auto
  have "feed (header_step hn) (p, h) (print_field (Other n v)) =
      feed (header_step hn) (p\<lparr>wsb := b\<rparr>, h) (CHR '':'' # ([SP] @ v @ [CR]) @ [LF])"
    by (simp add: print_field_def crlf_def feed_append b(1))
  also have "\<dots> = feed (header_step hn) (?q, h) (([SP] @ v @ [CR]) @ [LF])" by (simp only: feed.simps c Option.bind.simps)
  also have "\<dots> = header_step hn (?q, h) LF" unfolding feed_append [of _ _ "[SP] @ v @ [CR]"] v by simp
  also have "\<dots> = Some (p\<lparr>wsb := cStr_clear w\<rparr>, h)"
    using assms(1,5) l by (cases p)
      (simp add: header_step_def parseMessageParam_def mark_start_def call_message_def clear_to_def)
  finally show ?thesis using w(2,3) str_clear_inv [of w] by (auto simp: holds_def)
qed

text \<open>The line feed behind the value of a known field.\<close>

lemma value_end:
  assumes "holds b v" "str_s b = 31" "v \<noteq> []"
  shows "\<exists>w. str_inv w \<and> str_s w = 31 \<and> header_step hn (p\<lparr>wsb := b, hst := HST_MSG_CONNECTION\<rparr>, h) LF =
      clear_to (p\<lparr>wsb := w, hst := HST_MSG_CONNECTION\<rparr>) HST_MSGHEAD (apply_field h (Connection v))"
    "\<exists>w. str_inv w \<and> str_s w = 31 \<and> header_step hn (p\<lparr>wsb := b, hst := HST_MSG_TRANSFERENCODING\<rparr>, h) LF =
      clear_to (p\<lparr>wsb := w, hst := HST_MSG_TRANSFERENCODING\<rparr>) HST_MSGHEAD (apply_field h (TransferEncoding v))"
proof -
  obtain w where w: "cStr_toUpper b = Some w" "holds w (map toupper v)" "str_s w = 31"
    using str_upper_holds [OF assms(1,3)] assms(2) by auto
  note t = str_text_holds [OF w(2)] assms(3)
  show "\<exists>w. str_inv w \<and> str_s w = 31 \<and> header_step hn (p\<lparr>wsb := b, hst := HST_MSG_CONNECTION\<rparr>, h) LF =
      clear_to (p\<lparr>wsb := w, hst := HST_MSG_CONNECTION\<rparr>) HST_MSGHEAD (apply_field h (Connection v))"
    using w t by (intro exI [of _ w]) (simp add: header_step_def parseMessage_Connection_def holds_def update_order)
  show "\<exists>w. str_inv w \<and> str_s w = 31 \<and> header_step hn (p\<lparr>wsb := b, hst := HST_MSG_TRANSFERENCODING\<rparr>, h) LF =
      clear_to (p\<lparr>wsb := w, hst := HST_MSG_TRANSFERENCODING\<rparr>) HST_MSGHEAD (apply_field h (TransferEncoding v))"
    using w t by (intro exI [of _ w])
      (simp add: header_step_def parseMessage_TransferEncoding_def cStr_isEqual_def holds_def update_order)
qed

lemma length_end:
  assumes "holds b (dec_text k)" "str_s b = 31" "k < 2 ^ 31"
  shows "\<exists>w. str_inv w \<and> str_s w = 31 \<and> header_step hn (p\<lparr>wsb := b, hst := HST_MSG_CONTENTLENGTH\<rparr>, h) LF =
      clear_to (p\<lparr>wsb := w, hst := HST_MSG_CONTENTLENGTH\<rparr>) HST_MSGHEAD (apply_field h (ContentLength k))"
  using assms str_text_holds [OF assms(1) dec_text_digits(2)] strtol10_dec_text [of k] dec_text_digits(2) [of k]
  by (intro exI [of _ b]) (simp add: header_step_def parseMessage_ContentLength_def holds_def)

lemma feed_field:
  assumes "hst p = HST_MSGHEAD" "holds (wsb p) []" "str_s (wsb p) = 31" "field_ok f" "messageHandler hn = None"
  shows "\<exists>b. feed (header_step hn) (p, h) (print_field f) = Some (p\<lparr>wsb := b\<rparr>, apply_field h f) \<and> holds b [] \<and> str_s b = 31"
proof -
  have up: "map toupper ''Connection'' = ''CONNECTION''" "map toupper ''Content-Length'' = ''CONTENT-LENGTH''"
    "map toupper ''Transfer-Encoding'' = ''TRANSFER-ENCODING''" by code_simp+
  have nm: "name_ok ''Connection''" "name_ok ''Content-Length''" "name_ok ''Transfer-Encoding''"
    by (simp_all add: name_ok_def cget_def)
  have ne: "v \<noteq> []" if "value_ok v" for v using that by (simp add: value_ok_def)
  show ?thesis
  proof (cases f)
    case (ContentLength k)
    then show ?thesis using assms(4) length_end value_ok_dec_text [of k] up nm
      by (intro known_line [OF assms(1-3), of f HST_MSG_CONTENTLENGTH]) auto
  next
    case (Connection v)
    have "value_ok v" using assms(4) Connection by simp
    show ?thesis unfolding Connection
      by (rule known_line [OF assms(1-3), of _ HST_MSG_CONNECTION, OF _ _ _ value_end(1)])
        (use \<open>value_ok v\<close> ne up nm in simp_all)
  next
    case (TransferEncoding v)
    have "value_ok v" using assms(4) TransferEncoding by simp
    show ?thesis unfolding TransferEncoding
      by (rule known_line [OF assms(1-3), of _ HST_MSG_TRANSFERENCODING, OF _ _ _ value_end(2)])
        (use \<open>value_ok v\<close> ne up nm in simp_all)
  next
    case (Other n v)
    then show ?thesis using other_line [OF assms(1-3) _ assms(5), of n v h] assms(4) by simp
  qed
qed

lemma feed_fields:
  assumes "hst p = HST_MSGHEAD" "holds (wsb p) []" "str_s (wsb p) = 31" "list_all field_ok fs" "messageHandler hn = None"
  shows "\<exists>b. feed (header_step hn) (p, h) (concat (map print_field fs)) = Some (p\<lparr>wsb := b\<rparr>, foldl apply_field h fs) \<and>
    holds b [] \<and> str_s b = 31"
  using assms(1-4)
proof (induction fs arbitrary: p h)
  case Nil
  then show ?case by (intro exI [of _ "wsb p"]) simp
next
  case (Cons f fs)
  obtain b where b: "feed (header_step hn) (p, h) (print_field f) = Some (p\<lparr>wsb := b\<rparr>, apply_field h f)" "holds b []" "str_s b = 31"
    using feed_field [OF Cons(2-4) _ assms(5), of f h] Cons(5) by auto
  then show ?case
    using Cons(1) [of "p\<lparr>wsb := b\<rparr>" "apply_field h f"] Cons(2,5) by (auto simp: feed_append)
qed

lemma feed_end:
  assumes "hst p = HST_MSGHEAD" "holds (wsb p) []"
  shows "feed (header_step hn) (p, h) crlf = Some (p\<lparr>wsb := cStr_clear (wsb p), hst := HST_EOH\<rparr>, h)"
  using assms by (cases p) (simp add: crlf_def header_step_def parseMessage1_def to_state_def clear_to_def holds_def)

lemma feed_method:
  fixes hn :: "'h handler"
  assumes "hst p = HST_START" "holds (wsb p) []" "str_s (wsb p) = 31" "m \<in> fst ` set (tbl_items method_id_table)"
  shows "\<exists>b. feed (header_step hn) (p, h) (m @ [SP]) =
      Some (p\<lparr>wsb := b, hst := HST_RL_URL\<rparr>, h\<lparr>req_method := TTextIdTbl_getMatchIdIgnoreCase m method_id_table, htype := TYPE_REQUEST\<rparr>) \<and>
    holds b [] \<and> str_s b = 31"
proof -
  have m: "m \<in> {''GET'', ''POST'', ''HEAD'', ''M-SEARCH'', ''NOTIFY''}" using assms(4) by (auto simp: method_id_table_def)
  then have ok: "m \<noteq> []" "length m \<le> 31" "no_nul m" "SP \<notin> set m" "cget m 0 \<noteq> SP" by (auto simp: cget_def)
  have "\<exists>b. feed (header_step hn) (p, h) m = Some (p\<lparr>wsb := b\<rparr>, h) \<and> holds b ([] @ m) \<and> str_s b = 31"
  proof (rule feed_word [of HST_START])
    fix p :: "'h header_parser" and c
    assume "hst p = HST_START" "c \<in> set m"
    then show "str_l (wsb p) = 0 \<and> c = SP \<or> header_step hn (p, h) c = put_char p c HST_START h"
      using ok(4) by (auto simp: header_step_def parseStartLine_def)
  qed (use assms ok in auto)
  then obtain b where b: "feed (header_step hn) (p, h) m = Some (p\<lparr>wsb := b\<rparr>, h)" "holds b m" "str_s b = 31" by auto
  have "list_all (\<lambda>m. \<not> strncmp_eq m ''HTTP/'' 5) [''GET'', ''POST'', ''HEAD'', ''M-SEARCH'', ''NOTIFY'']" by code_simp
  then have "\<not> strncmp_eq m ''HTTP/'' 5" using m by (auto simp: list_all_iff)
  then have "parseHttpVersionStr (str_l b) m h = (False, h)" by (simp add: parseHttpVersionStr_def)
  moreover have "list_all (\<lambda>m. TTextIdTbl_getMatchIdIgnoreCase m method_id_table \<noteq> METHOD_NULL)
      [''GET'', ''POST'', ''HEAD'', ''M-SEARCH'', ''NOTIFY'']" by code_simp
  then have "TTextIdTbl_getMatchIdIgnoreCase m method_id_table \<noteq> METHOD_NULL"
    using m by (auto simp: list_all_iff)
  ultimately have "header_step hn (p\<lparr>wsb := b\<rparr>, h) SP =
      Some (p\<lparr>wsb := cStr_clear b, hst := HST_RL_URL\<rparr>, h\<lparr>req_method := TTextIdTbl_getMatchIdIgnoreCase m method_id_table, htype := TYPE_REQUEST\<rparr>)"
    using assms(1) str_text_holds [OF b(2) ok(1)]
    by (simp add: header_step_def parseStartLine_def parseRequestMethodStr_def clear_to_def Let_def)
  then show ?thesis using b str_clear_inv [of b] by (auto simp: feed_append holds_def)
qed

lemma feed_url:
  fixes hn :: "'h handler"
  assumes "hst p = HST_RL_URL" "holds (wsb p) []" "str_s (wsb p) = 31" "urlHandler hn = None" "url \<noteq> []" "SP \<notin> set url"
  shows "\<exists>b. feed (header_step hn) (p, h) (url @ [SP]) = Some (p\<lparr>wsb := b, hst := HST_RL_VERSION\<rparr>, h) \<and> holds b [] \<and> str_s b = 31"
proof -
  obtain c cs where u: "url = c # cs" using assms(5) by (cases url) auto
  obtain b where b: "cStr_put (wsb p) (CHR ''C'') = Some (True, b)" "holds b ''C''" "str_s b = 31"
    using str_put_holds [OF assms(2), of "CHR ''C''"] assms(3) by auto
  have rest: "feed (header_step hn) (p\<lparr>wsb := b\<rparr>, h) xs = Some (p\<lparr>wsb := b\<rparr>, h)" if "SP \<notin> set xs" for xs
    using that
  proof (induction xs)
    case (Cons x xs)
    have "header_step hn (p\<lparr>wsb := b\<rparr>, h) x = Some (p\<lparr>wsb := b\<rparr>, h)"
      using assms(1,4) b(2) Cons(2)
      by (auto simp: header_step_def parseRequestUrl_def mark_start_def call_url_def to_state_def holds_def)
    with Cons show ?case by simp
  qed simp
  have "header_step hn (p, h) c = Some (p\<lparr>wsb := b\<rparr>, h)"
    using assms(1,2,4,6) b(1) u
    by (auto simp: header_step_def parseRequestUrl_def mark_start_def call_url_def to_state_def holds_def)
  moreover have "header_step hn (p\<lparr>wsb := b\<rparr>, h) SP = Some (p\<lparr>wsb := cStr_clear b, hst := HST_RL_VERSION\<rparr>, h)"
    using assms(1,4) b(2)
    by (simp add: header_step_def parseRequestUrl_def mark_start_def call_url_def to_state_def holds_def)
  ultimately show ?thesis
    using rest [of cs] assms(6) u b(2,3) str_clear_inv [of b] by (auto simp: feed_append holds_def)
qed

lemma version_11: "parseHttpVersionStr 8 ''HTTP/1.1'' h = (True, h\<lparr>version := VERSION_11\<rparr>)"
proof -
  have "strtol10 ''1.1'' = (1, 1)" by (simp add: strtol10_def cget_def cchars Let_def)
  moreover have "strtoul10 ''1'' = (1, 1)" by (simp add: strtoul10_def cget_def cchars Let_def)
  moreover have "strncmp_eq ''HTTP/1.1'' ''HTTP/'' 5" by code_simp
  ultimately show ?thesis by (simp add: parseHttpVersionStr_def cget_def)
qed

lemma feed_version:
  fixes hn :: "'h handler"
  assumes "hst p = HST_RL_VERSION" "holds (wsb p) []" "str_s (wsb p) = 31"
  shows "\<exists>b. feed (header_step hn) (p, h) (''HTTP/1.1'' @ crlf) = Some (p\<lparr>wsb := b, hst := HST_MSGHEAD\<rparr>, h\<lparr>version := VERSION_11\<rparr>) \<and>
    holds b [] \<and> str_s b = 31"
proof -
  have "\<exists>b. feed (header_step hn) (p, h) ''HTTP/1.1'' = Some (p\<lparr>wsb := b\<rparr>, h) \<and> holds b ([] @ ''HTTP/1.1'') \<and> str_s b = 31"
  proof (rule feed_word [of HST_RL_VERSION])
    fix p :: "'h header_parser" and c
    assume "hst p = HST_RL_VERSION" "c \<in> set ''HTTP/1.1''"
    then show "str_l (wsb p) = 0 \<and> c = SP \<or> header_step hn (p, h) c = put_char p c HST_RL_VERSION h"
      by (auto simp: header_step_def parseVersion_def)
  qed (use assms in \<open>auto simp: cget_def\<close>)
  then obtain b where b: "feed (header_step hn) (p, h) ''HTTP/1.1'' = Some (p\<lparr>wsb := b\<rparr>, h)" "holds b ''HTTP/1.1''" "str_s b = 31"
    by auto
  have "header_step hn (p\<lparr>wsb := b\<rparr>, h) CR = Some (p\<lparr>wsb := b\<rparr>, h)"
    using assms(1) by (simp add: header_step_def parseVersion_def to_state_def)
  moreover have "str_l b = 8" using b(2) by (simp add: holds_def)
  then have "header_step hn (p\<lparr>wsb := b\<rparr>, h) LF = Some (p\<lparr>wsb := cStr_clear b, hst := HST_MSGHEAD\<rparr>, h\<lparr>version := VERSION_11\<rparr>)"
    using assms(1) str_text_holds [OF b(2)] version_11
    by (simp add: header_step_def parseVersion_def clear_to_def)
  moreover have "feed (header_step hn) (p, h) (''HTTP/1.1'' @ crlf) = feed (header_step hn) (p\<lparr>wsb := b\<rparr>, h) crlf"
    unfolding feed_append b(1) by simp
  ultimately show ?thesis using b(2,3) str_clear_inv [of b] by (auto simp: crlf_def holds_def)
qed

lemma request_parsed:
  assumes "holds (wsb p) []" "str_s (wsb p) = 31" "messageHandler hn = None" "urlHandler hn = None"
    "m \<in> fst ` set (tbl_items method_id_table)" "url \<noteq> []" "SP \<notin> set url" "list_all field_ok fs"
  shows "\<exists>p'. cHttpBasicHeaderParser_parseChar hn (cHttpBasicHeaderParser_parseInit p h) (print_request m url fs @ body) =
    Some (length (print_request m url fs), p',
      foldl apply_field (h\<lparr>connection := CONN_NONE, content_length := INVALID_LENGTH, transfer_encoding := TE_NONE,
        req_method := TTextIdTbl_getMatchIdIgnoreCase m method_id_table, htype := TYPE_REQUEST, version := VERSION_11\<rparr>) fs) \<and>
    hst p' = HST_EOH"
proof -
  let ?s = "header_step hn" and ?p = "to_state p HST_START"
  let ?h = "h\<lparr>connection := CONN_NONE, content_length := INVALID_LENGTH, transfer_encoding := TE_NONE\<rparr>"
  let ?h1 = "?h\<lparr>req_method := TTextIdTbl_getMatchIdIgnoreCase m method_id_table, htype := TYPE_REQUEST\<rparr>"
  let ?h2 = "?h1\<lparr>version := VERSION_11\<rparr>"
  obtain a where a: "feed ?s (?p, ?h) (m @ [SP]) = Some (?p\<lparr>wsb := a, hst := HST_RL_URL\<rparr>, ?h1)" "holds a []" "str_s a = 31"
    using feed_method [of ?p m hn ?h] assms(1,2,5) by (auto simp: to_state_def)
  obtain b where b: "feed ?s (?p\<lparr>wsb := a, hst := HST_RL_URL\<rparr>, ?h1) (url @ [SP]) =
      Some (?p\<lparr>wsb := b, hst := HST_RL_VERSION\<rparr>, ?h1)" "holds b []" "str_s b = 31"
    using feed_url [of "?p\<lparr>wsb := a, hst := HST_RL_URL\<rparr>" hn url ?h1] assms(4,6,7) a(2,3) by (auto simp: update_order)
  obtain c where c: "feed ?s (?p\<lparr>wsb := b, hst := HST_RL_VERSION\<rparr>, ?h1) (''HTTP/1.1'' @ crlf) =
      Some (?p\<lparr>wsb := c, hst := HST_MSGHEAD\<rparr>, ?h2)" "holds c []" "str_s c = 31"
    using feed_version [of "?p\<lparr>wsb := b, hst := HST_RL_VERSION\<rparr>" hn ?h1] b(2,3) by (auto simp: update_order)
  obtain d where d: "feed ?s (?p\<lparr>wsb := c, hst := HST_MSGHEAD\<rparr>, ?h2) (concat (map print_field fs)) =
      Some (?p\<lparr>wsb := d, hst := HST_MSGHEAD\<rparr>, foldl apply_field ?h2 fs)" "holds d []" "str_s d = 31"
    using feed_fields [of "?p\<lparr>wsb := c, hst := HST_MSGHEAD\<rparr>" fs hn ?h2] c(2,3) assms(3,8) by (auto simp: update_order)
  let ?q = "?p\<lparr>wsb := cStr_clear d, hst := HST_EOH\<rparr>"
  have "feed ?s (?p\<lparr>wsb := d, hst := HST_MSGHEAD\<rparr>, foldl apply_field ?h2 fs) crlf = Some (?q, foldl apply_field ?h2 fs)"
    using feed_end [of "?p\<lparr>wsb := d, hst := HST_MSGHEAD\<rparr>" hn] d(2) by (simp add: update_order)
  then have "feed ?s (?p, ?h) ((m @ [SP]) @ (url @ [SP]) @ (''HTTP/1.1'' @ crlf) @ concat (map print_field fs) @ crlf) =
      Some (?q, foldl apply_field ?h2 fs)"
    by (simp only: feed_append [of _ _ "m @ [SP]"] feed_append [of _ _ "url @ [SP]"] feed_append [of _ _ "''HTTP/1.1'' @ crlf"]
        feed_append [of _ _ "concat (map print_field fs)"] a(1) b(1) c(1) d(1) Option.bind.simps)
  then have f: "feed ?s (?p, ?h) (print_request m url fs) = Some (?q, foldl apply_field ?h2 fs)"
    by (simp add: print_request_def)
  have "header_inv ?p" using assms(1,2) by (simp add: header_inv_def holds_def to_state_def)
  then have "parse_loop hn 0 (?p, ?h) (print_request m url fs @ body) =
      Some (length (print_request m url fs), ?q, foldl apply_field ?h2 fs)"
    using parse_loop_feed [OF f, of 0 body] by (simp add: to_state_def print_request_def)
  then show ?thesis
    by (auto simp: cHttpBasicHeaderParser_parseChar_def cHttpBasicHeaderParser_parseInit_def to_state_def)
qed

text \<open>
  C2: A request in the usual form is read back: for every method of the table, every URL without
  spaces and every list of well-formed header fields, the parser accepts the text, stops right
  behind the empty line, however the body goes on, and has stored the method, the version and the
  meaning of the fields in their order.
\<close>

theorem http_request_roundtrip:
  assumes "holds (wsb p) []" "str_s (wsb p) = 31" "messageHandler hn = None" "urlHandler hn = None"
    "m \<in> fst ` set (tbl_items method_id_table)" "url \<noteq> []" "SP \<notin> set url" "list_all field_ok fs"
  shows "\<exists>p'. cHttpBasicHeaderParser_parseChar hn (cHttpBasicHeaderParser_parseInit p h) (print_request m url fs @ body) =
    Some (length (print_request m url fs), p',
      foldl apply_field (h\<lparr>connection := CONN_NONE, content_length := INVALID_LENGTH, transfer_encoding := TE_NONE,
        req_method := TTextIdTbl_getMatchIdIgnoreCase m method_id_table, htype := TYPE_REQUEST, version := VERSION_11\<rparr>) fs) \<and>
    hst p' = HST_EOH"
  by (rule request_parsed [OF assms])

theorem http_request_roundtrip_witness:
  "\<exists>p'. cHttpBasicHeaderParser_parseChar null_handler (cHttpBasicHeaderParser_parseInit demo_hparser demo_http)
      (print_request ''POST'' ''/rpc'' [Other ''Host'' ''a'', ContentLength 12, Connection ''close''] @ ''{}'') =
    Some (length (print_request ''POST'' ''/rpc'' [Other ''Host'' ''a'', ContentLength 12, Connection ''close'']), p',
      \<lparr>transfer_encoding = TE_NONE, connection = CONN_CLOSE, htype = TYPE_REQUEST, version = VERSION_11, req_method = 2,
       status = 0, content_length = 12\<rparr>) \<and> hst p' = HST_EOH"
proof -
  let ?fs = "[Other ''Host'' ''a'', ContentLength 12, Connection ''close'']"
  have m: "TTextIdTbl_getMatchIdIgnoreCase ''POST'' method_id_table = 2" by code_simp
  have c: "connection_id (map toupper ''close'') = CONN_CLOSE" by code_simp
  have u: "map toupper ''Host'' \<notin> {''CONNECTION'', ''CONTENT-LENGTH'', ''TRANSFER-ENCODING''}" by code_simp
  then have f: "list_all field_ok ?fs" by (simp add: name_ok_def value_ok_def cget_def)
  show ?thesis
    using http_request_roundtrip [of demo_hparser null_handler "''POST''" "''/rpc''" ?fs demo_http "''{}''"] demo_hparser_inv f c
    by (simp add: null_handler_def method_id_table_def m [unfolded method_id_table_def] demo_http_def)
      (simp add: demo_hparser_def)
qed

section \<open>The final test\<close>



text \<open>
  Because clearing the word buffer keeps its text, a field line that starts with a colon takes
  the upper-case value of the line before it for its name: here the value \<open>connection\<close> of a transfer
  encoding turns the nameless line behind it into a Connection field.
\<close>

theorem stale_field_name:
  "map_option (\<lambda>s. (hst (fst s), connection (snd s))) (feed (header_step null_handler)
     (demo_hparser\<lparr>hst := HST_MSGHEAD\<rparr>, demo_http) (''Transfer-Encoding:connection'' @ [LF] @ '':close'' @ [LF])) =
   Some (HST_MSGHEAD, CONN_CLOSE)"
  by code_simp

text \<open>
  A version 0.x with x below 9 is accepted without a version being stored: the result keeps
  whatever version it had.
\<close>

theorem version_0_unset:
  assumes "d \<in> set ''012345678''"
  shows "parseHttpVersionStr 8 (''HTTP/0.'' @ [d]) h = (True, h)"
proof -
  have "strtol10 (''0.'' @ [d]) = (0, 1)" by (simp add: strtol10_def cget_def cchars Let_def)
  moreover have d: "isdigit d" "ord d - 48 < 9" using assms by (auto simp: cchars)
  from isdigit_facts [OF d(1)] have f: "\<not> isspace d" "d \<noteq> CHR ''-''" "d \<noteq> CHR ''+''" "d \<noteq> NUL" by simp_all
  have "strtoul10 [d] = (of_nat (ord d - 48), 1)"
    using d f by (simp add: strtoul10_def cget_def Let_def)
  moreover have "sint (of_nat (ord d - 48) :: u32) = int (ord d - 48)"
  proof -
    have u: "uint (of_nat (ord d - 48) :: u32) = int (ord d - 48)"
      using d(2) by (simp add: uint_nat unat_of_nat)
    show ?thesis unfolding sint_uint u using d(2) by (intro signed_take_bit_int_eq_self) simp_all
  qed
  moreover have "strncmp_eq (''HTTP/0.'' @ [d]) ''HTTP/'' 5" using f(4) by (simp add: strncmp_eq_iff)
  ultimately show ?thesis using d(2) by (simp add: parseHttpVersionStr_def cget_def)
qed

theorem version_0_unset_witness: "parseHttpVersionStr 8 (''HTTP/0.'' @ ''5'') demo_http = (True, demo_http)"
  by (rule version_0_unset) simp

end
