(* ===== verification/HttpBody.thy ===== *)
theory HttpBody
  imports HttpHeader
begin

text \<open>
  \<open>NyLPC_cHttpBasicBodyParser.c\<close> and \<open>NyLPC_cHttpBodyParser.c\<close>: the parser of message bodies, of a
  known length or chunked, which passes the characters of the body to a handler, and the reader
  that collects them in a buffer. The handler is a parameter with a state of its own; \<open>None\<close> is
  a fault of the handler, or an overflow of the signed chunk length, which C leaves undefined.
\<close>

section \<open>The parser\<close>

abbreviation (input) "BST_CHUNK_HEADER_START \<equiv> (0x11 :: u8)"
abbreviation (input) "BST_CHUNK_HEADER_SP \<equiv> (0x12 :: u8)"
abbreviation (input) "BST_CHUNK_HEADER_EXT \<equiv> (0x13 :: u8)"
abbreviation (input) "BST_CHUNK_BODY \<equiv> (0x14 :: u8)"
abbreviation (input) "BST_CHUNK_FOOTER \<equiv> (0x15 :: u8)"
abbreviation (input) "BST_CHUNK_END \<equiv> (0x16 :: u8)"
abbreviation (input) "BST_BODY \<equiv> (0x17 :: u8)"
abbreviation (input) "BST_EOB \<equiv> (0x7F :: u8)"
abbreviation (input) "BST_ERROR \<equiv> (0x80 :: u8)"
abbreviation (input) "BST_NULL \<equiv> (0x00 :: u8)"

record 'h body_parser =
  encode_type :: u8
  bstatus :: u8
  recv_len :: int
  body_length :: u32
  bstate :: 'h

type_synonym 'h body_handler = "'h \<Rightarrow> char \<Rightarrow> (bool \<times> 'h) option"

definition cHttpBasicBodyParser_initialize :: "'h body_parser \<Rightarrow> 'h \<Rightarrow> 'h body_parser" where
  "cHttpBasicBodyParser_initialize p s = p\<lparr>bstate := s, bstatus := BST_NULL\<rparr>"

definition cHttpBasicBodyParser_parseInit :: "'h body_parser \<Rightarrow> http_header \<Rightarrow> 'h body_parser" where
  "cHttpBasicBodyParser_parseInit p i_info =
     (if transfer_encoding i_info = TE_CHUNKED
      then p\<lparr>encode_type := TE_CHUNKED, bstatus := BST_CHUNK_HEADER_START, recv_len := 0\<rparr>
      else p\<lparr>encode_type := TE_NONE, body_length := content_length i_info, bstatus := BST_BODY\<rparr>)"

definition cHttpBasicBodyParser_parseFinish :: "'h body_parser \<Rightarrow> bool \<times> 'h body_parser" where
  "cHttpBasicBodyParser_parseFinish p = (bstatus p = BST_EOB, p\<lparr>bstatus := BST_NULL\<rparr>)"

text \<open>What one turn of the loop over the characters of a chunked body does with the position.\<close>

datatype 'h turn = Advance "'h body_parser" | Stay "'h body_parser" | Return "'h body_parser" | Fail "'h body_parser"

definition chunk_body :: "'h body_handler \<Rightarrow> 'h body_parser \<Rightarrow> char \<Rightarrow> 'h turn option" where
  "chunk_body f p c = do {
     (more, s) \<leftarrow> f (bstate p) c;
     let p = p\<lparr>bstate := s, recv_len := recv_len p - 1\<rparr>;
     let p = (if recv_len p = 0 then p\<lparr>bstatus := BST_CHUNK_FOOTER\<rparr> else p);
     Some (if more then Advance p else Return p) }"

definition chunk_header_start :: "'h body_parser \<Rightarrow> char \<Rightarrow> 'h turn option" where
  "chunk_header_start p c =
     (if isxdigit c then
        let n = recv_len p * 16 + int (ctox c) in
        if n > 0x7fffffff then None
        else if n > 0x0fffffff then Some (Fail (p\<lparr>recv_len := n\<rparr>))
        else Some (Advance (p\<lparr>recv_len := n\<rparr>))
      else if c = SP then Some (Advance (p\<lparr>bstatus := BST_CHUNK_HEADER_SP\<rparr>))
      else if c = CR \<or> c = LF then Some (Stay (p\<lparr>bstatus := BST_CHUNK_HEADER_EXT\<rparr>))
      else Some (Fail p))"

definition chunk_turn :: "'h body_handler \<Rightarrow> 'h body_parser \<Rightarrow> char \<Rightarrow> 'h turn option" where
  "chunk_turn f p c =
     (if bstatus p = BST_CHUNK_BODY then chunk_body f p c
      else if bstatus p = BST_CHUNK_HEADER_START then chunk_header_start p c
      else if bstatus p = BST_CHUNK_HEADER_SP then
        Some (if c = SP then Advance p else Stay (p\<lparr>bstatus := BST_CHUNK_HEADER_EXT\<rparr>))
      else if bstatus p = BST_CHUNK_HEADER_EXT then
        Some (Advance (if c = LF then p\<lparr>bstatus := if recv_len p = 0 then BST_CHUNK_END else BST_CHUNK_BODY\<rparr> else p))
      else if bstatus p = BST_CHUNK_FOOTER then
        Some (if c = CR then Advance p else if c = LF then Advance (p\<lparr>bstatus := BST_CHUNK_HEADER_START\<rparr>) else Fail p)
      else if bstatus p = BST_CHUNK_END then
        Some (if c = CR then Advance p else if c = LF then Return (p\<lparr>bstatus := BST_EOB\<rparr>) else Fail p)
      else Some (Fail p))"

text \<open>A turn that keeps the position leaves the header states in one direction only.\<close>

definition state_rank :: "'h body_parser \<Rightarrow> nat" where
  "state_rank p = (if bstatus p = BST_CHUNK_HEADER_START then 2 else if bstatus p = BST_CHUNK_HEADER_SP then 1 else 0)"

lemma stay_rank: "chunk_turn f p c = Some (Stay q) \<Longrightarrow> state_rank q < state_rank p"
  by (auto simp: chunk_turn_def chunk_body_def chunk_header_start_def state_rank_def Let_def
      split: if_splits Option.bind_splits)

function chunk_loop :: "'h body_handler \<Rightarrow> int \<Rightarrow> 'h body_parser \<Rightarrow> string \<Rightarrow> (int \<times> 'h body_parser) option" where
  "chunk_loop f i p [] = Some (i, p)"
| "chunk_loop f i p (c # cs) =
     (case chunk_turn f p c of
        None \<Rightarrow> None
      | Some (Advance q) \<Rightarrow> chunk_loop f (i + 1) q cs
      | Some (Stay q) \<Rightarrow> chunk_loop f i q (c # cs)
      | Some (Return q) \<Rightarrow> Some (i + 1, q)
      | Some (Fail q) \<Rightarrow> Some (- 1, q\<lparr>bstatus := BST_ERROR\<rparr>))"
  by pat_completeness auto
termination
  by (relation "measures [\<lambda>(f, i, p, cs). length cs, \<lambda>(f, i, p, cs). state_rank p]") (auto simp: stay_rank)

fun body_loop :: "'h body_handler \<Rightarrow> int \<Rightarrow> 'h body_parser \<Rightarrow> string \<Rightarrow> (int \<times> 'h body_parser) option" where
  "body_loop f i p [] = Some (i, p)"
| "body_loop f i p (c # cs) =
     (if 0 < body_length p then do {
        (more, s) \<leftarrow> f (bstate p) c;
        let p = p\<lparr>bstate := s, body_length := body_length p - 1\<rparr>;
        if more then body_loop f (i + 1) p cs else Some (i + 1, p) }
      else Some (i, p))"

definition cHttpBasicBodyParser_parseChar :: "'h body_handler \<Rightarrow> 'h body_parser \<Rightarrow> string \<Rightarrow> (int \<times> 'h body_parser) option" where
  "cHttpBasicBodyParser_parseChar f p i_c =
     (if encode_type p = TE_CHUNKED then chunk_loop f 0 p i_c
      else if encode_type p = TE_NONE then
        (if bstatus p \<noteq> BST_BODY then Some (- 1, p\<lparr>bstatus := BST_ERROR\<rparr>)
         else do {
           (i, p) \<leftarrow> body_loop f 0 p i_c;
           Some (i, if body_length p = 0 then p\<lparr>bstatus := BST_EOB\<rparr> else p) })
      else Some (- 1, p\<lparr>bstatus := BST_ERROR\<rparr>))"

section \<open>The reader\<close>

record read_buf =
  ref_buf :: "char list"
  buf_size :: u16
  rlen :: u16

text \<open>The handler of the reader: it asks for more as long as the buffer has room.\<close>

definition bodyHandler :: "read_buf body_handler" where
  "bodyHandler r c = do {
     b \<leftarrow> wr (ref_buf r) (unat (rlen r)) c;
     let r = r\<lparr>ref_buf := b, rlen := rlen r + 1\<rparr>;
     Some (buf_size r > rlen r, r) }"

text \<open>
  One call: \<open>input\<close> is what the stream delivers (\<open>None\<close> when the read fails), the result the
  returned flag, the parser, the number of characters read and what was consumed of the stream.
\<close>

definition cHttpBodyParser_parseStream ::
  "read_buf body_parser \<Rightarrow> string option \<Rightarrow> char list \<Rightarrow> u16 \<Rightarrow> (bool \<times> read_buf body_parser \<times> u16 \<times> int) option" where
  "cHttpBodyParser_parseStream p input i_buf i_buf_size =
     (let p = p\<lparr>bstate := \<lparr>ref_buf = i_buf, buf_size = i_buf_size, rlen = 0\<rparr>\<rparr> in
      if bstatus p = BST_EOB then Some (True, p, 0, 0)
      else case input of
        None \<Rightarrow> Some (False, p, 0, 0)
      | Some x \<Rightarrow> if x = [] then Some (False, p, 0, 0)
          else do {
            (n, p) \<leftarrow> cHttpBasicBodyParser_parseChar bodyHandler p x;
            if bstatus p = BST_ERROR then Some (False, p, 0, 0)
            else Some (True, p, rlen (bstate p), n) })"

section \<open>Chunked bodies\<close>

declare chunk_loop.simps(2) [simp del]

text \<open>What a handler that is never full does with a text.\<close>

fun deliver :: "'h body_handler \<Rightarrow> 'h \<Rightarrow> string \<Rightarrow> 'h option" where
  "deliver f s [] = Some s"
| "deliver f s (c # cs) = (case f s c of Some (True, t) \<Rightarrow> deliver f t cs | _ \<Rightarrow> None)"

lemma deliver_append: "deliver f s (xs @ ys) = Option.bind (deliver f s xs) (\<lambda>t. deliver f t ys)"
  by (induction f s xs rule: deliver.induct) (auto split: option.split bool.split)

definition hex_text :: "nat \<Rightarrow> string" where
  "hex_text n = rev (udigits 16 n)"

text \<open>A chunk \<open>d\<close> with its size written as \<open>h\<close>, which may have leading zeros and upper or lower case digits.\<close>

definition chunk_with :: "string \<Rightarrow> string \<Rightarrow> string" where
  "chunk_with h d = h @ [CR, LF] @ d @ [CR, LF]"

definition chunk_text :: "string \<Rightarrow> string" where
  "chunk_text d = chunk_with (hex_text (length d)) d"

definition size_text :: "string \<Rightarrow> nat \<Rightarrow> bool" where
  "size_text h n \<longleftrightarrow> list_all isxdigit h \<and> foldl (\<lambda>a c. a * 16 + int (ctox c)) 0 h = int n"

definition last_chunk :: string where
  "last_chunk = ''0'' @ [CR, LF, CR, LF]"

lemma hex_foldl_ge: "0 \<le> a \<Longrightarrow> a \<le> foldl (\<lambda>a c. a * 16 + int (ctox c)) a s"
proof (induction s arbitrary: a)
  case (Cons c s)
  have "a \<le> a * 16 + int (ctox c)" using Cons(2) by simp
  also have "\<dots> \<le> foldl (\<lambda>a c. a * 16 + int (ctox c)) (a * 16 + int (ctox c)) s"
    using Cons(2) by (intro Cons(1)) simp
  finally show ?case by simp
qed simp

lemma chunk_size:
  assumes "list_all isxdigit s" "bstatus p = BST_CHUNK_HEADER_START" "0 \<le> recv_len p"
    "foldl (\<lambda>a c. a * 16 + int (ctox c)) (recv_len p) s \<le> 0x0fffffff"
  shows "chunk_loop f i p (s @ r) =
    chunk_loop f (i + int (length s)) (p\<lparr>recv_len := foldl (\<lambda>a c. a * 16 + int (ctox c)) (recv_len p) s\<rparr>) r"
  using assms
proof (induction s arbitrary: p i)
  case (Cons c s)
  let ?n = "recv_len p * 16 + int (ctox c)"
  have "?n \<le> 0x0fffffff" using hex_foldl_ge [of ?n s] Cons(4,5) by simp
  then have "chunk_turn f p c = Some (Advance (p\<lparr>recv_len := ?n\<rparr>))"
    using Cons(2,3) by (simp add: chunk_turn_def chunk_header_start_def Let_def)
  then show ?case
    using Cons(1) [of "p\<lparr>recv_len := ?n\<rparr>" "i + 1"] Cons(2-5) by (simp add: chunk_loop.simps ac_simps)
qed simp

lemma hex_text_value:
  "foldl (\<lambda>a c. a * 16 + int (ctox c)) 0 (hex_text n) = int n" "list_all isxdigit (hex_text n)"
proof -
  have "foldl (\<lambda>a c. a * 16 + int (ctox c)) (int a) s = int (foldl (\<lambda>a c. 16 * a + ctox c) a s)" for a s
  proof (induction s arbitrary: a)
    case (Cons c s)
    show ?case using Cons [of "16 * a + ctox c"] by (simp add: mult.commute)
  qed simp
  from this [of 0] show "foldl (\<lambda>a c. a * 16 + int (ctox c)) 0 (hex_text n) = int n"
    using num_value_rev_udigits [of 16 n] by (simp add: num_value_def hex_text_def)
  show "list_all isxdigit (hex_text n)" using udigits_xdigit [of 16 n] by (simp add: hex_text_def list_all_iff)
qed

lemma chunk_header_end:
  "bstatus p = BST_CHUNK_HEADER_START \<Longrightarrow> chunk_loop f i p (CR # LF # r) =
     chunk_loop f (i + 1 + 1) (p\<lparr>bstatus := if recv_len p = 0 then BST_CHUNK_END else BST_CHUNK_BODY\<rparr>) r"
  by (simp add: chunk_loop.simps chunk_turn_def chunk_header_start_def cchars)

lemma chunk_data:
  assumes "bstatus p = BST_CHUNK_BODY" "recv_len p = int (length d)" "d \<noteq> []" "deliver f (bstate p) d = Some t"
  shows "chunk_loop f i p (d @ r) =
    chunk_loop f (i + int (length d)) (p\<lparr>bstatus := BST_CHUNK_FOOTER, recv_len := 0, bstate := t\<rparr>) r"
  using assms
proof (induction d arbitrary: p i)
  case (Cons c d)
  obtain u where u: "f (bstate p) c = Some (True, u)" "deliver f u d = Some t"
    using Cons(5) by (auto split: option.splits bool.splits)
  show ?case
  proof (cases "d = []")
    case True
    then show ?thesis using Cons(2,3) u by (cases p) (simp add: chunk_loop.simps chunk_turn_def chunk_body_def Let_def)
  next
    case False
    then have "chunk_turn f p c = Some (Advance (p\<lparr>bstate := u, recv_len := int (length d)\<rparr>))"
      using Cons(2,3) u(1) by (simp add: chunk_turn_def chunk_body_def Let_def)
    moreover have "p\<lparr>bstate := u, recv_len := int (length d), bstatus := BST_CHUNK_FOOTER, recv_len := 0, bstate := t\<rparr> =
        p\<lparr>bstatus := BST_CHUNK_FOOTER, recv_len := 0, bstate := t\<rparr>" by (cases p) simp
    ultimately show ?thesis
      using Cons(1) [of "p\<lparr>bstate := u, recv_len := int (length d)\<rparr>" "i + 1"] Cons(2) False u(2) by (simp add: chunk_loop.simps ac_simps)
  qed
qed simp

lemma chunk_footer:
  "bstatus p = BST_CHUNK_FOOTER \<Longrightarrow> chunk_loop f i p (CR # LF # r) = chunk_loop f (i + 1 + 1) (p\<lparr>bstatus := BST_CHUNK_HEADER_START\<rparr>) r"
  by (simp add: chunk_loop.simps chunk_turn_def)

lemma one_chunk:
  assumes "bstatus p = BST_CHUNK_HEADER_START" "recv_len p = 0" "d \<noteq> []" "length d \<le> 0x0fffffff"
    "deliver f (bstate p) d = Some t" "size_text h (length d)"
  shows "chunk_loop f i p (chunk_with h d @ r) = chunk_loop f (i + int (length (chunk_with h d))) (p\<lparr>bstate := t\<rparr>) r"
proof -
  let ?n = "int (length d)"
  let ?q = "p\<lparr>recv_len := ?n, bstatus := BST_CHUNK_BODY\<rparr>"
  have "chunk_loop f i p (chunk_with h d @ r) = chunk_loop f (i + int (length h)) (p\<lparr>recv_len := ?n\<rparr>) (CR # LF # d @ CR # LF # r)"
    using chunk_size [of h p f i] assms(1,2,4,6) by (simp add: chunk_with_def size_text_def)
  also have "\<dots> = chunk_loop f (i + int (length h) + 1 + 1) ?q (d @ CR # LF # r)"
    using assms(1,3) by (subst chunk_header_end) simp_all
  also have "\<dots> = chunk_loop f (i + int (length h) + 1 + 1 + ?n) (?q\<lparr>bstatus := BST_CHUNK_FOOTER, recv_len := 0, bstate := t\<rparr>) (CR # LF # r)"
    using assms(3,5) by (intro chunk_data) simp_all
  also have "\<dots> = chunk_loop f (i + int (length h) + 1 + 1 + ?n + 1 + 1) (p\<lparr>bstate := t\<rparr>) r"
  proof -
    have "?q\<lparr>bstatus := BST_CHUNK_FOOTER, recv_len := 0, bstate := t, bstatus := BST_CHUNK_HEADER_START\<rparr> = p\<lparr>bstate := t\<rparr>"
      using assms(1,2) by (cases p) simp
    then show ?thesis by (subst chunk_footer) simp_all
  qed
  finally show ?thesis by (simp add: chunk_with_def ac_simps)
qed

text \<open>A body of chunks, given with the texts of their sizes.\<close>

definition chunked_text :: "(string \<times> string) list \<Rightarrow> string" where
  "chunked_text cs = concat (map (\<lambda>(h, d). chunk_with h d) cs) @ last_chunk"

lemma chunks_decoded:
  assumes "encode_type p = TE_CHUNKED" "bstatus p = BST_CHUNK_HEADER_START" "recv_len p = 0"
    "\<forall>(h, d)\<in>set cs. size_text h (length d) \<and> d \<noteq> [] \<and> length d \<le> 0x0fffffff" "deliver f (bstate p) (concat (map snd cs)) = Some t"
  shows "cHttpBasicBodyParser_parseChar f p (chunked_text cs @ r) =
    Some (int (length (chunked_text cs)), p\<lparr>bstatus := BST_EOB, bstate := t\<rparr>)"
proof -
  have "chunk_loop f i p (chunked_text cs @ r) =
      Some (i + int (length (chunked_text cs)), p\<lparr>bstatus := BST_EOB, bstate := t\<rparr>)" for i
    using assms(2-) unfolding chunked_text_def
  proof (induction cs arbitrary: p i)
    case Nil
    have "chunk_loop f i p (last_chunk @ r) = chunk_loop f (i + 1) p (CR # LF # CR # LF # r)"
      using chunk_size [of "''0''" p f i "CR # LF # CR # LF # r"] Nil(1,2)
      by (cases p) (simp add: last_chunk_def cchars ctox_def)
    also have "\<dots> = chunk_loop f (i + 1 + 1 + 1) (p\<lparr>bstatus := BST_CHUNK_END\<rparr>) (CR # LF # r)"
      using Nil(1,2) by (subst chunk_header_end) simp_all
    also have "\<dots> = Some (i + 1 + 1 + 1 + 1 + 1, p\<lparr>bstatus := BST_EOB\<rparr>)"
      by (simp add: chunk_loop.simps chunk_turn_def)
    also have "p\<lparr>bstatus := BST_EOB\<rparr> = p\<lparr>bstatus := BST_EOB, bstate := t\<rparr>" using Nil(4) by (cases p) simp
    finally show ?case by (simp add: last_chunk_def)
  next
    case (Cons c cs)
    obtain h d where c: "c = (h, d)" by (cases c)
    obtain u where u: "deliver f (bstate p) d = Some u" "deliver f u (concat (map snd cs)) = Some t"
      using Cons(5) c by (auto simp: deliver_append split: Option.bind_splits)
    have "p\<lparr>bstate := u, bstatus := BST_EOB, bstate := t\<rparr> = p\<lparr>bstatus := BST_EOB, bstate := t\<rparr>" by (cases p) simp
    then show ?case
      using one_chunk [OF Cons(2,3) _ _ u(1), of h i] Cons(1) [of "p\<lparr>bstate := u\<rparr>"] Cons(2-4) u(2) c by (simp add: ac_simps)
  qed
  from this [of 0] show ?thesis using assms(1) by (simp add: cHttpBasicBodyParser_parseChar_def)
qed

text \<open>
  A chunked body is decoded: whatever the chunks are, the handler gets their concatenation in
  order, the parser ends in the final state, and it consumes exactly the encoded body, also when
  more text follows.
\<close>

theorem chunked_roundtrip:
  assumes "encode_type p = TE_CHUNKED" "bstatus p = BST_CHUNK_HEADER_START" "recv_len p = 0"
    "\<forall>d\<in>set ds. d \<noteq> [] \<and> length d \<le> 0x0fffffff" "deliver f (bstate p) (concat ds) = Some t"
  shows "cHttpBasicBodyParser_parseChar f p (concat (map chunk_text ds) @ last_chunk @ r) =
    Some (int (length (concat (map chunk_text ds) @ last_chunk)), p\<lparr>bstatus := BST_EOB, bstate := t\<rparr>)"
proof -
  let ?cs = "map (\<lambda>d. (hex_text (length d), d)) ds"
  have e: "concat (map chunk_text ds) @ last_chunk = chunked_text ?cs"
    by (simp add: chunked_text_def chunk_text_def [abs_def] o_def)
  then have "concat (map chunk_text ds) @ last_chunk @ r = chunked_text ?cs @ r" by (metis append_assoc)
  moreover have "deliver f (bstate p) (concat (map snd ?cs)) = Some t" using assms(5) by (simp add: o_def)
  moreover have "\<forall>(h, d)\<in>set ?cs. size_text h (length d) \<and> d \<noteq> [] \<and> length d \<le> 0x0fffffff"
    using assms(4) hex_text_value by (auto simp: size_text_def)
  ultimately show ?thesis using chunks_decoded [OF assms(1-3), of ?cs f t r] by (simp only: e)
qed

theorem chunked_roundtrip_witness:
  "cHttpBasicBodyParser_parseChar (\<lambda>s c. Some (True, s @ [c])) \<lparr>encode_type = TE_CHUNKED, bstatus = BST_CHUNK_HEADER_START,
     recv_len = 0, body_length = 0, bstate = []\<rparr> (concat (map chunk_text [''abc'', ''d'']) @ last_chunk @ ''GET'') =
   Some (int (length (concat (map chunk_text [''abc'', ''d'']) @ last_chunk)), \<lparr>encode_type = TE_CHUNKED, bstatus = BST_EOB,
     recv_len = 0, body_length = 0, bstate = ''abcd''\<rparr>)"
  using chunked_roundtrip [of "\<lparr>encode_type = TE_CHUNKED, bstatus = BST_CHUNK_HEADER_START, recv_len = 0, body_length = 0,
      bstate = []\<rparr>" "[''abc'', ''d'']" "\<lambda>s c. Some (True, s @ [c])" "''abcd''" "''GET''"] by simp

text \<open>
  The bound on the chunk size is tested after the multiplication: eight hexadecimal digits
  that start with \<open>f\<close> overflow the signed length before the test can reject them.
\<close>

theorem chunk_size_overflow:
  "cHttpBasicBodyParser_parseChar f \<lparr>encode_type = TE_CHUNKED, bstatus = BST_CHUNK_HEADER_START, recv_len = 0,
     body_length = n, bstate = s\<rparr> (''ffffffff'' @ r) = None"
  by (simp add: cHttpBasicBodyParser_parseChar_def chunk_loop.simps chunk_turn_def chunk_header_start_def Let_def cchars ctox_def)

section \<open>Bodies of a known length\<close>

definition room :: "read_buf \<Rightarrow> nat \<Rightarrow> bool" where
  "room r j \<longleftrightarrow> unat (rlen r) = j \<and> j < unat (buf_size r) \<and> unat (buf_size r) \<le> length (ref_buf r)"

lemma handler_room:
  assumes "room r j"
  shows "bodyHandler r c = Some (j + 1 < unat (buf_size r), r\<lparr>ref_buf := (ref_buf r)[j := c], rlen := rlen r + 1\<rparr>)"
    "unat (rlen r + 1) = j + 1"
proof -
  have "unat (rlen r) + 1 < 65536" using assms unat_u16_less [of "buf_size r"] unfolding room_def by linarith
  then show u: "unat (rlen r + 1) = j + 1" using assms by (subst unat_add_small) (simp_all add: room_def)
  show "bodyHandler r c = Some (j + 1 < unat (buf_size r), r\<lparr>ref_buf := (ref_buf r)[j := c], rlen := rlen r + 1\<rparr>)"
    using assms u by (simp add: bodyHandler_def room_def wr_def Let_def word_less_nat_alt)
qed

lemma copy_count_step:
  fixes s b n :: nat
  assumes "j + 1 < s" "0 < b"
  shows "min (min (s - j) b) (Suc n) - 1 = min (min (s - (j + 1)) (b - 1)) n"
  using assms by linarith

lemma body_loop_copies:
  assumes "room (bstate p) j" "k = min (min (unat (buf_size (bstate p)) - j) (unat (body_length p))) (length xs)"
  shows "\<exists>q. body_loop bodyHandler i p xs = Some (i + int k, q) \<and>
    ref_buf (bstate q) = take j (ref_buf (bstate p)) @ take k xs @ drop (j + k) (ref_buf (bstate p)) \<and>
    unat (rlen (bstate q)) = j + k \<and> unat (body_length q) = unat (body_length p) - k \<and> bstatus q = bstatus p"
  using assms
proof (induction xs arbitrary: p i j k)
  case Nil
  then show ?case by (intro exI [of _ p]) (simp add: room_def)
next
  case (Cons c xs)
  show ?case
  proof (cases "0 < body_length p")
    case False
    then have "body_length p = 0" by (simp add: word_gt_0)
    then show ?thesis using Cons(2,3) by (intro exI [of _ p]) (simp add: room_def)
  next
    case True
    let ?r = "bstate p" and ?s = "unat (buf_size (bstate p))"
    let ?q = "p\<lparr>bstate := ?r\<lparr>ref_buf := (ref_buf ?r)[j := c], rlen := rlen ?r + 1\<rparr>, body_length := body_length p - 1\<rparr>"
    have b: "0 < unat (body_length p)" using True by (simp add: word_less_nat_alt)
    then have b': "unat (body_length p - 1) = unat (body_length p) - 1"
      by (subst unat_sub_le) (simp_all add: word_le_nat_alt)
    have j: "j < ?s" "j < length (ref_buf ?r)" using Cons(2) by (auto simp: room_def)
    have upd: "(ref_buf ?r)[j := c] = take j (ref_buf ?r) @ c # drop (j + 1) (ref_buf ?r)"
      using j(2) by (simp add: upd_conv_take_nth_drop)
    have step: "body_loop bodyHandler i p (c # xs) =
        (if j + 1 < ?s then body_loop bodyHandler (i + 1) ?q xs else Some (i + 1, ?q))"
      using True handler_room(1) [OF Cons(2), of c] by (simp add: Let_def)
    show ?thesis
    proof (cases "j + 1 < ?s")
      case True
      have r: "room (bstate ?q) (j + 1)" using True Cons(2) handler_room(2) [OF Cons(2)] by (simp add: room_def)
      have bq: "buf_size (bstate ?q) = buf_size (bstate p)" "unat (body_length ?q) = unat (body_length p) - 1"
        using b' by simp_all
      have k: "0 < k" using Cons(3) True b by simp
      have "k - 1 = min (min (unat (buf_size (bstate ?q)) - (j + 1)) (unat (body_length ?q))) (length xs)"
        unfolding Cons(3) bq list.size add_0_right add_Suc_right by (rule copy_count_step [OF True b])
      from Cons(1) [OF r this, of "i + 1"] obtain q where q: "body_loop bodyHandler (i + 1) ?q xs = Some (i + 1 + int (k - 1), q)"
        "ref_buf (bstate q) = take (j + 1) (ref_buf (bstate ?q)) @ take (k - 1) xs @ drop (j + 1 + (k - 1)) (ref_buf (bstate ?q))"
        "unat (rlen (bstate q)) = j + 1 + (k - 1)" "unat (body_length q) = unat (body_length ?q) - (k - 1)" "bstatus q = bstatus ?q"
        by blast
      have "body_loop bodyHandler i p (c # xs) = Some (i + int k, q)" using step True q(1) k by (simp add: of_nat_diff)
      moreover have "ref_buf (bstate q) = take j (ref_buf ?r) @ take k (c # xs) @ drop (j + k) (ref_buf ?r)"
        using q(2) k j(2) by (simp add: upd take_Cons' drop_Cons' add.commute [of j])
      moreover have "unat (rlen (bstate q)) = j + k" "bstatus q = bstatus p" using q(3,5) k by simp_all
      moreover have "unat (body_length q) = unat (body_length p) - k" using q(4) k unfolding bq by linarith
      ultimately show ?thesis by blast
    next
      case False
      then have "k = 1" using Cons(3) b j(1) by auto
      then show ?thesis using step False b' handler_room(2) [OF Cons(2)] j(2) by (intro exI [of _ ?q]) (simp add: upd)
    qed
  qed
qed

text \<open>
  A call of the reader on a body of known length stores as many characters as the buffer, the
  rest of the body and the input allow, in order and inside the buffer, consumes exactly these,
  and ends the body exactly when nothing of it is left.
\<close>

theorem body_reader_copies:
  assumes "encode_type p = TE_NONE" "bstatus p = BST_BODY" "0 < i_buf_size" "unat i_buf_size \<le> length i_buf" "x \<noteq> []"
    "k = min (min (unat i_buf_size) (unat (body_length p))) (length x)"
  shows "\<exists>q. cHttpBodyParser_parseStream p (Some x) i_buf i_buf_size = Some (True, q, of_nat k, int k) \<and>
    ref_buf (bstate q) = take k x @ drop k i_buf \<and> unat (body_length q) = unat (body_length p) - k \<and>
    bstatus q = (if unat (body_length p) = k then BST_EOB else BST_BODY)"
proof -
  let ?p = "p\<lparr>bstate := \<lparr>ref_buf = i_buf, buf_size = i_buf_size, rlen = 0\<rparr>\<rparr>"
  have "room (bstate ?p) 0" using assms(3,4) by (simp add: room_def word_less_nat_alt)
  from body_loop_copies [OF this, of k x 0] assms(6) obtain q where
    q: "body_loop bodyHandler 0 ?p x = Some (int k, q)" "ref_buf (bstate q) = take k x @ drop k i_buf"
    "unat (rlen (bstate q)) = k" "unat (body_length q) = unat (body_length p) - k" "bstatus q = BST_BODY"
    using assms(2) by auto
  have l: "rlen (bstate q) = of_nat k" using q(3) by (metis u16_of_nat_unat)
  have "k \<le> unat (body_length p)" using assms(6) by simp
  then have z: "body_length q = 0 \<longleftrightarrow> unat (body_length p) = k" using q(4) by (auto simp flip: unat_eq_0)
  show ?thesis
    using q l z assms(1,2,5)
    by (intro exI [of _ "if body_length q = 0 then q\<lparr>bstatus := BST_EOB\<rparr> else q"])
      (simp add: cHttpBodyParser_parseStream_def cHttpBasicBodyParser_parseChar_def Let_def)
qed

theorem body_reader_copies_witness:
  "\<exists>q. cHttpBodyParser_parseStream \<lparr>encode_type = TE_NONE, bstatus = BST_BODY, recv_len = 0, body_length = 5,
      bstate = \<lparr>ref_buf = [], buf_size = 0, rlen = 0\<rparr>\<rparr> (Some ''abcdefg'') (replicate 4 NUL) 3 = Some (True, q, 3, 3) \<and>
     ref_buf (bstate q) = ''abc'' @ [NUL] \<and> bstatus q = BST_BODY"
proof -
  let ?p = "\<lparr>encode_type = TE_NONE, bstatus = BST_BODY, recv_len = 0, body_length = 5,
      bstate = \<lparr>ref_buf = [], buf_size = 0, rlen = 0\<rparr>\<rparr>"
  have "\<exists>q. cHttpBodyParser_parseStream ?p (Some ''abcdefg'') (replicate 4 NUL) 3 = Some (True, q, of_nat 3, int 3) \<and>
      ref_buf (bstate q) = take 3 ''abcdefg'' @ drop 3 (replicate 4 NUL) \<and> unat (body_length q) = unat (body_length ?p) - 3 \<and>
      bstatus q = (if unat (body_length ?p) = 3 then BST_EOB else BST_BODY)"
    by (rule body_reader_copies) simp_all
  then show ?thesis by auto
qed

end
