(* ===== verification/EthernetMM.thy ===== *)
theory EthernetMM
  imports Prelude
begin

text \<open>
  \<open>NyLPC_cEthernetMM.c\<close>: the memory manager of the transmit buffers. The memory is five pools of
  equal blocks; each block has a header with a reference counter, which the clients hold, and a
  lock, which the Ethernet driver sets while the hardware reads the block. A block is named by its
  pool and its index; the contents of the blocks are kept by the network interface (\<open>NetTx\<close>).
\<close>

section \<open>The memory\<close>

datatype pool = BufMax | Buf512 | Buf256 | Buf128 | Buf64

type_synonym block = "pool \<times> nat"

text \<open>The counter is a signed 8-bit integer.\<close>

record tx_header =
  ref :: u8
  is_lock :: bool

record ethernet_mm =
  buf_max :: "tx_header list"
  buf_512 :: "tx_header list"
  buf_256 :: "tx_header list"
  buf_128 :: "tx_header list"
  buf_64 :: "tx_header list"

fun headers :: "ethernet_mm \<Rightarrow> pool \<Rightarrow> tx_header list" where
  "headers m BufMax = buf_max m"
| "headers m Buf512 = buf_512 m"
| "headers m Buf256 = buf_256 m"
| "headers m Buf128 = buf_128 m"
| "headers m Buf64 = buf_64 m"

fun set_headers :: "ethernet_mm \<Rightarrow> pool \<Rightarrow> tx_header list \<Rightarrow> ethernet_mm" where
  "set_headers m BufMax hs = m\<lparr>buf_max := hs\<rparr>"
| "set_headers m Buf512 hs = m\<lparr>buf_512 := hs\<rparr>"
| "set_headers m Buf256 hs = m\<lparr>buf_256 := hs\<rparr>"
| "set_headers m Buf128 hs = m\<lparr>buf_128 := hs\<rparr>"
| "set_headers m Buf64 hs = m\<lparr>buf_64 := hs\<rparr>"

fun num_of_buf :: "pool \<Rightarrow> nat" where
  "num_of_buf BufMax = 3"
| "num_of_buf Buf512 = 3"
| "num_of_buf Buf256 = 4"
| "num_of_buf Buf128 = 16"
| "num_of_buf Buf64 = 4"

text \<open>The number of bytes of a block, which \<open>alloc\<close> reports.\<close>

fun block_size :: "pool \<Rightarrow> u16" where
  "block_size BufMax = 1514"
| "block_size Buf512 = 512"
| "block_size Buf256 = 256"
| "block_size Buf128 = 128"
| "block_size Buf64 = 64"

abbreviation (input) "HINT_CTRL_PACKET \<equiv> (0 :: u16)"

section \<open>Operations\<close>

definition block_used :: "tx_header \<Rightarrow> bool" where
  "block_used h \<longleftrightarrow> 0 < sint (ref h) \<or> is_lock h"

definition cEthernetMM_initialize :: "ethernet_mm \<Rightarrow> ethernet_mm" where
  "cEthernetMM_initialize m = \<lparr>
     buf_max = replicate 3 \<lparr>ref = 0, is_lock = False\<rparr>,
     buf_512 = replicate 3 \<lparr>ref = 0, is_lock = False\<rparr>,
     buf_256 = replicate 4 \<lparr>ref = 0, is_lock = False\<rparr>,
     buf_128 = replicate 16 \<lparr>ref = 0, is_lock = False\<rparr>,
     buf_64 = replicate 4 \<lparr>ref = 0, is_lock = False\<rparr>\<rparr>"

definition cEthernetMM_dbg_getNumofUsedTx :: "ethernet_mm \<Rightarrow> nat" where
  "cEthernetMM_dbg_getNumofUsedTx m =
     length (filter block_used (buf_max m)) + length (filter block_used (buf_512 m)) +
     length (filter block_used (buf_256 m)) + length (filter block_used (buf_128 m)) +
     length (filter block_used (buf_64 m))"

text \<open>One of the searching loops: the first block of the pool that is neither held nor locked.\<close>

fun find_unused :: "tx_header list \<Rightarrow> nat option" where
  "find_unused [] = None"
| "find_unused (h # hs) = (if block_used h then map_option Suc (find_unused hs) else Some 0)"

text \<open>The loops over several pools, from the label the hint selects to the end of the function.\<close>

fun alloc_from :: "ethernet_mm \<Rightarrow> pool list \<Rightarrow> (block \<times> u16 \<times> ethernet_mm) option" where
  "alloc_from m [] = None"
| "alloc_from m (p # ps) =
     (case find_unused (headers m p) of
        None \<Rightarrow> alloc_from m ps
      | Some i \<Rightarrow> let h = headers m p ! i in
          Some ((p, i), block_size p, set_headers m p ((headers m p)[i := h\<lparr>ref := ref h + 1\<rparr>])))"

definition alloc_pools :: "u16 \<Rightarrow> pool list" where
  "alloc_pools i_hint =
     (if i_hint = HINT_CTRL_PACKET then [Buf64]
      else if i_hint \<le> 128 then [Buf128]
      else if i_hint \<le> 256 then [Buf256, Buf128]
      else if i_hint \<le> 512 then [Buf512, Buf256, Buf128]
      else [BufMax, Buf512, Buf256, Buf128])"

definition cEthernetMM_alloc :: "ethernet_mm \<Rightarrow> u16 \<Rightarrow> (block \<times> u16 \<times> ethernet_mm) option" where
  "cEthernetMM_alloc m i_hint = alloc_from m (alloc_pools i_hint)"

definition upd_header :: "(tx_header \<Rightarrow> tx_header) \<Rightarrow> ethernet_mm \<Rightarrow> block \<Rightarrow> ethernet_mm" where
  "upd_header f m b = set_headers m (fst b) ((headers m (fst b))[snd b := f (headers m (fst b) ! snd b)])"

definition cEthernetMM_release :: "ethernet_mm \<Rightarrow> block \<Rightarrow> ethernet_mm" where
  "cEthernetMM_release m b = upd_header (\<lambda>h. h\<lparr>ref := ref h - 1\<rparr>) m b"

text \<open>What the driver does: it locks a block it hands to the hardware, and unlocks it when sent.\<close>

definition set_lock :: "bool \<Rightarrow> ethernet_mm \<Rightarrow> block \<Rightarrow> ethernet_mm" where
  "set_lock v m b = upd_header (\<lambda>h. h\<lparr>is_lock := v\<rparr>) m b"

section \<open>Basic facts\<close>

lemma headers_set_headers [simp]: "headers (set_headers m p hs) q = (if p = q then hs else headers m q)"
  by (cases p; cases q) auto

lemma set_headers_set_headers [simp]: "set_headers (set_headers m p hs) p hs' = set_headers m p hs'"
  by (cases p) simp_all

lemma set_headers_headers [simp]: "set_headers m p (headers m p) = m"
  by (cases p) simp_all

lemma block_size_ge: "64 \<le> block_size p"
  by (cases p) simp_all

definition header_of :: "ethernet_mm \<Rightarrow> block \<Rightarrow> tx_header" where
  "header_of m b = headers m (fst b) ! snd b"

definition valid_block :: "ethernet_mm \<Rightarrow> block \<Rightarrow> bool" where
  "valid_block m b \<longleftrightarrow> snd b < length (headers m (fst b))"

lemma find_unused_Some:
  "find_unused hs = Some i \<Longrightarrow> i < length hs \<and> \<not> block_used (hs ! i) \<and> (\<forall>j<i. block_used (hs ! j))"
proof (induction hs arbitrary: i)
  case (Cons h hs)
  then show ?case by (auto split: if_splits simp: nth_Cons split: nat.splits)
qed simp

lemma find_unused_None: "find_unused hs = None \<longleftrightarrow> (\<forall>h\<in>set hs. block_used h)"
  by (induction hs) auto

lemma upd_header_length [simp]: "length (headers (upd_header f m b) p) = length (headers m p)"
  by (simp add: upd_header_def)

lemma valid_upd_header [simp]: "valid_block (upd_header f m b) c = valid_block m c"
  by (simp add: valid_block_def)

lemma header_of_upd:
  "valid_block m b \<Longrightarrow> header_of (upd_header f m b) c = (if b = c then f (header_of m c) else header_of m c)"
  by (cases b; cases c) (auto simp: header_of_def upd_header_def valid_block_def nth_list_update)

lemma upd_header_twice:
  "valid_block m b \<Longrightarrow> upd_header f (upd_header g m b) b = upd_header (f \<circ> g) m b"
  by (simp add: upd_header_def valid_block_def)

lemma upd_header_id [simp]: "upd_header (\<lambda>h. h) m b = m"
  by (simp add: upd_header_def)

lemma alloc_from_upd:
  "alloc_from m ps = Some (b, n, m') \<Longrightarrow>
     valid_block m b \<and> \<not> block_used (header_of m b) \<and> n = block_size (fst b) \<and> fst b \<in> set ps \<and>
     m' = upd_header (\<lambda>h. h\<lparr>ref := ref h + 1\<rparr>) m b"
  by (induction ps)
    (auto simp: valid_block_def header_of_def upd_header_def Let_def dest: find_unused_Some split: option.splits)

lemmas alloc_upd = alloc_from_upd [where ps = "alloc_pools i_hint" for i_hint, folded cEthernetMM_alloc_def]

lemma alloc_from_None:
  "alloc_from m ps = None \<longleftrightarrow> (\<forall>p\<in>set ps. \<forall>h\<in>set (headers m p). block_used h)"
proof (induction ps)
  case (Cons p ps)
  then show ?case using find_unused_None [of "headers m p"] by (auto simp: Let_def split: option.splits)
qed simp

section \<open>Clients hold their blocks exclusively\<close>

text \<open>
  The clients of the manager allocate, and release what they hold; the driver locks and unlocks
  blocks at any time. \<open>mm_reach m bs\<close>: the memory may be \<open>m\<close> while the clients hold \<open>bs\<close>.
\<close>

inductive mm_reach :: "ethernet_mm \<Rightarrow> block list \<Rightarrow> bool" where
  init: "mm_reach (cEthernetMM_initialize m) []"
| alloc: "mm_reach m bs \<Longrightarrow> cEthernetMM_alloc m i_hint = Some (b, n, m') \<Longrightarrow> mm_reach m' (b # bs)"
| release: "mm_reach m bs \<Longrightarrow> b \<in> set bs \<Longrightarrow> mm_reach (cEthernetMM_release m b) (remove1 b bs)"
| lock: "mm_reach m bs \<Longrightarrow> valid_block m b \<Longrightarrow> mm_reach (set_lock v m b) bs"

definition mm_inv :: "ethernet_mm \<Rightarrow> block list \<Rightarrow> bool" where
  "mm_inv m bs \<longleftrightarrow> distinct bs \<and> (\<forall>p. length (headers m p) = num_of_buf p) \<and>
     (\<forall>b\<in>set bs. valid_block m b) \<and>
     (\<forall>b. valid_block m b \<longrightarrow> ref (header_of m b) = (if b \<in> set bs then 1 else 0))"

lemma mm_inv_init: "mm_inv (cEthernetMM_initialize m) []"
proof -
  have "headers (cEthernetMM_initialize m) p = replicate (num_of_buf p) \<lparr>ref = 0, is_lock = False\<rparr>" for p
    by (cases p) (simp_all add: cEthernetMM_initialize_def)
  then show ?thesis by (simp add: mm_inv_def valid_block_def header_of_def)
qed

lemma mm_inv_unused: "mm_inv m bs \<Longrightarrow> valid_block m b \<Longrightarrow> \<not> block_used (header_of m b) \<longleftrightarrow>
    b \<notin> set bs \<and> \<not> is_lock (header_of m b)"
proof -
  assume "mm_inv m bs" "valid_block m b"
  then have "ref (header_of m b) = (if b \<in> set bs then 1 else 0)" unfolding mm_inv_def by blast
  then show ?thesis by (simp add: block_used_def)
qed

lemma mm_inv_alloc:
  assumes "mm_inv m bs" "cEthernetMM_alloc m i_hint = Some (b, n, m')"
  shows "mm_inv m' (b # bs)" "b \<notin> set bs"
proof -
  note a = alloc_upd [OF assms(2)]
  then show "b \<notin> set bs" using mm_inv_unused [OF assms(1), of b] by simp
  with a assms(1) show "mm_inv m' (b # bs)"
    by (auto simp: mm_inv_def header_of_upd)
qed

lemma mm_inv_release:
  assumes "mm_inv m bs" "b \<in> set bs"
  shows "mm_inv (cEthernetMM_release m b) (remove1 b bs)"
  using assms by (auto simp: mm_inv_def cEthernetMM_release_def header_of_upd)

lemma mm_inv_lock: "mm_inv m bs \<Longrightarrow> valid_block m b \<Longrightarrow> mm_inv (set_lock v m b) bs"
  by (auto simp: mm_inv_def set_lock_def header_of_upd)

lemma mm_reach_inv: "mm_reach m bs \<Longrightarrow> mm_inv m bs"
  by (induction rule: mm_reach.induct)
    (auto intro: mm_inv_init mm_inv_alloc mm_inv_release mm_inv_lock)

text \<open>
  C8: However the clients allocate and release and the driver locks and unlocks, a block that is
  handed out is held by nobody and not being sent, it lies in a pool the requested size selects,
  and its size is what is reported; no block is handed out only while every block of these pools
  is held or being sent; and releasing it makes the manager forget it.
\<close>

theorem mm_exclusive:
  assumes "mm_reach m bs"
  shows "case cEthernetMM_alloc m i_hint of
      Some (b, n, m') \<Rightarrow> b \<notin> set bs \<and> \<not> is_lock (header_of m b) \<and> fst b \<in> set (alloc_pools i_hint) \<and>
        n = block_size (fst b) \<and> mm_reach m' (b # bs) \<and> cEthernetMM_release m' b = m
    | None \<Rightarrow> \<forall>b. valid_block m b \<and> fst b \<in> set (alloc_pools i_hint) \<longrightarrow> b \<in> set bs \<or> is_lock (header_of m b)"
proof (cases "cEthernetMM_alloc m i_hint")
  case None
  then have "block_used (header_of m b)" if "valid_block m b" "fst b \<in> set (alloc_pools i_hint)" for b
    using that by (auto simp: cEthernetMM_alloc_def alloc_from_None header_of_def valid_block_def)
  then have "b \<in> set bs \<or> is_lock (header_of m b)" if "valid_block m b" "fst b \<in> set (alloc_pools i_hint)" for b
    using that mm_inv_unused [OF mm_reach_inv [OF assms]] by blast
  then show ?thesis using None by simp
next
  case (Some a)
  obtain p i n m' where a: "a = ((p, i), n, m')" by (metis prod.exhaust)
  note u = alloc_upd [OF Some [unfolded a]]
  have "cEthernetMM_release m' (p, i) = m"
    using u by (simp add: cEthernetMM_release_def upd_header_twice comp_def)
  then show ?thesis
    using u Some a mm_inv_alloc(2) [OF mm_reach_inv [OF assms] Some [unfolded a]]
      mm_inv_unused [OF mm_reach_inv [OF assms], of "(p, i)"] mm_reach.alloc [OF assms Some [unfolded a]] by simp
qed

theorem mm_exclusive_witness:
  "\<forall>m. \<exists>b m'. cEthernetMM_alloc (cEthernetMM_initialize m) 200 = Some (b, 256, m') \<and> b = (Buf256, 0) \<and>
    cEthernetMM_release m' b = cEthernetMM_initialize m"
proof
  fix m
  let ?m = "cEthernetMM_initialize m"
  have "map_option (\<lambda>(b, n, m'). (b, n)) (cEthernetMM_alloc ?m 200) = Some ((Buf256, 0), 256)" by code_simp
  then obtain m' where "cEthernetMM_alloc ?m 200 = Some ((Buf256, 0), 256, m')" by auto
  then show "\<exists>b m'. cEthernetMM_alloc ?m 200 = Some (b, 256, m') \<and> b = (Buf256, 0) \<and> cEthernetMM_release m' b = ?m"
    using mm_exclusive [OF mm_reach.init, of m 200] by simp
qed

end
