(* ===== verification/EthDriver.thy ===== *)
theory EthDriver
  imports EthernetMM
begin

text \<open>
  The transmit side of \<open>EthDev_LPC17xx.c\<close>: the ring of 16 transmit descriptors. The driver
  produces descriptors (\<open>tx_produce\<close>, the register \<open>TxProduceIndex\<close>); the hardware consumes them in
  order (\<open>tx_consume\<close>, the register \<open>TxConsumeIndex\<close>), which is the step \<open>hw_sent\<close>. A block is
  locked while a descriptor refers to it; the driver unlocks the blocks of consumed descriptors
  when it next sends. Waiting for the hardware is \<open>None\<close>: the call does not return before the
  hardware has made a step.
\<close>

abbreviation (input) "NUM_TX_FRAG \<equiv> (16 :: nat)"
abbreviation (input) "ETH_FRAG_SIZE \<equiv> (1536 :: u16)"

record tx_ring =
  tx_packet :: "block option list"
  tx_ctrl :: "u16 list"
  tx_produce :: nat
  tx_consume :: nat

definition EthDev_LPC17xx_prevTxDescriptor :: "tx_ring \<Rightarrow> tx_ring" where
  "EthDev_LPC17xx_prevTxDescriptor r =
     r\<lparr>tx_packet := replicate NUM_TX_FRAG None, tx_ctrl := replicate NUM_TX_FRAG 0\<rparr>"

text \<open>Clearing one descriptor: its block, if any, is unlocked.\<close>

definition clear_desc :: "ethernet_mm \<times> tx_ring \<Rightarrow> nat \<Rightarrow> ethernet_mm \<times> tx_ring" where
  "clear_desc s i = (case tx_packet (snd s) ! i of
     None \<Rightarrow> s
   | Some b \<Rightarrow> (set_lock False (fst s) b, (snd s)\<lparr>tx_packet := (tx_packet (snd s))[i := None]\<rparr>))"

text \<open>The indices from \<open>i\<close> to \<open>j\<close> (exclusive) around the ring, both below its size.\<close>

definition ring_range :: "nat \<Rightarrow> nat \<Rightarrow> nat list" where
  "ring_range i j = map (\<lambda>k. (i + k) mod NUM_TX_FRAG) [0..<(j + NUM_TX_FRAG - i) mod NUM_TX_FRAG]"

definition waitForTxEthFrameEmpty :: "ethernet_mm \<Rightarrow> tx_ring \<Rightarrow> (nat \<times> ethernet_mm \<times> tx_ring) option" where
  "waitForTxEthFrameEmpty m r =
     (let IndexNext = (tx_produce r + 1) mod NUM_TX_FRAG in
      if IndexNext = tx_consume r then None
      else Some (IndexNext,
        clear_desc (foldl clear_desc (m, r) (ring_range IndexNext (tx_consume r))) (tx_consume r)))"

definition EthDev_LPC17xx_processTx :: "ethernet_mm \<Rightarrow> tx_ring \<Rightarrow> (ethernet_mm \<times> tx_ring) option" where
  "EthDev_LPC17xx_processTx m r = map_option snd (waitForTxEthFrameEmpty m r)"

text \<open>The first component tells whether the block was handed to the hardware.\<close>

definition EthDev_LPC17xx_sendTxEthFrame ::
  "ethernet_mm \<Rightarrow> tx_ring \<Rightarrow> block \<Rightarrow> u16 \<Rightarrow> (u16 option \<times> ethernet_mm \<times> tx_ring) option" where
  "EthDev_LPC17xx_sendTxEthFrame m r i_buf i_size =
     (if i_size = 0 then Some (None, m, r)
      else do {
        (IndexNext, m, r) \<leftarrow> waitForTxEthFrameEmpty m r;
        if is_lock (header_of m i_buf) then Some (None, m, r)
        else (let m = set_lock True m i_buf;
                  n = (if i_size > ETH_FRAG_SIZE then ETH_FRAG_SIZE else i_size) in
              Some (Some n, m, r\<lparr>tx_packet := (tx_packet r)[tx_produce r := Some i_buf],
                tx_ctrl := (tx_ctrl r)[tx_produce r := n - 1], tx_produce := IndexNext\<rparr>)) })"

text \<open>The hardware finishes the transmission of the oldest descriptor.\<close>

definition hw_sent :: "tx_ring \<Rightarrow> tx_ring" where
  "hw_sent r = (if tx_consume r = tx_produce r then r else r\<lparr>tx_consume := (tx_consume r + 1) mod NUM_TX_FRAG\<rparr>)"

text \<open>The blocks the hardware still has to read.\<close>

definition in_flight :: "tx_ring \<Rightarrow> block list" where
  "in_flight r = map (\<lambda>i. the (tx_packet r ! i)) (ring_range (tx_consume r) (tx_produce r))"

section \<open>Unlocking\<close>

lemma ring_range_less: "i \<in> set (ring_range a b) \<Longrightarrow> i < 16"
  by (auto simp: ring_range_def)

lemma end_notin_ring_range: "a < 16 \<Longrightarrow> b < 16 \<Longrightarrow> b \<notin> set (ring_range a b)"
proof
  assume l: "a < 16" "b < 16" and "b \<in> set (ring_range a b)"
  then obtain k where k: "b = (a + k) mod 16" "k < (b + 16 - a) mod 16" by (auto simp: ring_range_def)
  then have "k < 16" by (metis mod_less_divisor order.strict_trans zero_less_numeral)
  then consider "b = a + k" | "b + 16 = a + k"
    using k(1) l by (cases "a + k < 16") (auto simp: le_mod_geq)
  then show False
  proof cases
    case 1
    then have "b + 16 - a = k + 16" using l by linarith
    then show False using k(2) by simp
  next
    case 2
    then have "b + 16 - a = k" using l by linarith
    then show False using k(2) mod_less_eq_dividend [of k 16] by simp
  qed
qed

lemma start_in_ring_range: "a < 16 \<Longrightarrow> b < 16 \<Longrightarrow> a \<noteq> b \<Longrightarrow> a \<in> set (ring_range a b)"
proof -
  assume l: "a < 16" "b < 16" "a \<noteq> b"
  have "0 < (b + 16 - a) mod 16"
  proof (cases "a < b")
    case True
    then have "b + 16 - a = (b - a) + 16" using l by linarith
    then have "(b + 16 - a) mod 16 = b - a" using l by (simp only: mod_add_self2) simp
    then show ?thesis using True by simp
  next
    case False
    then have "b + 16 - a < 16" "0 < b + 16 - a" using l by linarith+
    then show ?thesis by simp
  qed
  then have "(a + 0) mod 16 \<in> set (ring_range a b)" unfolding ring_range_def by (auto intro: image_eqI [of _ _ 0])
  then show ?thesis using l by simp
qed

lemma clear_desc_keeps:
  assumes "i < length (tx_packet (snd s))"
  shows "length (tx_packet (snd (clear_desc s i))) = length (tx_packet (snd s))"
    "valid_block (fst (clear_desc s i)) b = valid_block (fst s) b"
    "j \<noteq> i \<Longrightarrow> tx_packet (snd (clear_desc s i)) ! j = tx_packet (snd s) ! j"
  using assms by (auto simp: clear_desc_def set_lock_def split: option.splits)

lemma clear_descs_keep:
  assumes "\<forall>i\<in>set is. i < length (tx_packet (snd s))"
  shows "length (tx_packet (snd (foldl clear_desc s is))) = length (tx_packet (snd s)) \<and>
    valid_block (fst (foldl clear_desc s is)) b = valid_block (fst s) b \<and>
    (j \<notin> set is \<longrightarrow> tx_packet (snd (foldl clear_desc s is)) ! j = tx_packet (snd s) ! j)"
  using assms by (induction "is" arbitrary: s) (simp_all add: clear_desc_keeps)

lemma clear_desc_unlocks:
  "is_lock (header_of (fst (clear_desc s i)) b) \<Longrightarrow> is_lock (header_of (fst s) b)"
proof (cases "tx_packet (snd s) ! i")
  case (Some c)
  assume l: "is_lock (header_of (fst (clear_desc s i)) b)"
  have "upd_header f m c = m" if "\<not> valid_block m c" for f m
    using that by (simp add: upd_header_def valid_block_def list_update_beyond)
  then show ?thesis using l Some
    by (cases "valid_block (fst s) c") (auto simp: clear_desc_def set_lock_def header_of_upd split: if_splits)
qed (simp add: clear_desc_def)

lemma clear_descs_unlock:
  "is_lock (header_of (fst (foldl clear_desc s is)) b) \<Longrightarrow> is_lock (header_of (fst s) b)"
proof (induction "is" arbitrary: s)
  case (Cons i "is")
  from Cons.prems have "is_lock (header_of (fst (foldl clear_desc (clear_desc s i) is)) b)" by simp
  then have "is_lock (header_of (fst (clear_desc s i)) b)" by (rule Cons.IH)
  then show ?case by (rule clear_desc_unlocks)
qed simp

lemma wait_unlocks:
  assumes "waitForTxEthFrameEmpty m r = Some (i, m', r')" "is_lock (header_of m' b)"
  shows "is_lock (header_of m b)"
proof -
  let ?s = "foldl clear_desc (m, r) (ring_range i (tx_consume r))"
  have "clear_desc ?s (tx_consume r) = (m', r')"
    using assms(1) by (auto simp: waitForTxEthFrameEmpty_def Let_def split: if_splits)
  then have "is_lock (header_of (fst (clear_desc ?s (tx_consume r))) b)" using assms(2) by simp
  then have "is_lock (header_of (fst ?s) b)" by (rule clear_desc_unlocks)
  from clear_descs_unlock [OF this] show ?thesis by simp
qed

text \<open>
  C20: The driver unlocks one descriptor too many: with frames still in flight, a call clears the
  descriptor the hardware is reading and unlocks its block, so that the memory manager can hand
  out a block that is being sent.
\<close>

theorem tx_unlocks_in_flight:
  assumes "tx_consume r < 16" "tx_produce r < 16" "length (tx_packet r) = 16" "tx_consume r \<noteq> tx_produce r"
    "tx_packet r ! tx_consume r = Some b" "valid_block m b"
    "waitForTxEthFrameEmpty m r = Some (i, m', r')"
  shows "b \<in> set (in_flight r) \<and> \<not> is_lock (header_of m' b) \<and> tx_packet r' ! tx_consume r = None"
proof -
  let ?i = "(tx_produce r + 1) mod 16"
  let ?s = "foldl clear_desc (m, r) (ring_range ?i (tx_consume r))"
  have "tx_consume r \<notin> set (ring_range ?i (tx_consume r))"
    using assms(1) by (intro end_notin_ring_range) simp_all
  then have s: "length (tx_packet (snd ?s)) = 16" "valid_block (fst ?s) b" "tx_packet (snd ?s) ! tx_consume r = Some b"
    using clear_descs_keep [of "ring_range ?i (tx_consume r)" "(m, r)"] assms(3,5,6) ring_range_less by auto
  have "(m', r') = clear_desc ?s (tx_consume r)"
    using assms(7) by (auto simp: waitForTxEthFrameEmpty_def Let_def split: if_splits)
  then have "\<not> is_lock (header_of m' b) \<and> tx_packet r' ! tx_consume r = None"
    using s assms(1) by (simp add: clear_desc_def set_lock_def header_of_upd)
  moreover have "b \<in> set (in_flight r)"
    using start_in_ring_range [OF assms(1,2,4)] assms(5) unfolding in_flight_def by force
  ultimately show ?thesis by blast
qed

theorem tx_unlocks_in_flight_witness:
  "\<forall>m. \<exists>m' r'. waitForTxEthFrameEmpty (set_lock True (cEthernetMM_initialize m) (Buf64, 0))
      \<lparr>tx_packet = (replicate 16 None)[3 := Some (Buf64, 0)], tx_ctrl = replicate 16 0, tx_produce = 4, tx_consume = 3\<rparr> =
      Some (5, m', r') \<and> \<not> is_lock (header_of m' (Buf64, 0))"
proof
  fix m
  let ?r = "\<lparr>tx_packet = (replicate 16 None)[3 := Some (Buf64, 0)], tx_ctrl = replicate 16 0, tx_produce = 4, tx_consume = 3\<rparr> :: tx_ring"
  let ?m = "set_lock True (cEthernetMM_initialize m) (Buf64, 0)"
  have "valid_block ?m (Buf64, 0)" by (simp add: set_lock_def) (simp add: valid_block_def cEthernetMM_initialize_def)
  moreover obtain m' r' where "waitForTxEthFrameEmpty ?m ?r = Some (5, m', r')"
    by (auto simp: waitForTxEthFrameEmpty_def Let_def) (metis prod.collapse)
  ultimately show "\<exists>m' r'. waitForTxEthFrameEmpty ?m ?r = Some (5, m', r') \<and> \<not> is_lock (header_of m' (Buf64, 0))"
    using tx_unlocks_in_flight [of ?r "(Buf64, 0)" ?m 5 m' r'] by simp
qed

end
