(* ===== verification/PacketLayout.thy ===== *)
theory PacketLayout
  imports IpTypes
begin

text \<open>
  The layout of the Ethernet, ARP, TCP, UDP and ICMP headers as bytes of a packet, as the packed
  structs of \<open>NyLPC_NetIf_ip_types.h\<close> and \<open>NyLPC_NetIf_ethernet_types.h\<close> give it, and
  \<open>NyLPC_cIPv4Payload.c\<close>, which accepts a received IPv4 packet and finds its payload. A
  pointer to a header is an offset in the packet; \<open>*_at\<close> is the cast at that offset.
\<close>

section \<open>Layout\<close>

definition tcp_header_bytes :: "tcp_header \<Rightarrow> u8 list" where
  "tcp_header_bytes t = half_bytes (srcport t) @ half_bytes (destport t) @ word_bytes (seqno32 t) @
     word_bytes (ackno32 t) @ [tcpoffset t, tcp_flags t] @ half_bytes (wnd16 t) @
     half_bytes (tcpchksum t) @ take 2 (urgp t @ [0, 0])"

definition tcp_header_at :: "u8 list \<Rightarrow> nat \<Rightarrow> tcp_header option" where
  "tcp_header_at p n = do {
     s \<leftarrow> half_at p n; d \<leftarrow> half_at p (n + 2); q \<leftarrow> word_at p (n + 4); a \<leftarrow> word_at p (n + 8);
     f \<leftarrow> rd p (n + 12); g \<leftarrow> rd p (n + 13); w \<leftarrow> half_at p (n + 14); c \<leftarrow> half_at p (n + 16);
     u \<leftarrow> rd p (n + 18); v \<leftarrow> rd p (n + 19);
     Some \<lparr>srcport = s, destport = d, seqno32 = q, ackno32 = a, tcpoffset = f, tcp_flags = g,
       wnd16 = w, tcpchksum = c, urgp = [u, v]\<rparr> }"

definition udp_header_bytes :: "udp_header \<Rightarrow> u8 list" where
  "udp_header_bytes u = half_bytes (udp_srcport u) @ half_bytes (udp_destport u) @
     half_bytes (udplen u) @ half_bytes (udpchksum u)"

definition udp_header_at :: "u8 list \<Rightarrow> nat \<Rightarrow> udp_header option" where
  "udp_header_at p n = do {
     s \<leftarrow> half_at p n; d \<leftarrow> half_at p (n + 2); l \<leftarrow> half_at p (n + 4); c \<leftarrow> half_at p (n + 6);
     Some \<lparr>udp_srcport = s, udp_destport = d, udplen = l, udpchksum = c\<rparr> }"

definition eth_header_bytes :: "eth_header \<Rightarrow> u8 list" where
  "eth_header_bytes e = eth_dest e @ eth_src e @ half_bytes (eth_type e)"

definition eth_header_at :: "u8 list \<Rightarrow> nat \<Rightarrow> eth_header option" where
  "eth_header_at p n = (if n + 14 \<le> length p then do {
     t \<leftarrow> half_at p (n + 12);
     Some \<lparr>eth_dest = take 6 (drop n p), eth_src = take 6 (drop (n + 6) p), eth_type = t\<rparr> }
   else None)"

definition arp_header_bytes :: "arp_header \<Rightarrow> u8 list" where
  "arp_header_bytes a = half_bytes (hwtype a) @ half_bytes (protocol a) @ [hwlen a, protolen a] @
     half_bytes (opcode a) @ shwaddr a @ word_bytes (sipaddr a) @ dhwaddr a @ word_bytes (dipaddr a)"

definition arp_header_at :: "u8 list \<Rightarrow> nat \<Rightarrow> arp_header option" where
  "arp_header_at p n = (if n + 28 \<le> length p then do {
     h \<leftarrow> half_at p n; t \<leftarrow> half_at p (n + 2); l \<leftarrow> rd p (n + 4); m \<leftarrow> rd p (n + 5); c \<leftarrow> half_at p (n + 6);
     s \<leftarrow> word_at p (n + 14); d \<leftarrow> word_at p (n + 24);
     Some \<lparr>hwtype = h, protocol = t, hwlen = l, protolen = m, opcode = c,
       shwaddr = take 6 (drop (n + 8) p), sipaddr = s, dhwaddr = take 6 (drop (n + 18) p), dipaddr = d\<rparr> }
   else None)"

record icmp_header =
  icmp_type :: u8
  icode :: u8
  icmpchksum :: u16
  icmp_id :: u16
  icmp_seqno :: u16

definition icmp_header_bytes :: "icmp_header \<Rightarrow> u8 list" where
  "icmp_header_bytes h = [icmp_type h, icode h] @ half_bytes (icmpchksum h) @ half_bytes (icmp_id h) @ half_bytes (icmp_seqno h)"

definition icmp_header_at :: "u8 list \<Rightarrow> nat \<Rightarrow> icmp_header option" where
  "icmp_header_at p n = do {
     t \<leftarrow> rd p n; c \<leftarrow> rd p (n + 1); k \<leftarrow> half_at p (n + 2); i \<leftarrow> half_at p (n + 4); s \<leftarrow> half_at p (n + 6);
     Some \<lparr>icmp_type = t, icode = c, icmpchksum = k, icmp_id = i, icmp_seqno = s\<rparr> }"

abbreviation (input) "TCP_FIN \<equiv> (0x01 :: u8)"
abbreviation (input) "TCP_SYN \<equiv> (0x02 :: u8)"
abbreviation (input) "TCP_RST \<equiv> (0x04 :: u8)"
abbreviation (input) "TCP_PSH \<equiv> (0x08 :: u8)"
abbreviation (input) "TCP_ACK \<equiv> (0x10 :: u8)"

section \<open>Received packets\<close>

text \<open>
  A payload object: the packet, and the offset of what follows the IP header. The accepted packet
  is the whole object the caller passes, whose size is \<open>i_flagment_size\<close>.
\<close>

record ipv4_payload =
  pl_packet :: "u8 list"
  pl_header :: ipv4_header
  pl_rawbuf :: nat

definition cIPv4Payload_attachRxBuf :: "u8 list \<Rightarrow> u16 \<Rightarrow> (bool \<times> ipv4_payload) option" where
  "cIPv4Payload_attachRxBuf i_buf i_flagment_size = do {
     h \<leftarrow> ipv4_header_at i_buf;
     let pl = \<lparr>pl_packet = i_buf, pl_header = h, pl_rawbuf = unat (vhl h AND 0x0f) * 4\<rparr>;
     if vhl h AND 0xf0 \<noteq> 0x40 then Some (False, pl)
     else if ntohs (len16 h) > i_flagment_size then Some (False, pl)
     else if ntohs (ipoffset h) AND 0x3fff \<noteq> 0 then Some (False, pl)
     else do {
       ok \<leftarrow> TIPv4Header_isCorrectIpCheckSum i_buf;
       Some (ok, pl) } }"

section \<open>Headers in packets\<close>

lemma length_tcp_header_bytes [simp]: "length (tcp_header_bytes t) = 20"
  by (simp add: tcp_header_bytes_def)

lemma length_udp_header_bytes [simp]: "length (udp_header_bytes t) = 8"
  by (simp add: udp_header_bytes_def)

lemma length_icmp_header_bytes [simp]: "length (icmp_header_bytes t) = 8"
  by (simp add: icmp_header_bytes_def)

lemma half_at_skip: "length xs = n \<Longrightarrow> half_at (xs @ ys) (n + k) = half_at ys k"
  using half_at_append [of xs ys k] by simp

lemma word_at_skip: "length xs = n \<Longrightarrow> word_at (xs @ ys) (n + k) = word_at ys k"
  using word_at_append [of xs ys k] by simp

lemma rd_skip: "length xs = n \<Longrightarrow> rd (xs @ ys) (n + k) = rd ys k"
  by (auto simp: rd_def)

lemmas at_skip = half_at_skip word_at_skip rd_skip
  half_at_skip [where k = 0, unfolded add_0_right] rd_skip [where k = 0, unfolded add_0_right]

lemma tcp_header_at_skip: "length xs = n \<Longrightarrow> tcp_header_at (xs @ ys) n = tcp_header_at ys 0"
  by (simp only: tcp_header_at_def at_skip add_0)

lemma udp_header_at_skip: "length xs = n \<Longrightarrow> udp_header_at (xs @ ys) n = udp_header_at ys 0"
  by (simp only: udp_header_at_def at_skip add_0)

lemma icmp_header_at_skip: "length xs = n \<Longrightarrow> icmp_header_at (xs @ ys) n = icmp_header_at ys 0"
  by (simp only: icmp_header_at_def at_skip add_0)

lemma tcp_header_at_0:
  assumes "length (urgp t) = 2"
  shows "tcp_header_at (tcp_header_bytes t @ ys) 0 = Some t"
proof -
  obtain u v where "urgp t = [u, v]" using assms by (auto simp: numeral_2_eq_2 length_Suc_conv)
  then show ?thesis
    by (simp add: tcp_header_at_def tcp_header_bytes_def half_at_def half_bytes_def rd_def
      word_at_def word_bytes_def half_value word_value)
qed

lemma tcp_header_at_bytes:
  "length xs = n \<Longrightarrow> length (urgp t) = 2 \<Longrightarrow> tcp_header_at (xs @ tcp_header_bytes t @ ys) n = Some t"
  by (simp add: tcp_header_at_skip tcp_header_at_0)

lemma udp_header_at_bytes: "length xs = n \<Longrightarrow> udp_header_at (xs @ udp_header_bytes u @ ys) n = Some u"
  by (simp add: udp_header_at_skip)
    (simp add: udp_header_at_def udp_header_bytes_def half_at_def half_bytes_def rd_def half_value)

lemma icmp_header_at_bytes: "length xs = n \<Longrightarrow> icmp_header_at (xs @ icmp_header_bytes u @ ys) n = Some u"
  by (simp add: icmp_header_at_skip)
    (simp add: icmp_header_at_def icmp_header_bytes_def half_at_def half_bytes_def rd_def half_value)

end
