(* ===== verification/TcpPacket.thy ===== *)
theory TcpPacket
  imports PacketLayout FifoBuffer
begin

text \<open>
  The packet writer of \<open>NyLPC_cMiMicIpTcpSocket.c\<close>: the functions that lay a TCP segment with its
  IP header into a transmit buffer (the bytes of the buffer from the IP header on), that change the
  acknowledge number of a segment kept for retransmission, and that answer a segment with a reset.
  The lemmas show that what they build passes the tests of a receiver.
\<close>

unbundle bit_operations_syntax

section \<open>The connection\<close>

text \<open>
  Ports are in network order. The local address is a pointer to the configuration in the source;
  the configuration does not change while the service runs, so the model keeps the address.
\<close>

record uip_conn =
  ripaddr :: ipv4_addr
  lipaddr :: ipv4_addr
  lport :: u16
  rport :: u16
  rcv_nxt32 :: u32
  snd_nxt32 :: u32
  peer_mss :: u16
  own_mss :: u16
  peer_win :: u16
  current_rto32 :: u32

section \<open>Writing segments\<close>

definition setTcpTxHeader :: "tcp_header \<Rightarrow> u8 \<Rightarrow> uip_conn \<Rightarrow> tcp_header" where
  "setTcpTxHeader t i_flag c = t\<lparr>tcp_flags := i_flag, srcport := lport c, destport := rport c,
     ackno32 := htonl (rcv_nxt32 c), seqno32 := htonl (snd_nxt32 c), urgp := [0, 0], tcpchksum := 0\<rparr>"

text \<open>
  The last steps of every writer: the two headers are in the buffer, the TCP checksum is made and
  stored, then the IP checksum.
\<close>

definition close_segment :: "u8 list \<Rightarrow> ipv4_header \<Rightarrow> tcp_header \<Rightarrow> u8 list option" where
  "close_segment p h t = do {
     p \<leftarrow> blit p 0 (ipv4_header_bytes h);
     p \<leftarrow> blit p (TIPv4Header_getHeaderLength h) (tcp_header_bytes t);
     c \<leftarrow> TIPv4Header_makeTcpChecksum p;
     p \<leftarrow> blit p (TIPv4Header_getHeaderLength h) (tcp_header_bytes (t\<lparr>tcpchksum := NOT c\<rparr>));
     c \<leftarrow> TIPv4Header_makeIpChecksum p;
     blit p 0 (ipv4_header_bytes (h\<lparr>ipchksum := NOT c\<rparr>)) }"

text \<open>
  The first argument is the packet counter of \<open>NyLPC_TIPv4Header_writeTxIpHeader\<close>, the second the
  space in the receive buffer, which becomes the window. \<open>i_buf\<close> is the payload or NULL.
\<close>

definition setTxPacket ::
  "u16 \<Rightarrow> u16 \<Rightarrow> uip_conn \<Rightarrow> u8 list \<Rightarrow> u8 \<Rightarrow> u8 list option \<Rightarrow> u16 \<Rightarrow> (u16 \<times> u8 list) option" where
  "setTxPacket pid space c tx i_tcpf i_buf i_len = do {
     h \<leftarrow> ipv4_header_at tx;
     let (pid, h) = TIPv4Header_writeTxIpHeader pid
           (h\<lparr>vhl := 0x40 OR (0x0f AND 5), destipaddr := ripaddr c, srcipaddr := lipaddr c\<rparr>) UIP_PROTO_TCP;
     t \<leftarrow> tcp_header_at tx (TIPv4Header_getHeaderLength h);
     let syn = TCP_SYN AND i_tcpf \<noteq> 0;
     let tcph_word = (if syn then 6 else 5 :: u8);
     tx \<leftarrow> (if syn then TTcpHeader_setMmsOpt tx (TIPv4Header_getHeaderLength h + 20) (own_mss c) else Some tx);
     let t = setTcpTxHeader (t\<lparr>tcpoffset := push_bit 4 tcph_word\<rparr>) i_tcpf c;
     let n = (5 + unat tcph_word) * 4;
     tx \<leftarrow> (case i_buf of Some b \<Rightarrow> copy_at tx n b 0 (unat i_len) | None \<Rightarrow> Some tx);
     let h = h\<lparr>len16 := (if i_buf = None then htons (of_nat n) else htons (i_len + of_nat n))\<rparr>;
     tx \<leftarrow> close_segment tx h (t\<lparr>wnd16 := htons space\<rparr>);
     Some (pid, tx) }"

definition setTxPacketHeader ::
  "u16 \<Rightarrow> u16 \<Rightarrow> uip_conn \<Rightarrow> u8 list \<Rightarrow> u8 \<Rightarrow> u16 \<Rightarrow> (u16 \<times> u8 list) option" where
  "setTxPacketHeader pid space c tx i_tcpf i_len = do {
     h \<leftarrow> ipv4_header_at tx;
     let (pid, h) = TIPv4Header_writeTxIpHeader pid
           (h\<lparr>vhl := 0x40 OR (0x0f AND 5), destipaddr := ripaddr c, srcipaddr := lipaddr c\<rparr>) UIP_PROTO_TCP;
     t \<leftarrow> tcp_header_at tx (TIPv4Header_getHeaderLength h);
     let t = setTcpTxHeader (t\<lparr>tcpoffset := push_bit 4 5\<rparr>) i_tcpf c;
     tx \<leftarrow> close_segment tx (h\<lparr>len16 := htons (i_len + (5 + 5) * 4)\<rparr>) (t\<lparr>wnd16 := htons space\<rparr>);
     Some (pid, tx) }"

definition updateAckNo :: "u8 list \<Rightarrow> u32 \<Rightarrow> u8 list option" where
  "updateAckNo tx i_ackno = do {
     h \<leftarrow> ipv4_header_at tx;
     t \<leftarrow> tcp_header_at tx (TIPv4Header_getHeaderLength h);
     let t = t\<lparr>ackno32 := i_ackno, tcpchksum := 0\<rparr>;
     tx \<leftarrow> blit tx (TIPv4Header_getHeaderLength h) (tcp_header_bytes t);
     c \<leftarrow> TIPv4Header_makeTcpChecksum tx;
     blit tx (TIPv4Header_getHeaderLength h) (tcp_header_bytes (t\<lparr>tcpchksum := NOT c\<rparr>)) }"

text \<open>The answer to a segment that no socket takes; \<open>tx\<close> is the system buffer it is built in.\<close>

definition reverseRstAck :: "u16 \<Rightarrow> u8 list \<Rightarrow> ipv4_payload \<Rightarrow> (u16 \<times> u8 list) option" where
  "reverseRstAck pid tx i_src = do {
     h \<leftarrow> ipv4_header_at tx;
     s \<leftarrow> tcp_header_at (pl_packet i_src) (pl_rawbuf i_src);
     let (pid, h) = TIPv4Header_writeTxIpHeader pid (h\<lparr>vhl := 0x40 OR (0x0f AND 5),
           destipaddr := srcipaddr (pl_header i_src), srcipaddr := destipaddr (pl_header i_src)\<rparr>) UIP_PROTO_TCP;
     t \<leftarrow> tcp_header_at tx (TIPv4Header_getHeaderLength h);
     let t = t\<lparr>tcpoffset := push_bit 4 5, tcp_flags := TCP_RST OR TCP_ACK, srcport := destport s, destport := srcport s,
           ackno32 := htonl (ntohl (seqno32 s) + 1), seqno32 := ackno32 s, urgp := [0, 0], tcpchksum := 0\<rparr>;
     tx \<leftarrow> close_segment tx (h\<lparr>len16 := htons ((5 + 5) * 4)\<rparr>) (t\<lparr>wnd16 := 0\<rparr>);
     Some (pid, tx) }"

section \<open>Closed segments pass the receiver's tests\<close>

lemma ipv4_header_bytes_upd_chksum:
  "drop 12 (ipv4_header_bytes (h\<lparr>ipchksum := c\<rparr>) @ r) = drop 12 (ipv4_header_bytes h @ r)"
  by (simp add: ipv4_header_bytes_def half_bytes_def)

lemma tcp_checksum_ip_field:
  assumes "12 \<le> TIPv4Header_getHeaderLength h"
  shows "TIPv4Header_makeTcpChecksum (ipv4_header_bytes (h\<lparr>ipchksum := c\<rparr>) @ r) =
    TIPv4Header_makeTcpChecksum (ipv4_header_bytes h @ r)"
proof -
  have "uip_chksum s (ipv4_header_bytes (h\<lparr>ipchksum := c\<rparr>) @ r) off n = uip_chksum s (ipv4_header_bytes h @ r) off n"
    if "12 \<le> off" for s off n
  proof -
    have "drop off (ipv4_header_bytes (h\<lparr>ipchksum := c\<rparr>) @ r) = drop (off - 12) (drop 12 (ipv4_header_bytes (h\<lparr>ipchksum := c\<rparr>) @ r))"
      using that by (simp only: drop_drop le_add_diff_inverse2)
    also have "\<dots> = drop off (ipv4_header_bytes h @ r)"
      unfolding ipv4_header_bytes_upd_chksum using that by (simp only: drop_drop le_add_diff_inverse2)
    finally show ?thesis by (simp add: uip_chksum_def)
  qed
  with assms show ?thesis by (simp add: TIPv4Header_makeTcpChecksum_def Let_def)
qed

lemma blit_0: "length ys \<le> length xs \<Longrightarrow> blit xs 0 ys = Some (ys @ drop (length ys) xs)"
  by (simp add: blit_def)

lemma blit_behind:
  "length xs = n \<Longrightarrow> length ys \<le> length zs \<Longrightarrow> blit (xs @ zs) n ys = Some (xs @ ys @ drop (length ys) zs)"
  by (auto simp: blit_def)

lemma tcp_header_bytes_chksum:
  obtains xs ys where "length xs = 16" "length ys = 2"
    "\<And>w. tcp_header_bytes (t\<lparr>tcpchksum := w\<rparr>) = xs @ half_bytes w @ ys"
proof (rule that)
  show "tcp_header_bytes (t\<lparr>tcpchksum := w\<rparr>) = (half_bytes (srcport t) @ half_bytes (destport t) @ word_bytes (seqno32 t) @
     word_bytes (ackno32 t) @ [tcpoffset t, tcp_flags t] @ half_bytes (wnd16 t)) @ half_bytes w @ take 2 (urgp t @ [0, 0])" for w
    by (simp add: tcp_header_bytes_def)
qed simp_all

text \<open>Storing the complement of the TCP checksum in the header makes the receiver accept it.\<close>

lemma store_tcp_chksum:
  assumes "TIPv4Header_getHeaderLength h = 20" "tcpchksum t = 0"
    "20 \<le> unat (seg_len h)" "unat (seg_len h) \<le> 20 + length r"
  shows "\<exists>c. TIPv4Header_makeTcpChecksum (ipv4_header_bytes h @ tcp_header_bytes t @ r) = Some c \<and>
    cIPv4Packet_isCorrectTcpCheckSum (ipv4_header_bytes h @ tcp_header_bytes (t\<lparr>tcpchksum := NOT c\<rparr>) @ r) = Some True"
proof -
  obtain xs ys where t: "length xs = 16" "length ys = 2"
    "\<And>w. tcp_header_bytes (t\<lparr>tcpchksum := w\<rparr>) = xs @ half_bytes w @ ys"
    using tcp_header_bytes_chksum [of t] by blast
  have "t\<lparr>tcpchksum := 0\<rparr> = t" using assms(2) by (cases t) simp
  then have t0: "tcp_header_bytes t = xs @ half_bytes 0 @ ys" using t(3) [of 0] by simp
  obtain c where c: "TIPv4Header_makeTcpChecksum (ipv4_header_bytes h @ tcp_header_bytes t @ r) = Some c"
    using make_tcp_checksum [of "ipv4_header_bytes h @ tcp_header_bytes t @ r" h] assms(1,4) by auto
  moreover have "cIPv4Packet_isCorrectTcpCheckSum (ipv4_header_bytes h @ xs @ half_bytes (NOT c) @ ys @ r) = Some True"
    using assms(1,3,4) t(1,2) c unfolding t0 append_assoc
    by (intro tcp_checksum_accepted [of "ipv4_header_bytes h" xs "ys @ r" h]) simp_all
  ultimately show ?thesis by (auto simp: t(3))
qed

lemma close_segment_ok:
  assumes "TIPv4Header_getHeaderLength h = 20" "tcpchksum t = 0" "ipchksum h = 0"
    "20 \<le> unat (seg_len h)" "20 + unat (seg_len h) \<le> length p"
  shows "\<exists>ci ct. close_segment p h t =
      Some (ipv4_header_bytes (h\<lparr>ipchksum := ci\<rparr>) @ tcp_header_bytes (t\<lparr>tcpchksum := ct\<rparr>) @ drop 40 p) \<and>
    TIPv4Header_isCorrectIpCheckSum (ipv4_header_bytes (h\<lparr>ipchksum := ci\<rparr>) @ tcp_header_bytes (t\<lparr>tcpchksum := ct\<rparr>) @ drop 40 p) = Some True \<and>
    cIPv4Packet_isCorrectTcpCheckSum (ipv4_header_bytes (h\<lparr>ipchksum := ci\<rparr>) @ tcp_header_bytes (t\<lparr>tcpchksum := ct\<rparr>) @ drop 40 p) = Some True"
proof -
  have l: "40 \<le> length p" using assms(4,5) by linarith
  then have "length p - 20 \<ge> 20" by linarith
  have "unat (seg_len h) \<le> 20 + length (drop 40 p)" using assms(5) l by simp
  from store_tcp_chksum [OF assms(1,2,4) this] obtain c where
    c: "TIPv4Header_makeTcpChecksum (ipv4_header_bytes h @ tcp_header_bytes t @ drop 40 p) = Some c"
    "cIPv4Packet_isCorrectTcpCheckSum (ipv4_header_bytes h @ tcp_header_bytes (t\<lparr>tcpchksum := NOT c\<rparr>) @ drop 40 p) = Some True"
    by blast
  let ?r = "tcp_header_bytes (t\<lparr>tcpchksum := NOT c\<rparr>) @ drop 40 p"
  obtain d where d: "TIPv4Header_makeIpChecksum (ipv4_header_bytes h @ ?r) = Some d"
    using make_ip_checksum [of "ipv4_header_bytes h @ ?r" h] assms(1) by auto
  then have "TIPv4Header_isCorrectIpCheckSum (ipv4_header_bytes (h\<lparr>ipchksum := NOT d\<rparr>) @ ?r) = Some True"
    using assms(1,3) by (intro ip_checksum_accepted) (simp_all add: header_fits_def)
  moreover have "cIPv4Packet_isCorrectTcpCheckSum (ipv4_header_bytes (h\<lparr>ipchksum := NOT d\<rparr>) @ ?r) = Some True"
    using c(2) assms(1) by (simp add: cIPv4Packet_isCorrectTcpCheckSum_def tcp_checksum_ip_field)
  moreover have "close_segment p h t = Some (ipv4_header_bytes (h\<lparr>ipchksum := NOT d\<rparr>) @ ?r)"
    using l assms(1) c(1) d by (simp add: close_segment_def blit_0 blit_behind)
  ultimately show ?thesis by blast
qed

section \<open>What the receiver sees\<close>

text \<open>
  A packet carries a segment of the connection: an IPv4 packet without options from the local to
  the remote address, accepted by \<open>NyLPC_cIPv4Payload_attachRxBuf\<close> and the TCP checksum test, with
  a TCP header of \<open>5 + k\<close> words that gives the ports, numbers, flags and window, followed by the data.
\<close>

definition carries :: "u8 list \<Rightarrow> uip_conn \<Rightarrow> u8 \<Rightarrow> u16 \<Rightarrow> nat \<Rightarrow> u8 list \<Rightarrow> bool" where
  "carries p c f w k xs \<longleftrightarrow> (\<exists>h t.
     (\<forall>sz. 40 + 4 * k + length xs \<le> unat sz \<longrightarrow>
        cIPv4Payload_attachRxBuf p sz = Some (True, \<lparr>pl_packet = p, pl_header = h, pl_rawbuf = 20\<rparr>)) \<and>
     cIPv4Packet_isCorrectTcpCheckSum p = Some True \<and>
     srcipaddr h = lipaddr c \<and> destipaddr h = ripaddr c \<and> proto h = UIP_PROTO_TCP \<and>
     unat (ntohs (len16 h)) = 40 + 4 * k + length xs \<and>
     tcp_header_at p 20 = Some t \<and> srcport t = lport c \<and> destport t = rport c \<and>
     ntohl (seqno32 t) = snd_nxt32 c \<and> ntohl (ackno32 t) = rcv_nxt32 c \<and> tcp_flags t = f \<and>
     ntohs (wnd16 t) = w \<and> unat (TTcpHeader_getHeaderLength t) = 20 + 4 * k \<and>
     40 + 4 * k + length xs \<le> length p \<and> take (length xs) (drop (40 + 4 * k) p) = xs)"

lemma ntohl_htonl [simp]: "ntohl (htonl x) = x"
  by simp

lemma vhl_5: "0x40 OR (0x0f AND 5) = (0x45 :: u8)" "(0x45 :: u8) AND 0xf0 = 0x40" "(0x45 :: u8) AND 0x0f = 5"
  by simp_all

lemma close_segment_carries:
  fixes h t c
  assumes "vhl h = 0x45" "ipoffset h = 0" "ipchksum h = 0" "proto h = UIP_PROTO_TCP"
    "srcipaddr h = lipaddr c" "destipaddr h = ripaddr c" "len16 h = htons (of_nat (40 + 4 * k + length xs))"
    "tcpchksum t = 0" "urgp t = [0, 0]" "srcport t = lport c" "destport t = rport c" "seqno32 t = htonl (snd_nxt32 c)"
    "ackno32 t = htonl (rcv_nxt32 c)" "tcp_flags t = f" "wnd16 t = htons w" "tcpoffset t = push_bit 4 (of_nat (5 + k))"
    "k \<le> 1" "40 + 4 * k + length xs < 65536" "40 + 4 * k + length xs \<le> length p"
    "take (length xs) (drop (40 + 4 * k) p) = xs"
  shows "\<exists>p'. close_segment p h t = Some p' \<and> carries p' c f w k xs \<and> length p' = length p \<and> drop 40 p' = drop 40 p"
proof -
  let ?n = "40 + 4 * k + length xs"
  have n: "unat (of_nat ?n :: u16) = ?n" using assms(18) by (rule unat_of_nat_u16)
  have hl: "TIPv4Header_getHeaderLength h = 20" by (simp add: TIPv4Header_getHeaderLength_def assms(1))
  have sl: "unat (seg_len h) = ?n - 20"
  proof -
    have "seg_len h = of_nat ?n - of_nat 20" by (simp add: seg_len_def hl assms(7))
    also have "\<dots> = of_nat (?n - 20)" by (rule of_nat_diff_u16) simp
    finally show ?thesis using assms(18) by (simp only: unat_of_nat_u16)
  qed
  let ?q = "\<lambda>ci ct. ipv4_header_bytes (h\<lparr>ipchksum := ci\<rparr>) @ tcp_header_bytes (t\<lparr>tcpchksum := ct\<rparr>) @ drop 40 p"
  from close_segment_ok [OF hl assms(8,3), of p] sl assms(19) obtain ci ct where
    r: "close_segment p h t = Some (?q ci ct)" and
    i: "TIPv4Header_isCorrectIpCheckSum (?q ci ct) = Some True" and t: "cIPv4Packet_isCorrectTcpCheckSum (?q ci ct) = Some True"
    by auto
  let ?p = "?q ci ct"
  have a: "cIPv4Payload_attachRxBuf ?p sz = Some (True, \<lparr>pl_packet = ?p, pl_header = h\<lparr>ipchksum := ci\<rparr>, pl_rawbuf = 20\<rparr>)"
    if "?n \<le> unat sz" for sz
    using that i n by (simp add: cIPv4Payload_attachRxBuf_def assms(1,2,7) Let_def word_less_nat_alt)
  have th: "tcp_header_at ?p 20 = Some (t\<lparr>tcpchksum := ct\<rparr>)"
    by (rule tcp_header_at_bytes) (simp_all add: assms(9))
  have "unat (TTcpHeader_getHeaderLength t) = 20 + 4 * k"
  proof -
    have "k = 0 \<or> k = 1" using assms(17) by linarith
    then show ?thesis by (auto simp: TTcpHeader_getHeaderLength_def assms(16))
  qed
  then have o: "unat (TTcpHeader_getHeaderLength (t\<lparr>tcpchksum := ct\<rparr>)) = 20 + 4 * k"
    by (simp add: TTcpHeader_getHeaderLength_def)
  have d: "drop 40 ?p = drop 40 p" by simp
  have "take (length xs) (drop (40 + 4 * k) ?p) = xs"
    using assms(20) by (metis d drop_drop add.commute)
  moreover have "4 * k + length xs \<le> length p - 40" using assms(19) by linarith
  ultimately have "carries ?p c f w k xs"
    unfolding carries_def using a t th o n
    by (intro exI [of _ "h\<lparr>ipchksum := ci\<rparr>"] exI [of _ "t\<lparr>tcpchksum := ct\<rparr>"]) (simp add: assms)
  moreover have "length ?p = length p" using assms(19) by simp
  ultimately show ?thesis using r d by blast
qed

lemma tcp_header_at_total: "n + 20 \<le> length p \<Longrightarrow> \<exists>t. tcp_header_at p n = Some t"
  by (simp add: tcp_header_at_def half_at_def word_at_def rd_def)

lemma writer_headers:
  assumes "40 \<le> length tx"
  obtains h t where "ipv4_header_at tx = Some h" "tcp_header_at tx 20 = Some t"
  using ipv4_header_at_total [of tx] tcp_header_at_total [of 20 tx] assms by auto

lemma header_length_5: "vhl h = 0x45 \<Longrightarrow> TIPv4Header_getHeaderLength h = 20"
  by (simp add: TIPv4Header_getHeaderLength_def)

text \<open>The fields the writers give the headers.\<close>

lemmas writer_simps = TIPv4Header_writeTxIpHeader_def setTcpTxHeader_def header_length_5 vhl_5 Let_def

lemma setTxPacketHeader_carries:
  assumes "40 + unat i_len < 65536" "40 + unat i_len \<le> length tx"
  shows "\<exists>p. setTxPacketHeader pid space c tx f i_len = Some (pid + 1, p) \<and>
    carries p c f space 0 (take (unat i_len) (drop 40 tx)) \<and> length p = length tx"
proof -
  obtain h t where ht: "ipv4_header_at tx = Some h" "tcp_header_at tx 20 = Some t"
    using writer_headers [of tx] assms(2) by auto
  let ?h = "h\<lparr>vhl := 0x45, destipaddr := ripaddr c, srcipaddr := lipaddr c, proto := UIP_PROTO_TCP, ttl := 64, tos := 0,
      ipid16 := pid, ipoffset := 0, ipchksum := 0, len16 := htons (i_len + 40)\<rparr>"
  let ?t = "setTcpTxHeader (t\<lparr>tcpoffset := push_bit 4 5\<rparr>) f c\<lparr>wnd16 := htons space\<rparr>"
  have "\<exists>p. close_segment tx ?h ?t = Some p \<and> carries p c f space 0 (take (unat i_len) (drop 40 tx)) \<and>
      length p = length tx \<and> drop 40 p = drop 40 tx"
    using assms by (intro close_segment_carries) (simp_all add: setTcpTxHeader_def add.commute [of i_len 40])
  then obtain p where "close_segment tx ?h ?t = Some p" "carries p c f space 0 (take (unat i_len) (drop 40 tx))" "length p = length tx"
    by blast
  with ht show ?thesis by (simp add: setTxPacketHeader_def writer_simps)
qed

lemma setTxPacket_None_carries:
  assumes "TCP_SYN AND f = 0" "40 \<le> length tx"
  shows "\<exists>p. setTxPacket pid space c tx f None i_len = Some (pid + 1, p) \<and> carries p c f space 0 [] \<and> length p = length tx"
proof -
  obtain h t where ht: "ipv4_header_at tx = Some h" "tcp_header_at tx 20 = Some t"
    using writer_headers [of tx] assms(2) by auto
  let ?h = "h\<lparr>vhl := 0x45, destipaddr := ripaddr c, srcipaddr := lipaddr c, proto := UIP_PROTO_TCP, ttl := 64, tos := 0,
      ipid16 := pid, ipoffset := 0, ipchksum := 0, len16 := htons (of_nat 40)\<rparr>"
  let ?t = "setTcpTxHeader (t\<lparr>tcpoffset := push_bit 4 5\<rparr>) f c\<lparr>wnd16 := htons space\<rparr>"
  have "\<exists>p. close_segment tx ?h ?t = Some p \<and> carries p c f space 0 [] \<and>
      length p = length tx \<and> drop 40 p = drop 40 tx"
    using assms by (intro close_segment_carries) (simp_all add: setTcpTxHeader_def)
  then obtain p where "close_segment tx ?h ?t = Some p" "carries p c f space 0 []" "length p = length tx"
    by blast
  with ht assms show ?thesis by (simp add: setTxPacket_def writer_simps)
qed

lemma setTxPacket_syn_carries:
  assumes "TCP_SYN AND f \<noteq> 0" "44 \<le> length tx"
  shows "\<exists>p. setTxPacket pid space c tx f None i_len = Some (pid + 1, p) \<and> carries p c f space 1 [] \<and>
    length p = length tx \<and> take 4 (drop 40 p) = [TCP_OPT_MSS, TCP_OPT_MSS_LEN, ucast (own_mss c div 256), ucast (own_mss c AND 255)]"
proof -
  obtain h t where ht: "ipv4_header_at tx = Some h" "tcp_header_at tx 20 = Some t"
    using writer_headers [of tx] assms(2) by auto
  let ?h = "h\<lparr>vhl := 0x45, destipaddr := ripaddr c, srcipaddr := lipaddr c, proto := UIP_PROTO_TCP, ttl := 64, tos := 0,
      ipid16 := pid, ipoffset := 0, ipchksum := 0, len16 := htons (of_nat 44)\<rparr>"
  let ?t = "setTcpTxHeader (t\<lparr>tcpoffset := push_bit 4 6\<rparr>) f c\<lparr>wnd16 := htons space\<rparr>"
  let ?m = "[TCP_OPT_MSS, TCP_OPT_MSS_LEN, ucast (own_mss c div 256), ucast (own_mss c AND 255)] :: u8 list"
  let ?x = "take 40 tx @ ?m @ drop 44 tx"
  have m: "TTcpHeader_setMmsOpt tx 40 (own_mss c) = Some ?x"
    using assms(2) by (simp add: TTcpHeader_setMmsOpt_def blit_def)
  have "\<exists>p. close_segment ?x ?h ?t = Some p \<and> carries p c f space 1 [] \<and>
      length p = length ?x \<and> drop 40 p = drop 40 ?x"
    using assms by (intro close_segment_carries) (simp_all add: setTcpTxHeader_def)
  then obtain p where p: "close_segment ?x ?h ?t = Some p" "carries p c f space 1 []" "length p = length ?x" "drop 40 p = drop 40 ?x"
    by blast
  then have "take 4 (drop 40 p) = ?m" "length p = length tx" using assms(2) by simp_all
  with ht p(1,2) m assms(1) show ?thesis by (simp add: setTxPacket_def writer_simps)
qed

section \<open>Changing the acknowledge number\<close>

lemma tcp_header_at_0_inv:
  assumes "tcp_header_at p 0 = Some t"
  shows "length (urgp t) = 2 \<and> p = tcp_header_bytes t @ drop 20 p"
proof -
  have f: "half_at p 0 = Some (srcport t)" "half_at p 2 = Some (destport t)" "word_at p 4 = Some (seqno32 t)"
    "word_at p 8 = Some (ackno32 t)" "rd p 12 = Some (tcpoffset t)" "rd p 13 = Some (tcp_flags t)"
    "half_at p 14 = Some (wnd16 t)" "half_at p 16 = Some (tcpchksum t)" "urgp t = [p ! 18, p ! 19]"
    and l: "20 \<le> length p"
    using assms by (auto simp: tcp_header_at_def rd_def numeral_2_eq_2 split: Option.bind_splits if_splits)
  from l have "take 20 p = [p ! 0, p ! 1, p ! 2, p ! 3, p ! 4, p ! 5, p ! 6, p ! 7, p ! 8, p ! 9,
      p ! 10, p ! 11, p ! 12, p ! 13, p ! 14, p ! 15, p ! 16, p ! 17, p ! 18, p ! 19]"
    by (auto simp: eval_nat_numeral Suc_le_length_iff)
  also have "\<dots> = tcp_header_bytes t"
    using f(1,2,7,8) [THEN half_at_half_bytes] f(3,4) [THEN word_at_word_bytes_inv] f(5,6,9)
    by (simp add: tcp_header_bytes_def rd_Some_iff)
  finally have "p = tcp_header_bytes t @ drop 20 p" by (metis append_take_drop_id)
  with f(9) show ?thesis by simp
qed

lemma tcp_header_at_bytes_inv:
  assumes "tcp_header_at (xs @ ys) n = Some t" "length xs = n"
  shows "length (urgp t) = 2 \<and> ys = tcp_header_bytes t @ drop 20 ys"
  using tcp_header_at_0_inv [of ys t] assms tcp_header_at_skip [of xs n ys] by simp

lemma updateAckNo_carries:
  assumes "carries p c f w k xs"
  shows "\<exists>p'. updateAckNo p (htonl n) = Some p' \<and> carries p' (c\<lparr>rcv_nxt32 := n\<rparr>) f w k xs \<and> length p' = length p"
proof -
  let ?n = "40 + 4 * k + length xs"
  obtain h t where
    a: "\<And>sz. ?n \<le> unat sz \<Longrightarrow> cIPv4Payload_attachRxBuf p sz = Some (True, \<lparr>pl_packet = p, pl_header = h, pl_rawbuf = 20\<rparr>)" and
    h: "srcipaddr h = lipaddr c" "destipaddr h = ripaddr c" "proto h = UIP_PROTO_TCP" "unat (ntohs (len16 h)) = ?n" and
    th: "tcp_header_at p 20 = Some t" and
    t: "srcport t = lport c" "destport t = rport c" "ntohl (seqno32 t) = snd_nxt32 c" "tcp_flags t = f" "ntohs (wnd16 t) = w"
      "unat (TTcpHeader_getHeaderLength t) = 20 + 4 * k" and
    d: "?n \<le> length p" "take (length xs) (drop (40 + 4 * k) p) = xs"
    using assms unfolding carries_def by blast
  have a': "cIPv4Payload_attachRxBuf p (ntohs (len16 h)) = Some (True, \<lparr>pl_packet = p, pl_header = h, pl_rawbuf = 20\<rparr>)"
    using a [of "ntohs (len16 h)"] h(4) by simp
  then have ph: "ipv4_header_at p = Some h" and v: "vhl h AND 0xf0 = 0x40" "ntohs (ipoffset h) AND 0x3fff = 0"
    and hl: "TIPv4Header_getHeaderLength h = 20" and ip: "TIPv4Header_isCorrectIpCheckSum p = Some True"
    by (auto simp: cIPv4Payload_attachRxBuf_def TIPv4Header_getHeaderLength_def Let_def split: Option.bind_splits if_splits)
  obtain r0 where r0: "p = ipv4_header_bytes h @ r0" using ph by (auto simp: ipv4_header_at_iff)
  then obtain r1 where u: "length (urgp t) = 2" and r1: "r0 = tcp_header_bytes t @ r1"
    using tcp_header_at_bytes_inv [of "ipv4_header_bytes h" r0 20 t] th by auto
  have p: "p = ipv4_header_bytes h @ tcp_header_bytes t @ r1" and d40: "drop 40 p = r1"
    unfolding r0 r1 by simp_all
  let ?t = "t\<lparr>ackno32 := htonl n, tcpchksum := 0\<rparr>"
  have sl: "unat (seg_len h) = ?n - 20"
  proof -
    have "of_nat 20 \<le> ntohs (len16 h)" using h(4) by (simp add: word_le_nat_alt)
    then show ?thesis using h(4) by (simp add: seg_len_def hl unat_sub_le)
  qed
  have "unat (seg_len h) \<le> 20 + length r1" using sl d(1) unfolding p by simp
  from store_tcp_chksum [OF hl _ _ this, of ?t] sl obtain cs where
    cs: "TIPv4Header_makeTcpChecksum (ipv4_header_bytes h @ tcp_header_bytes ?t @ r1) = Some cs"
    "cIPv4Packet_isCorrectTcpCheckSum (ipv4_header_bytes h @ tcp_header_bytes (?t\<lparr>tcpchksum := NOT cs\<rparr>) @ r1) = Some True"
    by auto
  let ?p = "ipv4_header_bytes h @ tcp_header_bytes (?t\<lparr>tcpchksum := NOT cs\<rparr>) @ r1"
  have b: "blit (ipv4_header_bytes h @ tcp_header_bytes t @ r1) 20 (tcp_header_bytes s) =
      Some (ipv4_header_bytes h @ tcp_header_bytes s @ r1)" for s t
    by (simp add: blit_behind)
  have "updateAckNo (ipv4_header_bytes h @ tcp_header_bytes t @ r1) (htonl n) = Some ?p"
    using u cs(1) by (simp add: updateAckNo_def hl tcp_header_at_bytes b Let_def)
  then have upd: "updateAckNo p (htonl n) = Some ?p" unfolding p .
  have "TIPv4Header_isCorrectIpCheckSum ?p = TIPv4Header_isCorrectIpCheckSum (ipv4_header_bytes h @ r0)"
    by (simp add: ip_checksum_iff [of _ h] hl)
  then have "TIPv4Header_isCorrectIpCheckSum ?p = Some True" using ip r0 by simp
  then have at: "cIPv4Payload_attachRxBuf ?p sz = Some (True, \<lparr>pl_packet = ?p, pl_header = h, pl_rawbuf = 20\<rparr>)"
    if "?n \<le> unat sz" for sz
    using a [OF that] ph unfolding cIPv4Payload_attachRxBuf_def
    by (auto simp: Let_def split: Option.bind_splits if_splits)
  have l: "length ?p = length p" unfolding p by simp
  have "drop 40 ?p = drop 40 p" unfolding d40 by simp
  from arg_cong [OF this, of "drop (4 * k)"] have "drop (4 * k + 40) ?p = drop (4 * k + 40) p" by (simp only: drop_drop)
  then have "take (length xs) (drop (40 + 4 * k) ?p) = xs" using d(2) by (simp only: add.commute)
  moreover have "tcp_header_at ?p 20 = Some (?t\<lparr>tcpchksum := NOT cs\<rparr>)"
    by (rule tcp_header_at_bytes) (simp_all add: u)
  moreover have "TTcpHeader_getHeaderLength (?t\<lparr>tcpchksum := NOT cs\<rparr>) = TTcpHeader_getHeaderLength t"
    by (simp add: TTcpHeader_getHeaderLength_def)
  ultimately have "carries ?p (c\<lparr>rcv_nxt32 := n\<rparr>) f w k xs"
    unfolding carries_def using at cs(2) h t d(1) l
    by (intro exI [of _ h] exI [of _ "?t\<lparr>tcpchksum := NOT cs\<rparr>"] conjI) (simp_all only: simp_thms, simp_all)
  then show ?thesis using upd l by blast
qed

text \<open>
  C21: The segment that \<open>setTxPacketHeader\<close> builds around the data of the buffer is one that the
  receive functions of the library accept: addresses, ports, numbers, flags, window, both checksums and the
  data. Refreshing its acknowledge number before a retransmission changes just that number.
\<close>

theorem segment_carried:
  assumes "40 + unat i_len < 65536" "40 + unat i_len \<le> length tx"
  shows "\<exists>p p'. setTxPacketHeader pid space c tx f i_len = Some (pid + 1, p) \<and>
    carries p c f space 0 (take (unat i_len) (drop 40 tx)) \<and> updateAckNo p (htonl n) = Some p' \<and>
    carries p' (c\<lparr>rcv_nxt32 := n\<rparr>) f space 0 (take (unat i_len) (drop 40 tx))"
  using setTxPacketHeader_carries [OF assms] updateAckNo_carries by blast

theorem segment_carried_witness:
  "\<forall>c. \<exists>p p'. setTxPacketHeader 7 500 c (replicate 40 0 @ [1, 2, 3, 4]) TCP_ACK 3 = Some (8, p) \<and>
    carries p c TCP_ACK 500 0 [1, 2, 3] \<and> updateAckNo p (htonl 9) = Some p' \<and> carries p' (c\<lparr>rcv_nxt32 := 9\<rparr>) TCP_ACK 500 0 [1, 2, 3]"
  using segment_carried [of 3 "replicate 40 0 @ [1, 2, 3, 4]" 7 500 _ TCP_ACK 9] by simp

text \<open>The same for segments without data, with the segment size option in a SYN.\<close>

lemmas segments_carry = setTxPacketHeader_carries setTxPacket_None_carries setTxPacket_syn_carries updateAckNo_carries

end
