(* ===== verification/NetTx.thy ===== *)
theory NetTx
  imports EthDriver Arp TcpPacket
begin

text \<open>
  The sending half of \<open>NyLPC_cMiMicIpNetIf.c\<close>: buffers for the upper layers, the Ethernet header,
  the choice of the destination (broadcast, multicast, neighbour or default router) and ARP
  requests. A transmit buffer is a block of the memory manager; the block holds an Ethernet frame,
  and the upper layers work on its bytes from the IP header on (\<open>ip_at\<close>, \<open>put_ip\<close>), which is what
  the pointers of the source point to. \<open>wire\<close> collects the frames handed to the hardware.

  The mutex makes each of these functions atomic. \<open>None\<close> is an access outside an object, or a call
  that waits for a transmit buffer or the hardware.
\<close>

record netif =
  mm :: ethernet_mm
  ring :: tx_ring
  mem :: "block \<Rightarrow> u8 list"
  wire :: "u8 list list"
  ip_pid :: u16
  arp_st :: arp
  net_cfg :: ipv4_config

definition ip_at :: "netif \<Rightarrow> block \<Rightarrow> u8 list" where
  "ip_at n b = drop 14 (mem n b)"

definition put_ip :: "netif \<Rightarrow> block \<Rightarrow> u8 list \<Rightarrow> netif" where
  "put_ip n b p = n\<lparr>mem := (mem n)(b := take 14 (mem n b) @ p)\<rparr>"

lemma ip_at_put: "14 \<le> length (mem n b) \<Longrightarrow> ip_at (put_ip n b p) b = p"
  by (simp add: ip_at_def put_ip_def)

section \<open>Buffers\<close>

definition cMiMicIpNetIf_allocTxBuf :: "netif \<Rightarrow> u16 \<Rightarrow> (block \<times> u16 \<times> netif) option" where
  "cMiMicIpNetIf_allocTxBuf n i_hint =
     (case cEthernetMM_alloc (mm n) (i_hint + 14) of
        None \<Rightarrow> None
      | Some (b, o_size, m) \<Rightarrow> Some (b, o_size - 14, n\<lparr>mm := m\<rparr>))"

text \<open>
  The loop asks until a block is free; it holds the mutex, so nothing changes while it waits.
\<close>

definition cMiMicIpNetIf_allocSysTxBuf :: "netif \<Rightarrow> (block \<times> netif) option" where
  "cMiMicIpNetIf_allocSysTxBuf n =
     (case cEthernetMM_alloc (mm n) HINT_CTRL_PACKET of
        None \<Rightarrow> None
      | Some (b, s, m) \<Rightarrow> Some (b, n\<lparr>mm := m\<rparr>))"

definition cMiMicIpNetIf_releaseTxBuf :: "netif \<Rightarrow> block \<Rightarrow> netif" where
  "cMiMicIpNetIf_releaseTxBuf n b = n\<lparr>mm := cEthernetMM_release (mm n) b\<rparr>"

section \<open>Frames\<close>

text \<open>Handing a frame of \<open>i_size\<close> bytes to the driver.\<close>

definition send_frame :: "netif \<Rightarrow> block \<Rightarrow> u16 \<Rightarrow> netif option" where
  "send_frame n b i_size = do {
     (sent, m, r) \<leftarrow> EthDev_LPC17xx_sendTxEthFrame (mm n) (ring n) b i_size;
     let n = n\<lparr>mm := m, ring := r\<rparr>;
     (case sent of
        None \<Rightarrow> Some n
      | Some k \<Rightarrow> if unat k \<le> length (mem n b) then Some (n\<lparr>wire := wire n @ [take (unat k) (mem n b)]\<rparr>) else None) }"

definition sendRawEthFrameNL :: "netif \<Rightarrow> block \<Rightarrow> u16 \<Rightarrow> netif option" where
  "sendRawEthFrameNL n i_buf i_len = send_frame n i_buf i_len"

definition ip2MulticastEmacAddr :: "ipv4_addr \<Rightarrow> eth_addr" where
  "ip2MulticastEmacAddr i_addr = (let n = htonl i_addr in
     [0x01, 0x00, 0x5E, ucast (drop_bit 16 n AND 0x7f), ucast (drop_bit 8 n AND 0xff), ucast (n AND 0xff)])"

text \<open>The Ethernet address of the next hop, if there is one.\<close>

definition eth_destination :: "netif \<Rightarrow> ipv4_addr \<Rightarrow> eth_addr option" where
  "eth_destination n dest =
     (if TIPv4Addr_isEqual dest TIPv4Addr_BROADCAST then Some TEthAddr_BROADCAST
      else if TIPv4Addr_isEqualWithMask dest TIPv4Addr_MULTICAST TIPv4Addr_MULTICAST_MASK
      then Some (ip2MulticastEmacAddr dest)
      else cIPv4Arp_IPv4toEthAddr (arp_st n)
        (if cIPv4Config_isLocalIP (net_cfg n) dest then dest else dr_addr (net_cfg n)))"

definition sendIPv4Tx :: "netif \<Rightarrow> block \<Rightarrow> (bool \<times> netif) option" where
  "sendIPv4Tx n b = do {
     h \<leftarrow> ipv4_header_at (ip_at n b);
     (case eth_destination n (destipaddr h) of
        None \<Rightarrow> Some (False, n)
      | Some d \<Rightarrow> do {
          e \<leftarrow> eth_header_at (mem n b) 0;
          let (e, tx_len) = TEthernetIIHeader_setIPv4Tx e h (eth_mac (net_cfg n)) d;
          f \<leftarrow> blit (mem n b) 0 (eth_header_bytes e);
          n \<leftarrow> send_frame (n\<lparr>mem := (mem n)(b := f)\<rparr>) b tx_len;
          Some (True, n) }) }"

text \<open>
  The buffer that \<open>NyLPC_cMiMicIpNetIf_allocSysTxBuf\<close> returns is the payload behind the Ethernet
  header; the function lays a whole \<open>struct TEthPacket\<close> over it, so the Ethernet header it writes
  is at offset 14 of the frame and the ARP packet at offset 28, while the frame it sends starts at 0.
\<close>

definition cMiMicIpNetIf_sendArpRequest :: "netif \<Rightarrow> ipv4_addr \<Rightarrow> netif option" where
  "cMiMicIpNetIf_sendArpRequest n i_addr = do {
     (b, n) \<leftarrow> cMiMicIpNetIf_allocSysTxBuf n;
     a \<leftarrow> arp_header_at (mem n b) 28;
     let a = TArpHeader_setArpRequest a (ip_addr (net_cfg n)) (eth_mac (net_cfg n)) i_addr;
     f \<leftarrow> blit (mem n b) 28 (arp_header_bytes a);
     e \<leftarrow> eth_header_at f 14;
     let (e, tx_len) = TEthernetIIHeader_setArpTx e a (eth_mac (net_cfg n));
     f \<leftarrow> blit f 14 (eth_header_bytes e);
     n \<leftarrow> send_frame (n\<lparr>mem := (mem n)(b := f)\<rparr>) b tx_len;
     Some (cMiMicIpNetIf_releaseTxBuf n b) }"

definition cMiMicIpNetIf_sendIPv4Tx :: "netif \<Rightarrow> block \<Rightarrow> netif option" where
  "cMiMicIpNetIf_sendIPv4Tx n b = do {
     (sent, n) \<leftarrow> sendIPv4Tx n b;
     if sent then Some n
     else do {
       h \<leftarrow> ipv4_header_at (ip_at n b);
       cMiMicIpNetIf_sendArpRequest n (destipaddr h) } }"

definition cMiMicIpNetIf_hasArpInfo :: "netif \<Rightarrow> ipv4_addr \<Rightarrow> bool" where
  "cMiMicIpNetIf_hasArpInfo n i_addr = (cIPv4Arp_IPv4toEthAddr (arp_st n) i_addr \<noteq> None)"

section \<open>Frames reach the wire\<close>

text \<open>
  The driver takes a frame when the ring has room: a free descriptor, all descriptors below the
  ring size, and the block neither locked nor shorter than the frame.
\<close>

definition can_send :: "netif \<Rightarrow> block \<Rightarrow> bool" where
  "can_send n b \<longleftrightarrow> (tx_produce (ring n) + 1) mod NUM_TX_FRAG \<noteq> tx_consume (ring n) \<and> \<not> is_lock (header_of (mm n) b)"

lemma wait_Some:
  assumes "(tx_produce r + 1) mod NUM_TX_FRAG \<noteq> tx_consume r"
  obtains m' r' where "waitForTxEthFrameEmpty m r = Some ((tx_produce r + 1) mod NUM_TX_FRAG, m', r')"
  using assms by (simp add: waitForTxEthFrameEmpty_def Let_def) (metis prod.collapse)

lemma send_frame_wire:
  assumes "can_send n b" "0 < k" "k \<le> ETH_FRAG_SIZE" "unat k \<le> length (mem n b)"
  shows "\<exists>m r. send_frame n b k = Some (n\<lparr>mm := m, ring := r, wire := wire n @ [take (unat k) (mem n b)]\<rparr>)"
proof -
  obtain m' r' where w: "waitForTxEthFrameEmpty (mm n) (ring n) = Some ((tx_produce (ring n) + 1) mod 16, m', r')"
    using wait_Some assms(1) unfolding can_send_def by blast
  moreover have "\<not> is_lock (header_of m' b)"
    using wait_unlocks [OF w, of b] assms(1) unfolding can_send_def by blast
  moreover have "k \<noteq> 0" using assms(2) by auto
  ultimately show ?thesis
    using assms(3,4) by (auto simp: send_frame_def EthDev_LPC17xx_sendTxEthFrame_def Let_def)
qed

definition eth_wf :: "eth_addr \<Rightarrow> bool" where
  "eth_wf a \<longleftrightarrow> length a = 6"

lemma ethII_type: "HTONS ETH_TYPE_IP = 0x0008" "HTONS ETH_TYPE_ARP = 0x0608"
  by (simp_all add: TUInt16_BSWAP_def)

lemma sendIPv4Tx_sent:
  assumes "ipv4_header_at (ip_at n b) = Some h" "eth_destination n (destipaddr h) = Some d"
    "proto h \<in> {UIP_PROTO_TCP, UIP_PROTO_UDP, UIP_PROTO_ICMP}" "eth_wf d" "eth_wf (eth_mac (net_cfg n))"
    "can_send n b" "unat (ntohs (len16 h)) \<le> 1522" "14 + unat (ntohs (len16 h)) \<le> length (mem n b)"
  shows "\<exists>n'. cMiMicIpNetIf_sendIPv4Tx n b = Some n' \<and> ip_at n' b = ip_at n b \<and>
    wire n' = wire n @ [d @ eth_mac (net_cfg n) @ half_bytes (HTONS ETH_TYPE_IP) @ take (unat (ntohs (len16 h))) (ip_at n b)]"
proof -
  let ?l = "ntohs (len16 h)"
  have l: "unat (14 + ?l) = 14 + unat ?l" using assms(7) by (subst unat_add_small) simp_all
  have "14 \<le> length (mem n b)" using assms(8) by simp
  then obtain e where e: "eth_header_at (mem n b) 0 = Some e"
    by (simp add: eth_header_at_def half_at_def rd_def)
  let ?e = "d @ eth_mac (net_cfg n) @ half_bytes (HTONS ETH_TYPE_IP)"
  let ?f = "?e @ ip_at n b" and ?k = "14 + ?l"
  let ?n = "n\<lparr>mem := (mem n)(b := ?f)\<rparr>"
  have w: "length d = 6" "length (eth_mac (net_cfg n)) = 6" using assms(4,5) by (simp_all add: eth_wf_def)
  have len: "length ?f = length (mem n b)" using \<open>14 \<le> length (mem n b)\<close> w by (simp add: ip_at_def)
  have "blit (mem n b) 0 ?e = Some ?f"
    using \<open>14 \<le> length (mem n b)\<close> w by (simp add: blit_def ip_at_def)
  then have s: "sendIPv4Tx n b = send_frame ?n b ?k \<bind> (\<lambda>n. Some (True, n))"
    using assms(1,2,3) e by (auto simp: sendIPv4Tx_def TEthernetIIHeader_setIPv4Tx_def eth_header_bytes_def)
  have "\<exists>m r. send_frame ?n b ?k = Some (?n\<lparr>mm := m, ring := r, wire := wire ?n @ [take (unat ?k) (mem ?n b)]\<rparr>)"
  proof (rule send_frame_wire)
    show "can_send ?n b" using assms(6) by (simp add: can_send_def)
    show "0 < ?k" "?k \<le> ETH_FRAG_SIZE" using l assms(7) by (simp_all add: word_less_nat_alt word_le_nat_alt)
    show "unat ?k \<le> length (mem ?n b)" using l len assms(8) by simp
  qed
  then obtain m r where "send_frame ?n b ?k = Some (?n\<lparr>mm := m, ring := r, wire := wire n @ [take (14 + unat ?l) ?f]\<rparr>)"
    using l by auto
  moreover have "take (14 + unat ?l) ?f = ?e @ take (unat ?l) (ip_at n b)" using w by simp
  ultimately show ?thesis
    using s w by (simp add: cMiMicIpNetIf_sendIPv4Tx_def) (simp add: ip_at_def)
qed

text \<open>
  An IP packet for which the next hop is known is sent as it is, in one Ethernet frame of
  type IP from the own to the next hop's address: the own broadcast, the multicast address, the
  neighbour, or for other networks the default router.
\<close>

theorem sendIPv4Tx_frame:
  assumes "ipv4_header_at (ip_at n b) = Some h" "eth_destination n (destipaddr h) = Some d"
    "proto h \<in> {UIP_PROTO_TCP, UIP_PROTO_UDP, UIP_PROTO_ICMP}" "eth_wf d" "eth_wf (eth_mac (net_cfg n))"
    "can_send n b" "unat (ntohs (len16 h)) \<le> 1522" "14 + unat (ntohs (len16 h)) \<le> length (mem n b)"
  shows "\<exists>n'. cMiMicIpNetIf_sendIPv4Tx n b = Some n' \<and> ip_at n' b = ip_at n b \<and>
    wire n' = wire n @ [d @ eth_mac (net_cfg n) @ half_bytes (HTONS ETH_TYPE_IP) @ take (unat (ntohs (len16 h))) (ip_at n b)]"
  using assms by (rule sendIPv4Tx_sent)

definition empty_ring :: tx_ring where
  "empty_ring = \<lparr>tx_packet = replicate 16 None, tx_ctrl = replicate 16 0, tx_produce = 0, tx_consume = 0\<rparr>"

definition fresh_mm :: ethernet_mm where
  "fresh_mm = cEthernetMM_initialize \<lparr>buf_max = [], buf_512 = [], buf_256 = [], buf_128 = [], buf_64 = []\<rparr>"

definition demo_config :: ipv4_config where
  "demo_config = \<lparr>eth_mac = [2, 0, 0, 0, 0, 1], ip_addr = 0x0100a8c0, netmask = 0x00ffffff, dr_addr = 0xfe00a8c0, default_mss = 1460\<rparr>"

definition demo_net :: netif where
  "demo_net = \<lparr>mm = fresh_mm, ring = empty_ring, mem = (\<lambda>b. replicate (unat (block_size (fst b))) 0), wire = [], ip_pid = 1,
     arp_st = \<lparr>arp_cfg = demo_config, arptime = 0, tmpage = 0, arp_table = replicate 8 \<lparr>ai_ipaddr = 0, ai_ethaddr = replicate 6 0, ai_time = 0\<rparr>\<rparr>,
     net_cfg = demo_config\<rparr>"

lemma demo_mm: "is_lock (header_of fresh_mm (p, 0)) = False"
  by (cases p) (simp_all add: header_of_def fresh_mm_def cEthernetMM_initialize_def)

theorem sendIPv4Tx_frame_witness:
  "\<exists>n'. cMiMicIpNetIf_sendIPv4Tx (put_ip demo_net (Buf64, 0) (ipv4_header_bytes (demo_header\<lparr>proto := 17, destipaddr := 0xffffffff\<rparr>) @ [7, 8, 9, 10])) (Buf64, 0) = Some n' \<and>
    wire n' = [replicate 6 0xff @ [2, 0, 0, 0, 0, 1] @ half_bytes (HTONS ETH_TYPE_IP) @
      ipv4_header_bytes (demo_header\<lparr>proto := 17, destipaddr := 0xffffffff\<rparr>) @ [7, 8, 9, 10]]"
proof -
  let ?h = "demo_header\<lparr>proto := 17, destipaddr := 0xffffffff\<rparr>"
  let ?n = "put_ip demo_net (Buf64, 0) (ipv4_header_bytes ?h @ [7, 8, 9, 10])"
  have ip: "ip_at ?n (Buf64, 0) = ipv4_header_bytes ?h @ [7, 8, 9, 10]"
    by (simp add: ip_at_def put_ip_def demo_net_def)
  have lh: "len16 ?h = len16 demo_header" by simp
  have l: "unat (ntohs (len16 demo_header)) = 24" by (simp add: demo_header_def TUInt16_bswap_def TUInt16_BSWAP_def)
  have "\<exists>n'. cMiMicIpNetIf_sendIPv4Tx ?n (Buf64, 0) = Some n' \<and> ip_at n' (Buf64, 0) = ip_at ?n (Buf64, 0) \<and>
    wire n' = wire ?n @ [replicate 6 0xff @ eth_mac (net_cfg ?n) @ half_bytes (HTONS ETH_TYPE_IP) @ take (unat (ntohs (len16 ?h))) (ip_at ?n (Buf64, 0))]"
  proof (rule sendIPv4Tx_frame)
    show "ipv4_header_at (ip_at ?n (Buf64, 0)) = Some ?h" by (simp add: ip)
    show "eth_destination ?n (destipaddr ?h) = Some (replicate 6 0xff)"
      by (simp add: eth_destination_def TIPv4Addr_isEqual_def TIPv4Addr_BROADCAST_def TEthAddr_BROADCAST_def eval_nat_numeral)
    show "can_send ?n (Buf64, 0)" by (simp add: can_send_def put_ip_def demo_net_def empty_ring_def demo_mm)
  qed (simp_all add: l eth_wf_def put_ip_def demo_net_def demo_config_def)
  then show ?thesis unfolding ip lh l by (auto simp: put_ip_def demo_net_def demo_config_def)
qed

text \<open>
  An ARP request is malformed: the frame starts with 14 bytes that its buffer held before,
  and the Ethernet header and half of the ARP packet follow as its payload.
\<close>

theorem arp_request_malformed:
  assumes "cEthernetMM_alloc (mm n) HINT_CTRL_PACKET = Some (b, s, m)" "length (mem n b) = 64"
    "(tx_produce (ring n) + 1) mod NUM_TX_FRAG \<noteq> tx_consume (ring n)" "eth_wf (eth_mac (net_cfg n))"
  shows "\<exists>n' a. cMiMicIpNetIf_sendArpRequest n i_addr = Some n' \<and>
    wire n' = wire n @ [take 14 (mem n b) @ (replicate 6 0xff @ eth_mac (net_cfg n) @ half_bytes (HTONS ETH_TYPE_ARP)) @
      take 14 (arp_header_bytes (TArpHeader_setArpRequest a (ip_addr (net_cfg n)) (eth_mac (net_cfg n)) i_addr))]"
proof -
  let ?c = "net_cfg n" and ?n = "n\<lparr>mm := m\<rparr>"
  obtain a where a: "arp_header_at (mem n b) 28 = Some a"
    using assms(2) by (simp add: arp_header_at_def half_at_def word_at_def rd_def)
  let ?a = "TArpHeader_setArpRequest a (ip_addr ?c) (eth_mac ?c) i_addr"
  have la: "length (arp_header_bytes ?a) = 28"
    using assms(4) by (simp add: arp_header_bytes_def TArpHeader_setArpRequest_def eth_wf_def)
  let ?f = "take 28 (mem n b) @ arp_header_bytes ?a @ drop 56 (mem n b)"
  have f: "blit (mem n b) 28 (arp_header_bytes ?a) = Some ?f" using assms(2) la by (simp add: blit_def)
  have "length ?f = 64" using assms(2) la by simp
  then obtain e where e: "eth_header_at ?f 14 = Some e"
    by (simp add: eth_header_at_def half_at_def rd_def)
  let ?e = "replicate 6 0xff @ eth_mac ?c @ half_bytes (HTONS ETH_TYPE_ARP)"
  have le: "length ?e = 14" using assms(4) by (simp add: eth_wf_def)
  let ?g = "take 14 (mem n b) @ ?e @ arp_header_bytes ?a @ drop 56 (mem n b)"
  have g: "blit ?f 14 ?e = Some ?g" using assms(2) la le by (simp add: blit_def)
  have set: "TEthernetIIHeader_setArpTx e ?a (eth_mac ?c) = (e\<lparr>eth_type := HTONS ETH_TYPE_ARP, eth_dest := replicate 6 0xff, eth_src := eth_mac ?c\<rparr>, 42)"
    by (simp add: TEthernetIIHeader_setArpTx_def TArpHeader_setArpRequest_def TUInt16_BSWAP_def)
  let ?m = "?n\<lparr>mem := (mem n)(b := ?g)\<rparr>"
  have "\<not> is_lock (header_of m b)"
    using alloc_upd [OF assms(1)] by (simp add: header_of_upd block_used_def)
  then have "can_send ?m b" using assms(3) by (simp add: can_send_def)
  then obtain m' r where s: "send_frame ?m b 42 = Some (?m\<lparr>mm := m', ring := r, wire := wire ?m @ [take 42 (mem ?m b)]\<rparr>)"
    using send_frame_wire [of ?m b 42] assms(2) la le by auto
  have "cMiMicIpNetIf_sendArpRequest n i_addr =
      Some (cMiMicIpNetIf_releaseTxBuf (?m\<lparr>mm := m', ring := r, wire := wire ?m @ [take 42 (mem ?m b)]\<rparr>) b)"
    using assms(1) a f e g s by (simp add: cMiMicIpNetIf_sendArpRequest_def cMiMicIpNetIf_allocSysTxBuf_def Let_def set eth_header_bytes_def)
  moreover have "take 42 ?g = take 14 (mem n b) @ ?e @ take 14 (arp_header_bytes ?a)" using assms(2) la le by simp
  ultimately show ?thesis by (auto simp: cMiMicIpNetIf_releaseTxBuf_def)
qed

theorem arp_request_malformed_witness:
  "\<exists>n' a. cMiMicIpNetIf_sendArpRequest demo_net 0x0200a8c0 = Some n' \<and>
    wire n' = [replicate 14 0 @ (replicate 6 0xff @ [2, 0, 0, 0, 0, 1] @ half_bytes (HTONS ETH_TYPE_ARP)) @
      take 14 (arp_header_bytes (TArpHeader_setArpRequest a 0x0100a8c0 [2, 0, 0, 0, 0, 1] 0x0200a8c0))]"
proof -
  have "map_option (\<lambda>(b, s, m). (b, s)) (cEthernetMM_alloc fresh_mm 0) = Some ((Buf64, 0), 64)" by code_simp
  then obtain m where "cEthernetMM_alloc (mm demo_net) HINT_CTRL_PACKET = Some ((Buf64, 0), 64, m)"
    by (auto simp: demo_net_def)
  from arp_request_malformed [OF this, of "0x0200a8c0"] show ?thesis
    by (simp add: demo_net_def demo_config_def empty_ring_def eth_wf_def)
qed

end
