(* ===== verification/TcpSocket.thy ===== *)
theory TcpSocket
  imports NetTx
begin

text \<open>
  \<open>NyLPC_cMiMicIpTcpSocket.c\<close>, the TCP socket: its state, the queue of segments kept for
  retransmission, the handler of received segments (\<open>parseRx\<close>), the periodic retransmission, and the
  operations that run under one lock. The calls that wait, which release the lock and let other
  threads run, are in \<open>TcpApi\<close>.

  The lock makes each definition below one atomic step. A definition takes the socket and the
  network interface and returns them; time is the argument \<open>now\<close>, in milliseconds. \<open>None\<close> is an
  access outside an object, or a call that does not return.
\<close>

unbundle bit_operations_syntax

section \<open>The socket\<close>

abbreviation (input) "UIP_CLOSED \<equiv> (0 :: u8)"
abbreviation (input) "UIP_SYN_RCVD \<equiv> (1 :: u8)"
abbreviation (input) "UIP_SYN_SENT \<equiv> (2 :: u8)"
abbreviation (input) "UIP_ESTABLISHED \<equiv> (3 :: u8)"
abbreviation (input) "UIP_FIN_WAIT_1 \<equiv> (4 :: u8)"
abbreviation (input) "UIP_FIN_WAIT_2 \<equiv> (5 :: u8)"
abbreviation (input) "UIP_CLOSING \<equiv> (6 :: u8)"
abbreviation (input) "UIP_TIME_WAIT \<equiv> (7 :: u8)"
abbreviation (input) "UIP_CLOSE_WAIT \<equiv> (8 :: u8)"
abbreviation (input) "UIP_LAST_ACK \<equiv> (9 :: u8)"

abbreviation (input) "NUMBER_OF_TXQ \<equiv> (4 :: nat)"
abbreviation (input) "UIP_IP_RTO_MAX_RTO \<equiv> (64000 :: u32)"
abbreviation (input) "UIP_TCP_RTO_INITIAL \<equiv> (3000 :: u32)"
abbreviation (input) "UIP_TCP_RTO_CONNECTION_INITIAL \<equiv> (200 :: u32)"
abbreviation (input) "UIP_TCP_RTO_MINIMUM \<equiv> (100 :: u32)"

text \<open>The initial sequence number, a static variable that nothing assigns.\<close>

definition iss32 :: u32 where
  "iss32 = 3939"

record txq_item =
  tick_of_sent :: u32
  rto32 :: u32
  packet :: "block option"
  txq_ackno :: u32

text \<open>\<open>txq_ackno\<close> is in network order. The queue is a ring; one of its four items stays unused.\<close>

record tcp_socket =
  conn :: uip_conn
  rxbuf :: fifo_buffer
  q_rp :: nat
  q_wp :: nat
  txq :: "txq_item list"
  tcpstateflags :: u8

record syn_param =
  sp_srcaddr :: ipv4_addr
  sp_rport :: u16
  sp_mss :: u16
  sp_rcv_nxt32 :: u32

section \<open>The transmit queue\<close>

text \<open>
  The indices a loop \<open>while(rp!=wp)\<close> over the ring visits. \<open>None\<close> is a loop that leaves the array
  or does not end.
\<close>

definition next_idx :: "nat \<Rightarrow> nat" where
  "next_idx i = (i + 1) mod NUMBER_OF_TXQ"

function txq_range :: "nat \<Rightarrow> nat \<Rightarrow> nat list option" where
  "txq_range rp wp =
     (if rp = wp then Some []
      else if NUMBER_OF_TXQ \<le> rp \<or> NUMBER_OF_TXQ \<le> wp then None
      else map_option (Cons rp) (txq_range (next_idx rp) wp))"
  by pat_completeness auto
termination
proof (relation "measure (\<lambda>(rp, wp). (wp + 4 - rp) mod 4)")
  fix rp wp :: nat
  assume a: "rp \<noteq> wp" "\<not> (4 \<le> rp \<or> 4 \<le> wp)"
  then have "rp \<in> {0, 1, 2, 3}" "wp \<in> {0, 1, 2, 3}" by auto
  with a(1) show "((next_idx rp, wp), rp, wp) \<in> measure (\<lambda>(rp, wp). (wp + 4 - rp) mod 4)"
    by (auto simp: next_idx_def)
qed simp

declare txq_range.simps [simp del]

definition pending :: "tcp_socket \<Rightarrow> nat list option" where
  "pending s = txq_range (q_rp s) (q_wp s)"

definition isPacketAcked :: "tcp_socket \<Rightarrow> u32 \<Rightarrow> bool option" where
  "isPacketAcked s i_sq = map_option (list_all (\<lambda>i. txq_ackno (txq s ! i) \<noteq> i_sq)) (pending s)"

fun num_of_sending :: "txq_item list \<Rightarrow> u32 \<Rightarrow> nat list \<Rightarrow> nat \<Rightarrow> nat" where
  "num_of_sending q i_sq [] n = n"
| "num_of_sending q i_sq (i # is) n =
     (if txq_ackno (q ! i) = i_sq then n else num_of_sending q i_sq is (n + 1))"

definition getNumOfSending :: "tcp_socket \<Rightarrow> u32 \<Rightarrow> nat option" where
  "getNumOfSending s i_sq = map_option (\<lambda>is. num_of_sending (txq s) i_sq is 0) (pending s)"

fun release_all :: "netif \<Rightarrow> block option list \<Rightarrow> netif option" where
  "release_all n [] = Some n"
| "release_all n (None # bs) = None"
| "release_all n (Some b # bs) = release_all (cMiMicIpNetIf_releaseTxBuf n b) bs"

definition resetTxQWithUnlock :: "tcp_socket \<Rightarrow> netif \<Rightarrow> (tcp_socket \<times> netif) option" where
  "resetTxQWithUnlock s n = do {
     is \<leftarrow> pending s;
     n \<leftarrow> release_all n (map (\<lambda>i. packet (txq s ! i)) is);
     Some (s\<lparr>q_rp := 0, q_wp := 0\<rparr>, n) }"

fun update_tx_ack :: "netif \<Rightarrow> u32 \<Rightarrow> block option list \<Rightarrow> netif option" where
  "update_tx_ack n i_ackno [] = Some n"
| "update_tx_ack n i_ackno (None # bs) = None"
| "update_tx_ack n i_ackno (Some b # bs) = do {
     p \<leftarrow> updateAckNo (ip_at n b) i_ackno;
     update_tx_ack (put_ip n b p) i_ackno bs }"

definition updateTxAck :: "tcp_socket \<Rightarrow> netif \<Rightarrow> u32 \<Rightarrow> netif option" where
  "updateTxAck s n i_ackno = do {
     is \<leftarrow> pending s;
     update_tx_ack n i_ackno (map (\<lambda>i. packet (txq s ! i)) is) }"

text \<open>
  The retransmission timeout after \<open>n\<close> segments from index \<open>i\<close> on were acknowledged; the elapsed
  times are unsigned differences.
\<close>

definition elapsed :: "u32 \<Rightarrow> tcp_socket \<Rightarrow> nat \<Rightarrow> u32" where
  "elapsed now s i = now - tick_of_sent (txq s ! (i mod NUMBER_OF_TXQ))"

definition estimateRTO :: "u32 \<Rightarrow> tcp_socket \<Rightarrow> nat \<Rightarrow> nat \<Rightarrow> tcp_socket" where
  "estimateRTO now s i n =
     (let sk_rto = current_rto32 (conn s);
          new_rto =
            (if n = 1 then
               let rtt = elapsed now s i in
               if sk_rto < rtt then sk_rto * 10 div 8
               else if sk_rto div 4 < rtt then (sk_rto + rtt * 3 * 7) div 8
               else (sk_rto + rtt * 3 * 3) div 4
             else
               let rtts = map (\<lambda>k. elapsed now s (i + k)) [1..<n];
                   cr_min = foldl (\<lambda>a w. if a > w then w else a) (elapsed now s i) rtts;
                   cr_max = foldl (\<lambda>a w. if a < w then w else a) (elapsed now s i) rtts in
               if sk_rto < cr_min \<and> sk_rto < cr_max then cr_max * 10 div 8
               else if sk_rto div 4 < cr_min then (sk_rto + cr_min * 3 * 7) div 8
               else (sk_rto + cr_min * 3 * 3) div 4) in
      s\<lparr>conn := (conn s)\<lparr>current_rto32 := (if new_rto < UIP_TCP_RTO_MINIMUM then UIP_TCP_RTO_MINIMUM else new_rto)\<rparr>\<rparr>)"

text \<open>The packets up to the acknowledged one are taken off the queue; none, if no item matches.\<close>

fun update_txq :: "u32 \<Rightarrow> tcp_socket \<Rightarrow> u32 \<Rightarrow> nat list \<Rightarrow> block option list \<Rightarrow> block option list \<times> tcp_socket" where
  "update_txq now s i_sq [] o_dlist = ([], s)"
| "update_txq now s i_sq (i # is) o_dlist =
     (let o_dlist = o_dlist @ [packet (txq s ! i)] in
      if txq_ackno (txq s ! i) = i_sq
      then (o_dlist, (estimateRTO now s (q_rp s) (length o_dlist))\<lparr>q_rp := next_idx i\<rparr>)
      else update_txq now s i_sq is o_dlist)"

definition updateTxQByIndex :: "u32 \<Rightarrow> tcp_socket \<Rightarrow> u32 \<Rightarrow> (block option list \<times> tcp_socket) option" where
  "updateTxQByIndex now s i_sq = map_option (\<lambda>is. update_txq now s i_sq is []) (pending s)"

section \<open>Sending one segment\<close>

text \<open>Writing a segment without data to a buffer, and sending it.\<close>

definition write_segment :: "tcp_socket \<Rightarrow> netif \<Rightarrow> block \<Rightarrow> u8 \<Rightarrow> netif option" where
  "write_segment s n b i_tcpf = do {
     (pid, p) \<leftarrow> setTxPacket (ip_pid n) (cFifoBuffer_getSpace (rxbuf s)) (conn s) (ip_at n b) i_tcpf None 0;
     Some (put_ip (n\<lparr>ip_pid := pid\<rparr>) b p) }"

definition sendRst :: "tcp_socket \<Rightarrow> netif \<Rightarrow> (tcp_socket \<times> netif) option" where
  "sendRst s n = do {
     (b, n) \<leftarrow> cMiMicIpNetIf_allocSysTxBuf n;
     let s = s\<lparr>conn := (conn s)\<lparr>snd_nxt32 := snd_nxt32 (conn s) + 1\<rparr>\<rparr>;
     n \<leftarrow> write_segment s n b (TCP_RST OR TCP_ACK);
     n \<leftarrow> cMiMicIpNetIf_sendIPv4Tx n b;
     Some (s, cMiMicIpNetIf_releaseTxBuf n b) }"

section \<open>Life cycle\<close>

definition cMiMicIpTcpSocket_initialize :: "tcp_socket \<Rightarrow> u8 list \<Rightarrow> u16 \<Rightarrow> tcp_socket" where
  "cMiMicIpTcpSocket_initialize s i_rbuf i_rbuf_len =
     s\<lparr>rxbuf := cFifoBuffer_initialize i_rbuf i_rbuf_len, tcpstateflags := UIP_CLOSED, q_rp := 0, q_wp := 0,
       txq := map (\<lambda>t. t\<lparr>packet := None\<rparr>) (txq s)\<rparr>"

definition cMiMicIpTcpSocket_startService :: "tcp_socket \<Rightarrow> ipv4_config \<Rightarrow> tcp_socket" where
  "cMiMicIpTcpSocket_startService s i_config =
     s\<lparr>conn := (conn s)\<lparr>lipaddr := ip_addr i_config, own_mss := default_mss i_config\<rparr>,
       rxbuf := cFifoBuffer_clear (rxbuf s)\<rparr>"

definition cMiMicIpTcpSocket_stopService :: "tcp_socket \<Rightarrow> netif \<Rightarrow> (tcp_socket \<times> netif) option" where
  "cMiMicIpTcpSocket_stopService s n =
     (if tcpstateflags s = UIP_CLOSED then Some (s, n)
      else do {
        (s, n) \<leftarrow> resetTxQWithUnlock (s\<lparr>tcpstateflags := UIP_CLOSED\<rparr>) n;
        sendRst s n })"

definition cMiMicIpTcpSocket_finalize :: "tcp_socket \<Rightarrow> netif \<Rightarrow> (tcp_socket \<times> netif) option" where
  "cMiMicIpTcpSocket_finalize s n = do {
     (s, n) \<leftarrow> (if q_rp s \<noteq> q_wp s then resetTxQWithUnlock s n else Some (s, n));
     Some (s\<lparr>txq := map (\<lambda>t. t\<lparr>packet := None\<rparr>) (txq s)\<rparr>, n) }"

definition cMiMicIpTcpSocket_listenSyn :: "tcp_socket \<Rightarrow> netif \<Rightarrow> syn_param \<Rightarrow> u16 \<Rightarrow> (bool \<times> tcp_socket \<times> netif) option" where
  "cMiMicIpTcpSocket_listenSyn s n i_lq i_lport =
     (if tcpstateflags s = UIP_CLOSED then do {
        let s = s\<lparr>conn := (conn s)\<lparr>current_rto32 := UIP_TCP_RTO_INITIAL, lport := i_lport, rport := sp_rport i_lq,
              ripaddr := sp_srcaddr i_lq, snd_nxt32 := iss32, rcv_nxt32 := sp_rcv_nxt32 i_lq,
              peer_mss := (if sp_mss i_lq \<noteq> 0 then sp_mss i_lq else own_mss (conn s)), peer_win := 0\<rparr>,
            rxbuf := cFifoBuffer_clear (rxbuf s), tcpstateflags := UIP_SYN_RCVD\<rparr>;
        (s, n) \<leftarrow> (if q_rp s \<noteq> q_wp s then resetTxQWithUnlock s n else Some (s, n));
        Some (True, s, n) }
      else Some (False, s, n))"

definition getPeerAddr :: "tcp_socket \<Rightarrow> ipv4_addr" where
  "getPeerAddr s = ripaddr (conn s)"

definition getPeerPort :: "tcp_socket \<Rightarrow> u16" where
  "getPeerPort s = rport (conn s)"

section \<open>Received segments\<close>

definition addRecvData :: "tcp_socket \<Rightarrow> u8 list \<Rightarrow> u16 \<Rightarrow> (bool \<times> tcp_socket) option" where
  "addRecvData s i_data i_data_size =
     (if cFifoBuffer_getSpace (rxbuf s) \<ge> i_data_size
      then map_option (\<lambda>q. (True, s\<lparr>rxbuf := q\<rparr>)) (cFifoBuffer_push (rxbuf s) i_data i_data_size)
      else Some (False, s))"

definition set_state :: "u8 \<Rightarrow> tcp_socket \<Rightarrow> tcp_socket" where
  "set_state v s = s\<lparr>tcpstateflags := v\<rparr>"

definition add_rcv_nxt :: "u32 \<Rightarrow> tcp_socket \<Rightarrow> tcp_socket" where
  "add_rcv_nxt k s = s\<lparr>conn := (conn s)\<lparr>rcv_nxt32 := rcv_nxt32 (conn s) + k\<rparr>\<rparr>"

text \<open>The part of the segment the handler looks at; \<open>rs_ackno\<close> is in network order.\<close>

record rx_segment =
  rs_flags :: u8
  rs_seqno :: u32
  rs_ackno :: u32
  rs_wnd :: u16
  rs_size :: u16
  rs_data :: "u8 list"

definition rx_established :: "rx_segment \<Rightarrow> bool \<Rightarrow> tcp_socket \<Rightarrow> tcp_socket option" where
  "rx_established g is_new s = do {
     s \<leftarrow> (if rs_size g > 0 \<and> is_new then do {
             (ok, s) \<leftarrow> addRecvData s (rs_data g) (rs_size g);
             Some (if ok then add_rcv_nxt (ucast (rs_size g)) s else s) }
           else Some s);
     Some (if is_new \<and> rs_flags g AND TCP_FIN \<noteq> 0
           then add_rcv_nxt 1 (set_state UIP_CLOSE_WAIT s) else s) }"

definition rx_fin_wait_1 :: "rx_segment \<Rightarrow> bool \<Rightarrow> nat \<Rightarrow> tcp_socket \<Rightarrow> tcp_socket" where
  "rx_fin_wait_1 g is_new num_of_noack s =
     (if is_new then
        let s = add_rcv_nxt (ucast (rs_size g)) s in
        if rs_flags g AND TCP_FIN \<noteq> 0
        then set_state (if num_of_noack = 0 then UIP_TIME_WAIT else UIP_CLOSING) (add_rcv_nxt 1 s)
        else s
      else if num_of_noack = 0 then set_state UIP_FIN_WAIT_2 s
      else s)"

text \<open>The switch over the state. The inner \<open>None\<close> is the default branch, which drops the segment.\<close>

definition rx_switch :: "rx_segment \<Rightarrow> bool \<Rightarrow> nat \<Rightarrow> tcp_socket \<Rightarrow> tcp_socket option option" where
  "rx_switch g is_new num_of_noack s =
     (let st = tcpstateflags s in
      if st = UIP_SYN_RCVD then
        (if num_of_noack = 0 then
           let s = set_state UIP_ESTABLISHED s in
           if \<not> is_new then Some (Some s) else map_option Some (rx_established g is_new s)
         else Some (Some s))
      else if st = UIP_ESTABLISHED then map_option Some (rx_established g is_new s)
      else if st = UIP_CLOSE_WAIT then Some (Some s)
      else if st = UIP_LAST_ACK then Some (Some (if num_of_noack = 0 then set_state UIP_CLOSED s else s))
      else if st = UIP_FIN_WAIT_1 then Some (Some (rx_fin_wait_1 g is_new num_of_noack s))
      else if st = UIP_FIN_WAIT_2 then
        Some (Some (if is_new \<and> rs_flags g AND TCP_FIN \<noteq> 0 then set_state UIP_TIME_WAIT (add_rcv_nxt 1 s) else s))
      else if st = UIP_CLOSING then Some (Some (if num_of_noack = 0 then set_state UIP_TIME_WAIT s else s))
      else if st = UIP_CLOSED then Some (Some s)
      else if st = UIP_TIME_WAIT then Some (Some s)
      else if st = UIP_SYN_SENT then
        Some (Some (if num_of_noack = 0
          then (set_state UIP_ESTABLISHED s)\<lparr>conn := (conn s)\<lparr>rcv_nxt32 := rs_seqno g + 1\<rparr>\<rparr> else s))
      else Some None)"

text \<open>
  The walk over the options is given 41 turns: the options have at most 40 bytes, and a walk that
  needs more turns never ends (lemma \<open>opt_loop_diverges\<close>).
\<close>

definition rx_options :: "ipv4_payload \<Rightarrow> tcp_header \<Rightarrow> tcp_socket \<Rightarrow> tcp_socket option" where
  "rx_options i_ipp t s = do {
     m \<leftarrow> Option.bind (TTcpHeader_getTcpMmsOpt 41 t (drop (pl_rawbuf i_ipp + 20) (pl_packet i_ipp))) id;
     Some (case m of None \<Rightarrow> s | Some v \<Rightarrow> s\<lparr>conn := (conn s)\<lparr>peer_mss := v\<rparr>\<rparr>) }"

definition rx_segment_of :: "ipv4_payload \<Rightarrow> tcp_header \<Rightarrow> rx_segment" where
  "rx_segment_of i_ipp t =
     (let hl = TTcpHeader_getHeaderLength t in
      \<lparr>rs_flags = tcp_flags t, rs_seqno = ntohl (seqno32 t), rs_ackno = ackno32 t, rs_wnd = ntohs (wnd16 t),
       rs_size = ntohs (len16 (pl_header i_ipp)) - of_nat (TIPv4Header_getHeaderLength (pl_header i_ipp)) - hl,
       rs_data = drop (pl_rawbuf i_ipp + unat hl) (pl_packet i_ipp)\<rparr>)"

text \<open>What follows the switch: the window, the queue, the answer.\<close>

definition rx_finish :: "u32 \<Rightarrow> rx_segment \<Rightarrow> bool \<Rightarrow> tcp_socket \<Rightarrow> netif \<Rightarrow> (block option \<times> tcp_socket \<times> netif) option" where
  "rx_finish now g is_new s n = do {
     let s = s\<lparr>conn := (conn s)\<lparr>peer_win := rs_wnd g\<rparr>\<rparr>;
     (dlist, s) \<leftarrow> (if rs_flags g AND TCP_ACK \<noteq> 0 then updateTxQByIndex now s (rs_ackno g) else Some ([], s));
     n \<leftarrow> (if is_new then updateTxAck s n (htonl (rcv_nxt32 (conn s))) else Some n);
     (ret, n) \<leftarrow> (if rs_flags g AND (TCP_FIN OR TCP_SYN) \<noteq> 0 \<or> \<not> is_new \<and> rs_size g > 0
       then do {
         (b, n) \<leftarrow> cMiMicIpNetIf_allocSysTxBuf n;
         n \<leftarrow> write_segment s n b TCP_ACK;
         Some (Some b, n) }
       else Some (None, n));
     n \<leftarrow> release_all n dlist;
     Some (ret, s, n) }"

definition cMiMicIpTcpSocket_parseRx ::
  "u32 \<Rightarrow> tcp_socket \<Rightarrow> netif \<Rightarrow> ipv4_payload \<Rightarrow> (block option \<times> tcp_socket \<times> netif) option" where
  "cMiMicIpTcpSocket_parseRx now s n i_ipp = do {
     t \<leftarrow> tcp_header_at (pl_packet i_ipp) (pl_rawbuf i_ipp);
     let g = rx_segment_of i_ipp t;
     if rs_flags g AND TCP_RST \<noteq> 0 then Some (None, set_state UIP_CLOSED s, n)
     else do {
       let is_new = (rs_seqno g = rcv_nxt32 (conn s));
       s \<leftarrow> rx_options i_ipp t s;
       num_of_noack \<leftarrow> getNumOfSending s (rs_ackno g);
       r \<leftarrow> rx_switch g is_new num_of_noack s;
       (case r of
          None \<Rightarrow> Some (None, s, n)
        | Some s \<Rightarrow> rx_finish now g is_new s n) } }"

definition cMiMicIpTcpSocket_allocTcpReverseRstAck :: "netif \<Rightarrow> ipv4_payload \<Rightarrow> (block \<times> netif) option" where
  "cMiMicIpTcpSocket_allocTcpReverseRstAck n i_src = do {
     (b, n) \<leftarrow> cMiMicIpNetIf_allocSysTxBuf n;
     (pid, p) \<leftarrow> reverseRstAck (ip_pid n) (ip_at n b) i_src;
     Some (b, put_ip (n\<lparr>ip_pid := pid\<rparr>) b p) }"

section \<open>Retransmission\<close>

fun send_all :: "netif \<Rightarrow> block option list \<Rightarrow> netif option" where
  "send_all n [] = Some n"
| "send_all n (None # bs) = None"
| "send_all n (Some b # bs) = do { n \<leftarrow> cMiMicIpNetIf_sendIPv4Tx n b; send_all n bs }"

definition cMiMicIpTcpSocket_periodic :: "u32 \<Rightarrow> tcp_socket \<Rightarrow> netif \<Rightarrow> (tcp_socket \<times> netif) option" where
  "cMiMicIpTcpSocket_periodic now s n =
     (if tcpstateflags s = UIP_CLOSED then resetTxQWithUnlock s n
      else if q_rp s = q_wp s then Some (s, n)
      else if peer_win (conn s) = 0 then Some (s, n)
      else do {
        is \<leftarrow> pending s;
        let rp = q_rp s;
        let q = txq s;
        if now - tick_of_sent (q ! rp) > rto32 (q ! rp) then do {
          let q = q[rp := (q ! rp)\<lparr>rto32 := rto32 (q ! rp) * 2\<rparr>];
          let q = foldl (\<lambda>q i. q[i := (q ! i)\<lparr>tick_of_sent := now\<rparr>]) q is;
          let s = s\<lparr>txq := q\<rparr>;
          if rto32 (q ! rp) > UIP_IP_RTO_MAX_RTO then do {
            (s, n) \<leftarrow> resetTxQWithUnlock (set_state UIP_CLOSED s) n;
            sendRst s n }
          else do {
            n \<leftarrow> send_all n (map (\<lambda>i. packet (q ! i)) is);
            Some (s, n) } }
        else Some (s, n) })"

section \<open>Reading\<close>

text \<open>\<open>precv\<close> looks once at the buffer: \<open>Some\<close> is its result, \<open>None\<close> means that it waits.\<close>

definition precv_poll :: "tcp_socket \<Rightarrow> (int \<times> u8 list) option" where
  "precv_poll s =
     (let rlen = cFifoBuffer_getLength (rxbuf s); p = cFifoBuffer_getPtr (rxbuf s) in
      if tcpstateflags s = UIP_ESTABLISHED then (if rlen > 0 then Some (int (unat rlen), p) else None)
      else if tcpstateflags s = UIP_CLOSE_WAIT \<and> rlen > 0 then Some (int (unat rlen), p)
      else Some (- 1, p))"

definition pseek :: "tcp_socket \<Rightarrow> netif \<Rightarrow> u16 \<Rightarrow> (tcp_socket \<times> netif) option" where
  "pseek s n i_seek =
     (if i_seek = 0 then Some (s, n)
      else do {
        (b, n) \<leftarrow> cMiMicIpNetIf_allocSysTxBuf n;
        q \<leftarrow> cFifoBuffer_pop (rxbuf s) i_seek;
        let s = s\<lparr>rxbuf := q\<rparr>;
        n \<leftarrow> write_segment s n b TCP_ACK;
        n \<leftarrow> cMiMicIpNetIf_sendIPv4Tx n b;
        Some (s, cMiMicIpNetIf_releaseTxBuf n b) })"

end
