(* ===== verification/TcpReceive.thy ===== *)
theory TcpReceive
  imports TcpSocket
begin

text \<open>
  What the TCP socket does with received segments: which state changes \<open>parseRx\<close> makes, and that the
  application reads the peer's data in order, without gaps or duplicates, whatever segments arrive.
\<close>

section \<open>What a segment changes\<close>

text \<open>The queue update and the estimate of the timeout touch neither the receive side nor the state.\<close>

definition same_rx :: "tcp_socket \<Rightarrow> tcp_socket \<Rightarrow> bool" where
  "same_rx s s' \<longleftrightarrow> rxbuf s' = rxbuf s \<and> tcpstateflags s' = tcpstateflags s \<and>
     rcv_nxt32 (conn s') = rcv_nxt32 (conn s)"

lemma same_rx_trans: "same_rx s t \<Longrightarrow> same_rx t u \<Longrightarrow> same_rx s u"
  by (simp add: same_rx_def)

lemma same_rx_estimate: "same_rx s (estimateRTO now s i n)"
  by (simp add: same_rx_def estimateRTO_def Let_def)

lemma same_rx_update_txq: "update_txq now s sq is ds = (l, s') \<Longrightarrow> same_rx s s'"
proof (induction "is" arbitrary: ds)
  case (Cons i "is")
  then show ?case using same_rx_estimate [of s now "q_rp s" "Suc (length ds)"]
    by (auto simp: Let_def same_rx_def split: if_splits)
qed (simp add: same_rx_def)

lemma same_rx_finish:
  assumes "rx_finish now g is_new s n = Some (ret, s', n')"
  shows "same_rx s s'"
proof -
  let ?s = "s\<lparr>conn := (conn s)\<lparr>peer_win := rs_wnd g\<rparr>\<rparr>"
  obtain d t where "(if rs_flags g AND TCP_ACK \<noteq> 0 then updateTxQByIndex now ?s (rs_ackno g) else Some ([], ?s)) = Some (d, t)" "s' = t"
    using assms by (auto simp: rx_finish_def Let_def split: Option.bind_splits)
  then have "same_rx ?s s'"
    by (auto simp: updateTxQByIndex_def same_rx_def dest: same_rx_update_txq split: if_splits)
  then show ?thesis by (simp add: same_rx_def)
qed

lemma same_rx_options: "rx_options pl t s = Some s' \<Longrightarrow> same_rx s s'"
  by (auto simp: rx_options_def same_rx_def split: Option.bind_splits option.splits)

lemma options_queue: "rx_options pl t s = Some s' \<Longrightarrow> getNumOfSending s' k = getNumOfSending s k"
  by (auto simp: rx_options_def getNumOfSending_def pending_def split: Option.bind_splits option.splits)

text \<open>A segment resets the connection, or the switch over the state decides.\<close>

lemma parseRx_cases:
  assumes "cMiMicIpTcpSocket_parseRx now s n pl = Some (ret, s', n')"
    "tcp_header_at (pl_packet pl) (pl_rawbuf pl) = Some t"
  obtains (rst) "tcp_flags t AND TCP_RST \<noteq> 0" "s' = set_state UIP_CLOSED s"
  | (dropped) s0 k where "tcp_flags t AND TCP_RST = 0" "same_rx s s0" "getNumOfSending s (ackno32 t) = Some k"
      "rx_switch (rx_segment_of pl t) (ntohl (seqno32 t) = rcv_nxt32 (conn s)) k s0 = Some None" "s' = s0"
  | (switched) s0 k s1 where "tcp_flags t AND TCP_RST = 0" "same_rx s s0" "getNumOfSending s (ackno32 t) = Some k"
      "rx_switch (rx_segment_of pl t) (ntohl (seqno32 t) = rcv_nxt32 (conn s)) k s0 = Some (Some s1)" "same_rx s1 s'"
  using assms unfolding cMiMicIpTcpSocket_parseRx_def
  by (auto simp: Let_def rx_segment_of_def split: if_splits Option.bind_splits option.splits
      dest!: same_rx_finish) (metis same_rx_options options_queue)+

section \<open>State changes\<close>






section \<open>Data arrive in order\<close>

text \<open>
  A segment of the peer's byte stream \<open>S\<close>, whose first byte has number \<open>isn\<close>: it carries no data,
  or the bytes of the stream at its sequence number.
\<close>

definition from_stream :: "u32 \<Rightarrow> u8 list \<Rightarrow> ipv4_payload \<Rightarrow> bool" where
  "from_stream isn S pl \<longleftrightarrow> (\<forall>t. tcp_header_at (pl_packet pl) (pl_rawbuf pl) = Some t \<longrightarrow>
     (let g = rx_segment_of pl t; m = unat (rs_size g) in
      m = 0 \<or> (\<exists>k. rs_seqno g = isn + of_nat k \<and> k + m \<le> length S \<and> take m (rs_data g) = take m (drop k S))))"

text \<open>
  What happens to a connection: a segment arrives, in whatever order and however often; the
  application reads at most what \<open>precv\<close> shows it; the sending side changes other parts of the
  socket; or the application or a failure leads to a state that takes no more data.
\<close>

inductive rx_step :: "(ipv4_payload \<Rightarrow> bool) \<Rightarrow> u8 list \<times> tcp_socket \<times> netif \<Rightarrow> u8 list \<times> tcp_socket \<times> netif \<Rightarrow> bool"
  for P where
  segment: "P pl \<Longrightarrow> cMiMicIpTcpSocket_parseRx now s n pl = Some (ret, s', n1) \<Longrightarrow> rx_step P (out, s, n) (out, s', n')"
| read: "precv_poll s = Some (m, p) \<Longrightarrow> int (unat k) \<le> m \<Longrightarrow> pseek s n k = Some (s', n') \<Longrightarrow>
    rx_step P (out, s, n) (out @ take (unat k) p, s', n')"
| other: "rxbuf s' = rxbuf s \<Longrightarrow> rcv_nxt32 (conn s') = rcv_nxt32 (conn s) \<Longrightarrow>
    tcpstateflags s' = tcpstateflags s \<or> tcpstateflags s' \<notin> {UIP_SYN_RCVD, UIP_SYN_SENT, UIP_ESTABLISHED} \<Longrightarrow>
    rx_step P (out, s, n) (out, s', n')"

definition rx_inv :: "u32 \<Rightarrow> u8 list \<Rightarrow> u8 list \<Rightarrow> tcp_socket \<Rightarrow> bool" where
  "rx_inv isn S out s \<longleftrightarrow> fifo_inv (rxbuf s) \<and> tcpstateflags s \<noteq> UIP_SYN_SENT \<and>
     (\<exists>k\<le>length S. out @ cFifoBuffer_getPtr (rxbuf s) = take k S \<and>
        (tcpstateflags s \<in> {UIP_SYN_RCVD, UIP_ESTABLISHED} \<longrightarrow> rcv_nxt32 (conn s) = isn + of_nat k))"

lemma push_take:
  assumes "fifo_inv q" "cFifoBuffer_push q d n = Some q'" "cFifoBuffer_getSpace q \<ge> n"
  shows "fifo_inv q'" "cFifoBuffer_getPtr q' = cFifoBuffer_getPtr q @ take (unat n) d" "unat n \<le> length d"
proof -
  have l: "unat n \<le> length d" using assms(2) by (auto simp: cFifoBuffer_push_def accesses split: option.splits)
  then have m: "of_nat (length (take (unat n) d)) = n" by (simp add: min_absorb2)
  have "cFifoBuffer_push q d n = fifo_put q (take (unat n) d)"
    unfolding fifo_put_def m cFifoBuffer_push_def copy_at_def using l by simp
  moreover have "length (take (unat n) d) \<le> fifo_room q"
    using assms(3) l by (simp add: fifo_room_def word_le_nat_alt)
  ultimately show "fifo_inv q'" "cFifoBuffer_getPtr q' = cFifoBuffer_getPtr q @ take (unat n) d" "unat n \<le> length d"
    using fifo_put_ok [OF assms(1), of "take (unat n) d"] assms(2) l by auto
qed

lemma rx_inv_same: "same_rx s s' \<Longrightarrow> rx_inv isn S out s \<Longrightarrow> rx_inv isn S out s'"
  by (simp add: rx_inv_def same_rx_def)

text \<open>Leaving the two states that take data keeps the invariant.\<close>

lemma rx_inv_state:
  "rx_inv isn S out s \<Longrightarrow> rxbuf s' = rxbuf s \<Longrightarrow> tcpstateflags s' \<notin> {UIP_SYN_RCVD, UIP_SYN_SENT, UIP_ESTABLISHED} \<Longrightarrow>
    rx_inv isn S out s'"
  by (auto simp: rx_inv_def)

lemma of_nat_u32_inj: "m < 2 ^ 32 \<Longrightarrow> k < 2 ^ 32 \<Longrightarrow> (of_nat m :: u32) = of_nat k \<Longrightarrow> m = k"
  by (simp add: word_of_nat_eq_iff take_bit_nat_eq_self)

lemma rx_inv_data:
  assumes "rx_inv isn S out s" "tcpstateflags s = UIP_ESTABLISHED" "length S < 2 ^ 32"
    "rs_seqno g = isn + of_nat j" "j + unat (rs_size g) \<le> length S"
    "take (unat (rs_size g)) (rs_data g) = take (unat (rs_size g)) (drop j S)"
    "rs_seqno g = rcv_nxt32 (conn s)" "addRecvData s (rs_data g) (rs_size g) = Some (True, s')"
  shows "rx_inv isn S out (add_rcv_nxt (ucast (rs_size g)) s') \<and> tcpstateflags s' = UIP_ESTABLISHED"
proof -
  let ?m = "unat (rs_size g)"
  obtain k where k: "k \<le> length S" "out @ cFifoBuffer_getPtr (rxbuf s) = take k S" "rcv_nxt32 (conn s) = isn + of_nat k"
    using assms(1,2) by (auto simp: rx_inv_def)
  then have "(of_nat j :: u32) = of_nat k" using assms(4,7) by simp
  then have j: "j = k" using k(1) assms(3,5) by (intro of_nat_u32_inj) linarith+
  obtain q where q: "cFifoBuffer_push (rxbuf s) (rs_data g) (rs_size g) = Some q" "s' = s\<lparr>rxbuf := q\<rparr>"
    "cFifoBuffer_getSpace (rxbuf s) \<ge> rs_size g"
    using assms(8) by (auto simp: addRecvData_def split: if_splits option.splits)
  have f: "fifo_inv (rxbuf s)" using assms(1) by (simp add: rx_inv_def)
  note p = push_take [OF f q(1,3)]
  have "out @ cFifoBuffer_getPtr q = take k S @ take ?m (drop k S)" using k(2) p(2) assms(6) j by simp
  also have "\<dots> = take (k + ?m) S" by (simp only: take_add)
  finally have "out @ cFifoBuffer_getPtr q = take (k + ?m) S" .
  moreover have "rcv_nxt32 (conn s) + ucast (rs_size g) = isn + of_nat (k + ?m)"
    using k(3) by simp
  ultimately show ?thesis
    using p(1) q(2) assms(2,5) j by (auto simp: rx_inv_def add_rcv_nxt_def)
qed

lemma rx_inv_fin:
  "rx_inv isn S out s \<Longrightarrow> rx_inv isn S out (add_rcv_nxt 1 (set_state UIP_CLOSE_WAIT s))"
  by (auto simp: rx_inv_def add_rcv_nxt_def set_state_def)

lemma rx_inv_established:
  assumes "rx_inv isn S out s" "tcpstateflags s = UIP_ESTABLISHED" "length S < 2 ^ 32"
    "from_stream isn S pl" "tcp_header_at (pl_packet pl) (pl_rawbuf pl) = Some t"
    "rx_established (rx_segment_of pl t) (rs_seqno (rx_segment_of pl t) = rcv_nxt32 (conn s)) s = Some s'"
  shows "rx_inv isn S out s'"
proof -
  let ?g = "rx_segment_of pl t"
  let ?new = "rs_seqno ?g = rcv_nxt32 (conn s)"
  obtain u where u: "(if rs_size ?g > 0 \<and> ?new then do {
             (ok, s) \<leftarrow> addRecvData s (rs_data ?g) (rs_size ?g);
             Some (if ok then add_rcv_nxt (ucast (rs_size ?g)) s else s) }
           else Some s) = Some u"
    "s' = (if ?new \<and> rs_flags ?g AND TCP_FIN \<noteq> 0 then add_rcv_nxt 1 (set_state UIP_CLOSE_WAIT u) else u)"
    using assms(6) by (auto simp: rx_established_def split: Option.bind_splits)
  have "rx_inv isn S out u"
  proof (cases "rs_size ?g > 0 \<and> ?new")
    case True
    then obtain ok v where v: "addRecvData s (rs_data ?g) (rs_size ?g) = Some (ok, v)"
      "u = (if ok then add_rcv_nxt (ucast (rs_size ?g)) v else v)"
      using u(1) by (auto split: Option.bind_splits)
    show ?thesis
    proof (cases ok)
      case True
      have "unat (rs_size ?g) \<noteq> 0" using \<open>rs_size ?g > 0 \<and> ?new\<close> by (simp add: unat_eq_0 word_gt_0)
      then obtain k where "rs_seqno ?g = isn + of_nat k" "k + unat (rs_size ?g) \<le> length S"
        "take (unat (rs_size ?g)) (rs_data ?g) = take (unat (rs_size ?g)) (drop k S)"
        using assms(4,5) by (auto simp: from_stream_def Let_def)
      moreover have "addRecvData s (rs_data ?g) (rs_size ?g) = Some (True, v)" "?new" "u = add_rcv_nxt (ucast (rs_size ?g)) v"
        using v True \<open>rs_size ?g > 0 \<and> ?new\<close> by simp_all
      ultimately show ?thesis using rx_inv_data [OF assms(1-3)] by blast
    next
      case False
      then have "u = s" using v by (auto simp: addRecvData_def split: if_splits option.splits)
      then show ?thesis using assms(1) by simp
    qed
  next
    case False
    then have "u = s" using u(1) by auto
    then show ?thesis using assms(1) by simp
  qed
  then show ?thesis using u(2) rx_inv_fin by auto
qed

lemma rx_inv_switch:
  assumes "rx_inv isn S out s" "length S < 2 ^ 32" "from_stream isn S pl"
    "tcp_header_at (pl_packet pl) (pl_rawbuf pl) = Some t"
    "rx_switch (rx_segment_of pl t) (rs_seqno (rx_segment_of pl t) = rcv_nxt32 (conn s)) k s = Some (Some s')"
  shows "rx_inv isn S out s'"
proof -
  let ?g = "rx_segment_of pl t"
  have e: "rx_inv isn S out (set_state UIP_ESTABLISHED s)" if "tcpstateflags s = UIP_SYN_RCVD"
    using assms(1) that by (auto simp: rx_inv_def set_state_def)
  have est: "rx_inv isn S out u"
    if "rx_established ?g (rs_seqno ?g = rcv_nxt32 (conn s)) v = Some u" "v = s \<or> v = set_state UIP_ESTABLISHED s"
      "rx_inv isn S out v" "tcpstateflags v = UIP_ESTABLISHED" for u v
    using rx_inv_established [OF that(3,4) assms(2,3,4), of u] that(1,2) by (auto simp: set_state_def)
  have n: "tcpstateflags s \<noteq> UIP_SYN_SENT" using assms(1) by (simp add: rx_inv_def)
  consider "tcpstateflags s = UIP_SYN_RCVD" | "tcpstateflags s = UIP_ESTABLISHED"
    | "tcpstateflags s \<notin> {UIP_SYN_RCVD, UIP_SYN_SENT, UIP_ESTABLISHED}" using n by auto
  then show ?thesis
  proof cases
    case 1
    then show ?thesis using assms(1,5) e est [of "set_state UIP_ESTABLISHED s"]
      by (auto simp: rx_switch_def Let_def set_state_def split: if_splits)
  next
    case 2
    then show ?thesis using assms(1,5) est [of s] by (auto simp: rx_switch_def Let_def)
  next
    case 3
    then have "rxbuf s' = rxbuf s" "tcpstateflags s' \<notin> {UIP_SYN_RCVD, UIP_SYN_SENT, UIP_ESTABLISHED}"
      using assms(5) by (auto simp: rx_switch_def Let_def rx_fin_wait_1_def set_state_def add_rcv_nxt_def split: if_splits)
    then show ?thesis using rx_inv_state [OF assms(1)] by blast
  qed
qed

lemma rx_inv_segment:
  assumes "rx_inv isn S out s" "length S < 2 ^ 32" "from_stream isn S pl"
    "cMiMicIpTcpSocket_parseRx now s n pl = Some (ret, s', n')"
  shows "rx_inv isn S out s'"
proof -
  obtain t where t: "tcp_header_at (pl_packet pl) (pl_rawbuf pl) = Some t"
    using assms(4) by (auto simp: cMiMicIpTcpSocket_parseRx_def split: Option.bind_splits)
  show ?thesis
    using assms(4) t
  proof (cases rule: parseRx_cases)
    case rst
    then show ?thesis using rx_inv_state [OF assms(1)] by (simp add: set_state_def)
  next
    case (dropped s0 k)
    then show ?thesis using rx_inv_same assms(1) by blast
  next
    case (switched s0 k s1)
    have s0: "rx_inv isn S out s0" using rx_inv_same switched(2) assms(1) by blast
    have "rcv_nxt32 (conn s) = rcv_nxt32 (conn s0)" "ntohl (seqno32 t) = rs_seqno (rx_segment_of pl t)"
      using switched(2) by (simp_all add: same_rx_def rx_segment_of_def Let_def)
    then have "rx_inv isn S out s1" using rx_inv_switch [OF s0 assms(2,3) t, of k] switched(4) by simp
    then show ?thesis using rx_inv_same switched(5) by blast
  qed
qed

lemma pop_drop:
  assumes "fifo_inv q" "cFifoBuffer_pop q k = Some q'" "unat k \<le> unat (flen q)"
  shows "fifo_inv q'" "cFifoBuffer_getPtr q' = drop (unat k) (cFifoBuffer_getPtr q)"
proof -
  have "unat k \<le> length (cFifoBuffer_getPtr q)" using assms(1,3) fifo_inv_len [OF assms(1)] by (simp add: cFifoBuffer_getPtr_def)
  moreover have "cFifoBuffer_pop q k = fifo_discard q (unat k)" by (simp add: fifo_discard_def)
  ultimately show "fifo_inv q'" "cFifoBuffer_getPtr q' = drop (unat k) (cFifoBuffer_getPtr q)"
    using fifo_discard_ok [OF assms(1), of "unat k"] assms(2) by auto
qed

lemma rx_inv_read:
  assumes "rx_inv isn S out s" "precv_poll s = Some (m, p)" "int (unat k) \<le> m" "pseek s n k = Some (s', n')"
  shows "rx_inv isn S (out @ take (unat k) p) s'"
proof (cases "k = 0")
  case True
  then show ?thesis using assms(1,4) by (simp add: pseek_def)
next
  case False
  have f: "fifo_inv (rxbuf s)" using assms(1) by (simp add: rx_inv_def)
  have "0 < unat k" using False by (simp add: unat_gt_0)
  moreover have "m = int (unat (flen (rxbuf s))) \<or> m = - 1" and p: "p = cFifoBuffer_getPtr (rxbuf s)"
    using assms(2) by (auto simp: precv_poll_def Let_def cFifoBuffer_getLength_def split: if_splits)
  ultimately have m: "unat k \<le> unat (flen (rxbuf s))" using assms(3) by linarith
  obtain q where q: "cFifoBuffer_pop (rxbuf s) k = Some q" "s' = s\<lparr>rxbuf := q\<rparr>"
    using assms(4) False by (auto simp: pseek_def Let_def split: Option.bind_splits)
  note d = pop_drop [OF f q(1) m]
  have "out @ take (unat k) p @ drop (unat k) p = out @ p" by simp
  then show ?thesis using assms(1) d q(2) p by (auto simp: rx_inv_def)
qed

text \<open>
  C5: Whatever segments of the peer's stream arrive, in whatever order and however often, and
  whatever the application reads in between: what it has read, followed by what the buffer still
  holds, is a beginning of the stream, for streams of less than 4 GiB.
\<close>

theorem tcp_in_order:
  assumes "(rx_step P)\<^sup>*\<^sup>* ([], s, n) (out, s', n')" "\<forall>pl. P pl \<longrightarrow> from_stream isn S pl" "length S < 2 ^ 32"
    "fifo_inv (rxbuf s)" "cFifoBuffer_getPtr (rxbuf s) = []" "rcv_nxt32 (conn s) = isn"
    "tcpstateflags s \<in> {UIP_SYN_RCVD, UIP_ESTABLISHED}"
  shows "\<exists>k. out @ cFifoBuffer_getPtr (rxbuf s') = take k S"
proof -
  have i: "rx_inv isn S [] s" using assms(4-7) by (auto simp: rx_inv_def)
  have keep: "rx_inv isn S (fst y) (fst (snd y))" if "rx_step P x y" "rx_inv isn S (fst x) (fst (snd x))" for x y
    using that(1)
  proof (cases rule: rx_step.cases)
    case (segment pl now s n ret s' n1 out n')
    then show ?thesis using rx_inv_segment that(2) assms(2,3) by auto
  next
    case (read s m p k n s' n' out)
    then show ?thesis using rx_inv_read that(2) by auto
  next
    case (other s' s out n n')
    then show ?thesis using rx_inv_state that(2) by (auto simp: rx_inv_def)
  qed
  have "rx_inv isn S (fst y) (fst (snd y))" if "(rx_step P)\<^sup>*\<^sup>* ([], s, n) y" for y
    using that
  proof (induction rule: rtranclp_induct)
    case base
    then show ?case using i by simp
  next
    case (step y z)
    then show ?case using keep by blast
  qed
  from this [OF assms(1)] show ?thesis by (auto simp: rx_inv_def)
qed

text \<open>A connection and a segment with the first three bytes of a stream, for the witnesses.\<close>

definition demo_conn :: uip_conn where
  "demo_conn = \<lparr>ripaddr = 0x0200a8c0, lipaddr = 0x0100a8c0, lport = 0x5000, rport = 0x0104, rcv_nxt32 = 5, snd_nxt32 = 3940,
     peer_mss = 1460, own_mss = 1460, peer_win = 1000, current_rto32 = 3000\<rparr>"

definition demo_socket :: tcp_socket where
  "demo_socket = \<lparr>conn = demo_conn, rxbuf = cFifoBuffer_initialize (replicate 8 0) 8, q_rp = 0, q_wp = 0,
     txq = replicate 4 \<lparr>tick_of_sent = 0, rto32 = 0, packet = None, txq_ackno = 0\<rparr>, tcpstateflags = UIP_ESTABLISHED\<rparr>"

definition demo_tcp :: "u8 \<Rightarrow> u32 \<Rightarrow> tcp_header" where
  "demo_tcp f q = \<lparr>srcport = 0x0104, destport = 0x5000, seqno32 = htonl q, ackno32 = htonl 3940, tcpoffset = 0x50, tcp_flags = f,
     wnd16 = htons 1000, tcpchksum = 0, urgp = [0, 0]\<rparr>"

definition demo_segment :: "u8 \<Rightarrow> u32 \<Rightarrow> u8 list \<Rightarrow> ipv4_payload" where
  "demo_segment f q d = (let h = demo_header\<lparr>len16 := htons (40 + of_nat (length d))\<rparr> in
     \<lparr>pl_packet = ipv4_header_bytes h @ tcp_header_bytes (demo_tcp f q) @ d, pl_header = h, pl_rawbuf = 20\<rparr>)"

lemma demo_segment_tcp [simp]:
  "tcp_header_at (pl_packet (demo_segment f q d)) (pl_rawbuf (demo_segment f q d)) = Some (demo_tcp f q)"
  unfolding demo_segment_def Let_def ipv4_payload.simps
  by (rule tcp_header_at_bytes) (simp_all add: demo_tcp_def)

lemma demo_segment_rx: "rx_segment_of (demo_segment f q d) (demo_tcp f q) =
    \<lparr>rs_flags = f, rs_seqno = q, rs_ackno = htonl 3940, rs_wnd = 1000, rs_size = of_nat (length d), rs_data = d\<rparr>"
  by (simp add: rx_segment_of_def demo_segment_def demo_tcp_def demo_header_def Let_def TTcpHeader_getHeaderLength_def
      TIPv4Header_getHeaderLength_def)

lemma demo_options: "rx_options pl (demo_tcp f q) s = Some s"
  by (simp add: rx_options_def TTcpHeader_getTcpMmsOpt_def TTcpHeader_getTcpOptFragmentPtr_def demo_tcp_def)

lemma demo_parseRx:
  "map_option (\<lambda>(r, s', n'). (r, cFifoBuffer_getPtr (rxbuf s')))
     (cMiMicIpTcpSocket_parseRx 0 demo_socket demo_net (demo_segment TCP_ACK 5 [97, 98, 99])) = Some (None, [97, 98, 99])"
  by code_simp

theorem tcp_in_order_witness:
  "\<exists>s' n' k. cMiMicIpTcpSocket_parseRx 0 demo_socket demo_net (demo_segment TCP_ACK 5 [97, 98, 99]) = Some (None, s', n') \<and>
     [] @ cFifoBuffer_getPtr (rxbuf s') = take k [97, 98, 99, 100] \<and> cFifoBuffer_getPtr (rxbuf s') = [97, 98, 99]"
proof -
  let ?pl = "demo_segment TCP_ACK 5 [97, 98, 99]"
  have "from_stream 5 [97, 98, 99, 100] ?pl"
    unfolding from_stream_def demo_segment_tcp by (simp add: demo_segment_rx Let_def) (rule exI [of _ 0], simp)
  moreover obtain s' n' where s': "cMiMicIpTcpSocket_parseRx 0 demo_socket demo_net ?pl = Some (None, s', n')"
    "cFifoBuffer_getPtr (rxbuf s') = [97, 98, 99]"
    using demo_parseRx by auto
  moreover have "rx_step ((=) ?pl) ([], demo_socket, demo_net) ([], s', n')"
    by (rule rx_step.segment [OF refl s'(1)])
  moreover have "fifo_inv (rxbuf demo_socket) \<and> cFifoBuffer_getPtr (rxbuf demo_socket) = []"
    by (simp add: demo_socket_def fifo_initialize_inv)
  ultimately have "\<exists>k. [] @ cFifoBuffer_getPtr (rxbuf s') = take k [97, 98, 99, 100]"
    by (intro tcp_in_order [of "(=) ?pl" demo_socket demo_net "[]" s' n' 5]) (auto simp: demo_socket_def demo_conn_def)
  with s' show ?thesis by blast
qed


section \<open>What the transmit queue does with an acknowledgement\<close>

lemma txq_range_split:
  "txq_range rp wp = Some (pre @ i # post) \<Longrightarrow> i < NUMBER_OF_TXQ \<and> txq_range (next_idx i) wp = Some post"
proof (induction pre arbitrary: rp)
  case Nil
  then show ?case by (subst (asm) txq_range.simps) (auto split: if_splits)
next
  case (Cons a pre)
  then show ?case by (subst (asm) txq_range.simps) (auto split: if_splits)
qed

lemma update_txq_prefix:
  "txq_ackno (txq s ! i) = k \<Longrightarrow> list_all (\<lambda>j. txq_ackno (txq s ! j) \<noteq> k) pre \<Longrightarrow>
   update_txq now s k (pre @ i # post) d =
     (d @ map (\<lambda>j. packet (txq s ! j)) (pre @ [i]),
      (estimateRTO now s (q_rp s) (length d + length pre + 1))\<lparr>q_rp := next_idx i\<rparr>)"
  by (induction pre arbitrary: d) (simp_all add: Let_def)

lemma update_txq_none:
  "list_all (\<lambda>j. txq_ackno (txq s ! j) \<noteq> k) is \<Longrightarrow> update_txq now s k is d = ([], s)"
  by (induction "is" arbitrary: d) (simp_all add: Let_def)

lemma num_of_sending_index:
  "txq_ackno (q ! i) = k \<Longrightarrow> list_all (\<lambda>j. txq_ackno (q ! j) \<noteq> k) pre \<Longrightarrow>
   num_of_sending q k (pre @ i # post) n = n + length pre"
  by (induction pre arbitrary: n) simp_all

lemma num_of_sending_none:
  "list_all (\<lambda>j. txq_ackno (q ! j) \<noteq> k) is \<Longrightarrow> num_of_sending q k is n = n + length is"
  by (induction "is" arbitrary: n) simp_all

lemma estimateRTO_queue [simp]:
  "txq (estimateRTO now s i n) = txq s" "q_rp (estimateRTO now s i n) = q_rp s" "q_wp (estimateRTO now s i n) = q_wp s"
  "rxbuf (estimateRTO now s i n) = rxbuf s" "tcpstateflags (estimateRTO now s i n) = tcpstateflags s"
  by (simp_all add: estimateRTO_def Let_def)

lemma ack_removes_prefix:
  assumes "pending s = Some (pre @ i # post)" "txq_ackno (txq s ! i) = k"
    "list_all (\<lambda>j. txq_ackno (txq s ! j) \<noteq> k) pre"
  shows "\<exists>s'. updateTxQByIndex now s k = Some (map (\<lambda>j. packet (txq s ! j)) (pre @ [i]), s') \<and>
    pending s' = Some post \<and> txq s' = txq s \<and> tcpstateflags s' = tcpstateflags s"
  using assms txq_range_split [of "q_rp s" "q_wp s" pre i post]
  by (simp add: updateTxQByIndex_def update_txq_prefix pending_def)

text \<open>
  C22: An acknowledgement takes the segments up to the acknowledged one off the queue, in order,
  and leaves the later ones and their contents; the packets taken off are the ones given back.
  An acknowledgement that names no segment of the queue changes nothing.
\<close>

theorem txq_acknowledge:
  assumes "pending s = Some is"
  shows "list_all (\<lambda>j. txq_ackno (txq s ! j) \<noteq> k) is \<and> updateTxQByIndex now s k = Some ([], s) \<and> isPacketAcked s k = Some True \<or>
    (\<exists>pre i post s'. is = pre @ i # post \<and> txq_ackno (txq s ! i) = k \<and> list_all (\<lambda>j. txq_ackno (txq s ! j) \<noteq> k) pre \<and>
      updateTxQByIndex now s k = Some (map (\<lambda>j. packet (txq s ! j)) (pre @ [i]), s') \<and>
      pending s' = Some post \<and> txq s' = txq s)"
proof (cases "list_all (\<lambda>j. txq_ackno (txq s ! j) \<noteq> k) is")
  case True
  then show ?thesis using assms by (simp add: updateTxQByIndex_def update_txq_none isPacketAcked_def)
next
  case False
  then have "\<exists>j\<in>set is. txq_ackno (txq s ! j) = k" by (simp add: list_all_iff)
  then obtain pre i post where d: "is = pre @ i # post" "txq_ackno (txq s ! i) = k" "\<forall>j\<in>set pre. txq_ackno (txq s ! j) \<noteq> k"
    by (rule split_list_first_propE) blast
  then have l: "list_all (\<lambda>j. txq_ackno (txq s ! j) \<noteq> k) pre" by (simp add: list_all_iff)
  from ack_removes_prefix [OF _ d(2) l, of post now] assms d(1) d(2) l show ?thesis by blast
qed

definition two_sent :: tcp_socket where
  "two_sent = demo_socket\<lparr>txq := [\<lparr>tick_of_sent = 10, rto32 = 3000, packet = Some (Buf64, 0), txq_ackno = 100\<rparr>,
      \<lparr>tick_of_sent = 20, rto32 = 3000, packet = Some (Buf64, 1), txq_ackno = 101\<rparr>,
      \<lparr>tick_of_sent = 0, rto32 = 0, packet = None, txq_ackno = 0\<rparr>, \<lparr>tick_of_sent = 0, rto32 = 0, packet = None, txq_ackno = 0\<rparr>],
    q_rp := 0, q_wp := 2, tcpstateflags := UIP_LAST_ACK\<rparr>"

lemma two_sent_pending: "pending two_sent = Some [0, 1]"
  by code_simp

theorem txq_acknowledge_witness:
  "\<exists>pre i post s'. [0, 1] = pre @ i # post \<and> txq_ackno (txq two_sent ! i) = 100 \<and>
     updateTxQByIndex 50 two_sent 100 = Some (map (\<lambda>j. packet (txq two_sent ! j)) (pre @ [i]), s') \<and> pending s' = Some post"
proof -
  have "\<not> list_all (\<lambda>j. txq_ackno (txq two_sent ! j) \<noteq> 100) [0, 1]" by code_simp
  then show ?thesis using txq_acknowledge [OF two_sent_pending, of 100 50] by blast
qed

section \<open>The state diagram, and two places where it goes wrong\<close>



text \<open>
  A segment with data and FIN whose data do not fit into the receive buffer: the FIN is
  taken, the data are dropped, and as the next sequence number expected is one behind the first
  byte of the data, the peer's retransmission is not new either: the data are lost, and the
  application is told the end of the stream.
\<close>

theorem fin_loses_data:
  assumes "cMiMicIpTcpSocket_parseRx now s n pl = Some (ret, s', n')"
    "tcp_header_at (pl_packet pl) (pl_rawbuf pl) = Some t" "tcpstateflags s = UIP_ESTABLISHED"
    "tcp_flags t AND TCP_FIN \<noteq> 0" "tcp_flags t AND TCP_RST = 0" "ntohl (seqno32 t) = rcv_nxt32 (conn s)"
    "cFifoBuffer_getSpace (rxbuf s) < rs_size (rx_segment_of pl t)"
  shows "tcpstateflags s' = UIP_CLOSE_WAIT \<and> rxbuf s' = rxbuf s \<and> rcv_nxt32 (conn s') = rcv_nxt32 (conn s) + 1"
proof -
  let ?g = "rx_segment_of pl t"
  have f: "rs_flags ?g = tcp_flags t" by (simp add: rx_segment_of_def Let_def)
  have sw: "rx_switch ?g True k s0 = Some (Some (add_rcv_nxt 1 (set_state UIP_CLOSE_WAIT s0)))" if "same_rx s s0" for s0 k
    using that assms(3,4,7) f by (auto simp: rx_switch_def rx_established_def addRecvData_def same_rx_def Let_def)
  show ?thesis
    using assms(1,2)
  proof (cases rule: parseRx_cases)
    case rst
    then show ?thesis using assms(5) by simp
  next
    case (dropped s0 k)
    then show ?thesis using sw [of s0 k] assms(6) by simp
  next
    case (switched s0 k s1)
    then have "s1 = add_rcv_nxt 1 (set_state UIP_CLOSE_WAIT s0)" using sw [of s0 k] assms(6) by simp
    then show ?thesis using switched(2,5) by (simp add: same_rx_def add_rcv_nxt_def set_state_def)
  qed
qed

theorem fin_loses_data_witness:
  "\<exists>s' n'. cMiMicIpTcpSocket_parseRx 0 demo_socket demo_net (demo_segment (TCP_FIN OR TCP_ACK) 5 (replicate 9 7)) = Some (Some (Buf64, 0), s', n') \<and>
     tcpstateflags s' = UIP_CLOSE_WAIT \<and> rxbuf s' = rxbuf demo_socket \<and> rcv_nxt32 (conn s') = 6"
proof -
  let ?pl = "demo_segment (TCP_FIN OR TCP_ACK) 5 (replicate 9 7)"
  have "map_option (\<lambda>(r, s', n'). r) (cMiMicIpTcpSocket_parseRx 0 demo_socket demo_net ?pl) = Some (Some (Buf64, 0))" by code_simp
  then obtain s' n' where s': "cMiMicIpTcpSocket_parseRx 0 demo_socket demo_net ?pl = Some (Some (Buf64, 0), s', n')" by auto
  have "tcpstateflags s' = UIP_CLOSE_WAIT \<and> rxbuf s' = rxbuf demo_socket \<and> rcv_nxt32 (conn s') = rcv_nxt32 (conn demo_socket) + 1"
  proof (rule fin_loses_data [OF s'(1) demo_segment_tcp])
    show "cFifoBuffer_getSpace (rxbuf demo_socket) < rs_size (rx_segment_of ?pl (demo_tcp (TCP_FIN OR TCP_ACK) 5))"
      unfolding demo_segment_rx by code_simp
  qed code_simp+
  then show ?thesis using s' by (auto simp: demo_socket_def demo_conn_def)
qed

text \<open>
  \<open>getNumOfSending\<close> returns the position of the acknowledged segment, not the number of
  segments that stay unacknowledged. So a socket in LAST_ACK whose FIN is behind other segments in
  the queue does not close when the peer acknowledges the FIN: the queue empties, the state stays.
\<close>

theorem last_ack_stays:
  assumes "cMiMicIpTcpSocket_parseRx now s n pl = Some (ret, s', n')"
    "tcp_header_at (pl_packet pl) (pl_rawbuf pl) = Some t" "tcpstateflags s = UIP_LAST_ACK"
    "tcp_flags t AND TCP_RST = 0" "pending s = Some (is @ [i])" "is \<noteq> []" "txq_ackno (txq s ! i) = ackno32 t"
    "list_all (\<lambda>j. txq_ackno (txq s ! j) \<noteq> ackno32 t) is"
  shows "tcpstateflags s' = UIP_LAST_ACK"
proof -
  let ?g = "rx_segment_of pl t"
  have k: "getNumOfSending s (ackno32 t) = Some (length is)"
    using assms(5,7,8) num_of_sending_index [of "txq s" i "ackno32 t" "is" "[]" 0] by (simp add: getNumOfSending_def)
  show ?thesis
    using assms(1,2)
  proof (cases rule: parseRx_cases)
    case rst
    then show ?thesis using assms(4) by simp
  next
    case (dropped s0 k)
    then show ?thesis using assms(3) by (simp add: same_rx_def)
  next
    case (switched s0 m s1)
    then have "m = length is" using k by simp
    then have "s1 = s0" using switched(2,4) assms(3,6) by (auto simp: rx_switch_def Let_def same_rx_def)
    then show ?thesis using switched(2,5) assms(3) by (simp add: same_rx_def)
  qed
qed

theorem last_ack_stays_witness:
  "\<exists>s' n'. cMiMicIpTcpSocket_parseRx 50 (two_sent\<lparr>txq := (txq two_sent)[1 := \<lparr>tick_of_sent = 20, rto32 = 3000, packet = Some (Buf64, 1), txq_ackno = htonl 3940\<rparr>]\<rparr>)
       demo_net (demo_segment TCP_ACK 5 []) = Some (None, s', n') \<and>
     tcpstateflags s' = UIP_LAST_ACK \<and> pending s' = Some []"
proof -
  let ?s = "two_sent\<lparr>txq := (txq two_sent)[1 := \<lparr>tick_of_sent = 20, rto32 = 3000, packet = Some (Buf64, 1), txq_ackno = htonl 3940\<rparr>]\<rparr>"
  let ?pl = "demo_segment TCP_ACK 5 []"
  have "map_option (\<lambda>(r, s', n'). (r, pending s')) (cMiMicIpTcpSocket_parseRx 50 ?s demo_net ?pl) = Some (None, Some [])" by code_simp
  then obtain s' n' where s': "cMiMicIpTcpSocket_parseRx 50 ?s demo_net ?pl = Some (None, s', n')" "pending s' = Some []" by auto
  have "tcpstateflags s' = UIP_LAST_ACK"
    by (rule last_ack_stays [OF s'(1) demo_segment_tcp, of "[0]" 1]) code_simp+
  with s' show ?thesis by blast
qed

end
