(* ===== verification/Stopwatch.thy ===== *)
theory Stopwatch
  imports Prelude
begin

text \<open>
  \<open>NyLPC_cStopwatch\<close> (the version for the mbed RTOS): elapsed times as differences of the 32-bit
  millisecond counter, whose value is the argument \<open>now\<close>.

  The functions that wait call it in loops and release the locks they hold while they wait. What
  the other threads do then, and when the thread runs again, is a list (\<open>'w script\<close>): one entry
  for each time the thread waits, with the time at which it resumes and the change the others made
  to the world in between. Such a function is \<open>None\<close> when the list ends while it still waits, or
  when it leaves an object; it returns the rest of the list.
\<close>

record stopwatch =
  sw_tick :: u32
  ex_timeout :: u32

definition cStopwatch_set :: "stopwatch \<Rightarrow> u32 \<Rightarrow> stopwatch" where
  "cStopwatch_set w i_initial = w\<lparr>sw_tick := i_initial\<rparr>"

definition cStopwatch_setNow :: "u32 \<Rightarrow> stopwatch \<Rightarrow> stopwatch" where
  "cStopwatch_setNow now w = w\<lparr>sw_tick := now\<rparr>"

definition cStopwatch_startExpire :: "u32 \<Rightarrow> stopwatch \<Rightarrow> u32 \<Rightarrow> stopwatch" where
  "cStopwatch_startExpire now w i_timeout = (cStopwatch_setNow now w)\<lparr>ex_timeout := i_timeout\<rparr>"

definition cStopwatch_elapseInMsec :: "u32 \<Rightarrow> stopwatch \<Rightarrow> u32" where
  "cStopwatch_elapseInMsec now w = now - sw_tick w"

text \<open>The answer is kept: once expired, the watch stays expired.\<close>

definition cStopwatch_isExpired :: "u32 \<Rightarrow> stopwatch \<Rightarrow> bool \<times> stopwatch" where
  "cStopwatch_isExpired now w =
     (let w = (if cStopwatch_elapseInMsec now w > ex_timeout w then w\<lparr>ex_timeout := 0\<rparr> else w) in
      (ex_timeout w = 0, w))"

type_synonym 'w script = "(u32 \<times> ('w \<Rightarrow> 'w)) list"

lemma expired_stays: "cStopwatch_isExpired t w = (True, w') \<Longrightarrow> fst (cStopwatch_isExpired t' w')"
  by (auto simp: cStopwatch_isExpired_def Let_def split: if_splits)

lemma expired_after:
  "0 < d \<Longrightarrow> fst (cStopwatch_isExpired t (cStopwatch_startExpire t0 w d)) \<longleftrightarrow> d < t - t0"
  by (auto simp: cStopwatch_isExpired_def cStopwatch_startExpire_def cStopwatch_setNow_def cStopwatch_elapseInMsec_def
      Let_def)

end
