(* ===== verification/TcpListener.thy ===== *)
theory TcpListener
  imports TcpReceive Stopwatch
begin

text \<open>
  \<open>NyLPC_cMiMicIpTcpListener.c\<close>: the queue of SYN packets of a listener (ten slots; a remote port
  of 0 marks an empty slot), the receive side that fills it, and \<open>listen\<close>, which waits for an
  entry and hands it to a closed socket.
\<close>

unbundle bit_operations_syntax

abbreviation (input) "NUMBER_OF_Q \<equiv> (10 :: nat)"

record listen_q =
  lq_item :: "syn_param list"
  lq_wp :: nat

record tcp_listener =
  l_port :: u16
  l_queue :: listen_q

section \<open>The queue\<close>

definition TTcpListenerListenQ_init :: "listen_q \<Rightarrow> listen_q" where
  "TTcpListenerListenQ_init q = q\<lparr>lq_wp := 0, lq_item := map (\<lambda>i. i\<lparr>sp_rport := 0\<rparr>) (lq_item q)\<rparr>"

text \<open>As in \<open>parseRx\<close>, 41 turns are enough for the walk over the options.\<close>

definition syn_mss :: "ipv4_payload \<Rightarrow> tcp_header \<Rightarrow> u16 option option" where
  "syn_mss pl t = Option.bind (TTcpHeader_getTcpMmsOpt 41 t (drop (pl_rawbuf pl + 20) (pl_packet pl))) id"

definition syn_entry :: "ipv4_payload \<Rightarrow> tcp_header \<Rightarrow> u16 option \<Rightarrow> syn_param" where
  "syn_entry pl t mss = \<lparr>sp_srcaddr = srcipaddr (pl_header pl), sp_rport = srcport t,
     sp_mss = (case mss of None \<Rightarrow> 0 | Some v \<Rightarrow> v), sp_rcv_nxt32 = ntohl (seqno32 t) + 1\<rparr>"

definition TTcpListenerListenQ_add :: "listen_q \<Rightarrow> ipv4_payload \<Rightarrow> listen_q option" where
  "TTcpListenerListenQ_add q i_payload = do {
     t \<leftarrow> tcp_header_at (pl_packet i_payload) (pl_rawbuf i_payload);
     if length (lq_item q) \<le> lq_wp q then None
     else if sp_rport (lq_item q ! lq_wp q) \<noteq> 0 then Some q
     else do {
       mss \<leftarrow> syn_mss i_payload t;
       Some (q\<lparr>lq_item := (lq_item q)[lq_wp q := syn_entry i_payload t mss],
         lq_wp := (lq_wp q + 1) mod NUMBER_OF_Q\<rparr>) } }"

text \<open>\<open>None\<close> is the result -1.\<close>

definition TTcpListenerListenQ_getLastIndex :: "listen_q \<Rightarrow> nat option" where
  "TTcpListenerListenQ_getLastIndex q =
     find (\<lambda>t. sp_rport (lq_item q ! t) \<noteq> 0) (map (\<lambda>i. (lq_wp q + i) mod NUMBER_OF_Q) [1..<Suc NUMBER_OF_Q])"

definition TTcpListenerListenQ_remove :: "listen_q \<Rightarrow> nat \<Rightarrow> listen_q" where
  "TTcpListenerListenQ_remove q i_idx = q\<lparr>lq_item := (lq_item q)[i_idx := (lq_item q ! i_idx)\<lparr>sp_rport := 0\<rparr>]\<rparr>"

section \<open>The listener\<close>

definition cMiMicIpTcpListener_initialize :: "tcp_listener \<Rightarrow> u16 \<Rightarrow> tcp_listener" where
  "cMiMicIpTcpListener_initialize l i_port = l\<lparr>l_queue := TTcpListenerListenQ_init (l_queue l), l_port := htons i_port\<rparr>"

definition cMiMicIpTcpListener_synPacket :: "tcp_listener \<Rightarrow> ipv4_payload \<Rightarrow> (bool \<times> tcp_listener) option" where
  "cMiMicIpTcpListener_synPacket l i_payload = do {
     t \<leftarrow> tcp_header_at (pl_packet i_payload) (pl_rawbuf i_payload);
     if tcp_flags t AND TCP_SYN = 0 then Some (False, l)
     else if srcport t = 0 then Some (False, l)
     else do {
       q \<leftarrow> TTcpListenerListenQ_add (l_queue l) i_payload;
       Some (True, l\<lparr>l_queue := q\<rparr>) } }"

type_synonym listen_world = "tcp_listener \<times> tcp_socket \<times> netif"

text \<open>The loop of \<open>listen\<close>; one turn is one atomic step.\<close>

fun listen_loop :: "stopwatch \<Rightarrow> u32 \<Rightarrow> u32 \<Rightarrow> listen_world \<Rightarrow> listen_world script \<Rightarrow>
    (bool \<times> listen_world \<times> listen_world script) option" where
  "listen_loop sw i_wait_msec now (l, s, n) env =
     (if cStopwatch_elapseInMsec now sw < i_wait_msec then
        (case TTcpListenerListenQ_getLastIndex (l_queue l) of
           Some qi \<Rightarrow> do {
             (ret, s, n) \<leftarrow> cMiMicIpTcpSocket_listenSyn s n (lq_item (l_queue l) ! qi) (l_port l);
             Some (ret, (l\<lparr>l_queue := TTcpListenerListenQ_remove (l_queue l) qi\<rparr>, s, n), env) }
         | None \<Rightarrow>
             (case env of
                [] \<Rightarrow> None
              | (now', f) # env' \<Rightarrow> listen_loop sw i_wait_msec now' (f (l, s, n)) env'))
      else Some (False, (l, s, n), env))"

definition listen :: "u32 \<Rightarrow> listen_world \<Rightarrow> u32 \<Rightarrow> listen_world script \<Rightarrow>
    (bool \<times> listen_world \<times> listen_world script) option" where
  "listen now w i_wait_msec env =
     (if tcpstateflags (fst (snd w)) \<noteq> UIP_CLOSED then Some (False, w, env)
      else listen_loop (cStopwatch_setNow now \<lparr>sw_tick = 0, ex_timeout = 0\<rparr>) i_wait_msec now w env)"

section \<open>The queue is a FIFO of nine entries\<close>

text \<open>
  Seen from the write position, the ring is a list of empty slots followed by the entries, the
  oldest first. The write position itself is empty as long as there are at most nine entries.
\<close>

definition lq_inv :: "listen_q \<Rightarrow> syn_param list \<Rightarrow> bool" where
  "lq_inv q xs \<longleftrightarrow> length (lq_item q) = NUMBER_OF_Q \<and> lq_wp q < NUMBER_OF_Q \<and> (\<forall>x\<in>set xs. sp_rport x \<noteq> 0) \<and>
     (\<exists>es. es \<noteq> [] \<and> rotate (lq_wp q) (lq_item q) = es @ xs \<and> (\<forall>e\<in>set es. sp_rport e = 0))"

lemma mod_add_inj:
  assumes "(n + i) mod m = (n + j) mod m" "i < m" "j < m"
  shows "i = (j :: nat)"
proof -
  have *: "a = b" if "(n + a) mod m = (n + b) mod m" "a < m" "b \<le> a" for a b
  proof -
    have "m dvd (n + a) - (n + b)" using that by (subst mod_eq_dvd_iff_nat [symmetric]) simp_all
    then have "m dvd a - b" by simp
    moreover have "a - b < m" using that(2) by linarith
    ultimately have "a - b = 0" using nat_dvd_not_less by blast
    then show ?thesis using that(3) by simp
  qed
  show ?thesis using assms * [of i j] * [of j i] by (cases "j \<le> i") simp_all
qed

lemma rotate_update:
  "i < length xs \<Longrightarrow> rotate n (xs[(n + i) mod length xs := v]) = (rotate n xs)[i := v]"
proof (rule nth_equalityI)
  fix j
  assume "i < length xs" "j < length (rotate n (xs[(n + i) mod length xs := v]))"
  then have j: "i < length xs" "j < length xs" by simp_all
  have "(n + i) mod length xs < length xs" using j(1) by (intro mod_less_divisor) linarith
  then show "rotate n (xs[(n + i) mod length xs := v]) ! j = (rotate n xs)[i := v] ! j"
    using j mod_add_inj [of n i "length xs" j] by (auto simp: nth_rotate nth_list_update add.commute)
qed simp

lemma rotate_nth: "i < length xs \<Longrightarrow> rotate n xs ! i = xs ! ((n + i) mod length xs)"
  by (simp add: nth_rotate add.commute)

lemma lq_init: "length (lq_item q) = NUMBER_OF_Q \<Longrightarrow> lq_inv (TTcpListenerListenQ_init q) []"
  by (auto simp: lq_inv_def TTcpListenerListenQ_init_def)

text \<open>Adding an entry.\<close>

lemma lq_add:
  assumes "lq_inv q xs" "length xs < 9" "tcp_header_at (pl_packet pl) (pl_rawbuf pl) = Some t"
    "srcport t \<noteq> 0" "syn_mss pl t = Some mss"
  shows "\<exists>q'. TTcpListenerListenQ_add q pl = Some q' \<and> lq_inv q' (xs @ [syn_entry pl t mss])"
proof -
  let ?x = "syn_entry pl t mss"
  obtain es where es: "length (lq_item q) = 10" "lq_wp q < 10" "\<forall>x\<in>set xs. sp_rport x \<noteq> 0" "es \<noteq> []"
    "rotate (lq_wp q) (lq_item q) = es @ xs" "\<forall>e\<in>set es. sp_rport e = 0"
    using assms(1) by (auto simp: lq_inv_def)
  have l: "length es + length xs = 10" using es(1,5) by (metis length_append length_rotate)
  then obtain e es' where e: "es = e # es'" "es' \<noteq> []" using assms(2) by (cases es; cases "tl es") auto
  have "lq_item q ! lq_wp q = e" using rotate_nth [of 0 "lq_item q" "lq_wp q"] es e by simp
  then have "sp_rport (lq_item q ! lq_wp q) = 0" using es(6) e by simp
  then have add: "TTcpListenerListenQ_add q pl =
      Some (q\<lparr>lq_item := (lq_item q)[lq_wp q := ?x], lq_wp := (lq_wp q + 1) mod 10\<rparr>)"
    using assms(3,5) es(1,2) by (simp add: TTcpListenerListenQ_add_def)
  have "rotate (lq_wp q) ((lq_item q)[lq_wp q := ?x]) = ?x # es' @ xs"
    using rotate_update [of 0 "lq_item q" "lq_wp q" ?x] es(1,2,5) e by simp
  then have "rotate (Suc (lq_wp q)) ((lq_item q)[lq_wp q := ?x]) = es' @ xs @ [?x]" by simp
  then have "rotate ((lq_wp q + 1) mod 10) ((lq_item q)[lq_wp q := ?x]) = es' @ (xs @ [?x])"
    using es(1) by (metis Suc_eq_plus1 length_list_update rotate_conv_mod append_assoc)
  moreover have "sp_rport ?x \<noteq> 0" using assms(4) by (simp add: syn_entry_def)
  ultimately show ?thesis using add es(1,3,6) e by (auto simp: lq_inv_def)
qed

lemma find_first: "find P (xs @ y # ys) = Some y" if "\<forall>x\<in>set xs. \<not> P x" "P y"
  using that by (induction xs) auto

text \<open>Taking the oldest entry.\<close>

lemma lq_last:
  assumes "lq_inv q xs"
  shows "case xs of [] \<Rightarrow> TTcpListenerListenQ_getLastIndex q = None
    | x # xs' \<Rightarrow> \<exists>i. TTcpListenerListenQ_getLastIndex q = Some i \<and> lq_item q ! i = x \<and>
        lq_inv (TTcpListenerListenQ_remove q i) xs'"
proof -
  obtain es where es: "length (lq_item q) = 10" "lq_wp q < 10" "\<forall>x\<in>set xs. sp_rport x \<noteq> 0" "es \<noteq> []"
    "rotate (lq_wp q) (lq_item q) = es @ xs" "\<forall>e\<in>set es. sp_rport e = 0"
    using assms by (auto simp: lq_inv_def)
  have l: "length es + length xs = 10" using es(1,5) by (metis length_append length_rotate)
  have at: "lq_item q ! ((lq_wp q + i) mod 10) = (es @ xs) ! i" if "i < 10" for i
    using rotate_nth [of i "lq_item q" "lq_wp q"] es(1,5) that by simp
  have free: "sp_rport (lq_item q ! ((lq_wp q + i) mod 10)) = 0" if "i < length es" for i
    using at [of i] that l es(6) by (simp add: nth_append)
  have free10: "sp_rport (lq_item q ! ((lq_wp q + 10) mod 10)) = 0" using free [of 0] es(4) by simp
  show ?thesis
  proof (cases xs)
    case Nil
    then have "sp_rport (lq_item q ! ((lq_wp q + i) mod 10)) = 0" if "i \<le> 10" for i
      using free [of i] free10 that l by (cases "i = 10") auto
    then show ?thesis using Nil by (auto simp: TTcpListenerListenQ_getLastIndex_def find_None_iff)
  next
    case (Cons x xs')
    let ?k = "length es"
    let ?i = "(lq_wp q + ?k) mod 10"
    have k: "1 \<le> ?k" "?k < 10" using es(4) l Cons by (auto simp: Suc_le_eq)
    have x: "lq_item q ! ?i = x" using at [of ?k] k Cons by (simp add: nth_append)
    have up: "[1..<Suc 10] = [1..<?k] @ ?k # [Suc ?k..<Suc 10]"
      using k upt_add_eq_append [of 1 ?k "11 - ?k"] upt_conv_Cons [of ?k 11] by simp
    have "TTcpListenerListenQ_getLastIndex q = Some ?i"
      unfolding TTcpListenerListenQ_getLastIndex_def up list.map map_append
      using free x es(3) Cons by (intro find_first) auto
    moreover have "rotate (lq_wp q) (lq_item (TTcpListenerListenQ_remove q ?i)) = (es @ [x\<lparr>sp_rport := 0\<rparr>]) @ xs'"
      using rotate_update [of ?k "lq_item q" "lq_wp q" "x\<lparr>sp_rport := 0\<rparr>"] es(1,5) k x Cons
      by (simp add: TTcpListenerListenQ_remove_def)
    then have "lq_inv (TTcpListenerListenQ_remove q ?i) xs'"
      unfolding lq_inv_def using es(1,2,3,6) Cons
      by (intro conjI exI [of _ "es @ [x\<lparr>sp_rport := 0\<rparr>]"]) (auto simp: TTcpListenerListenQ_remove_def)
    ultimately show ?thesis using x Cons by auto
  qed
qed


text \<open>
  C24: With at most nine pending SYN packets the queue of a listener is a FIFO: a new packet goes
  behind the others with its address, port, number and segment size, and the entry that \<open>listen\<close>
  takes and removes is the oldest; there is none exactly when nothing is pending.
\<close>

theorem listen_queue_fifo:
  assumes "lq_inv q xs"
  shows "(length xs < 9 \<longrightarrow> tcp_header_at (pl_packet pl) (pl_rawbuf pl) = Some t \<longrightarrow> srcport t \<noteq> 0 \<longrightarrow> syn_mss pl t = Some mss \<longrightarrow>
      (\<exists>q'. TTcpListenerListenQ_add q pl = Some q' \<and> lq_inv q' (xs @ [syn_entry pl t mss]))) \<and>
    (case xs of [] \<Rightarrow> TTcpListenerListenQ_getLastIndex q = None
     | x # xs' \<Rightarrow> \<exists>i. TTcpListenerListenQ_getLastIndex q = Some i \<and> lq_item q ! i = x \<and>
         lq_inv (TTcpListenerListenQ_remove q i) xs')"
  using lq_add [OF assms] lq_last [OF assms] by blast

definition demo_listener :: tcp_listener where
  "demo_listener = cMiMicIpTcpListener_initialize \<lparr>l_port = 0, l_queue = \<lparr>lq_item = replicate 10 \<lparr>sp_srcaddr = 0, sp_rport = 0, sp_mss = 0,
     sp_rcv_nxt32 = 0\<rparr>, lq_wp = 3\<rparr>\<rparr> 80"

lemma demo_listener_inv: "lq_inv (l_queue demo_listener) []"
  unfolding demo_listener_def cMiMicIpTcpListener_initialize_def by (simp add: lq_init)

lemma demo_syn_mss: "syn_mss (demo_segment f q d) (demo_tcp f q) = Some None"
  by (simp add: syn_mss_def TTcpHeader_getTcpMmsOpt_def TTcpHeader_getTcpOptFragmentPtr_def demo_tcp_def)

theorem listen_queue_fifo_witness:
  "\<exists>q'. TTcpListenerListenQ_add (l_queue demo_listener) (demo_segment TCP_SYN 7 []) = Some q' \<and>
     lq_inv q' [syn_entry (demo_segment TCP_SYN 7 []) (demo_tcp TCP_SYN 7) None]"
  using listen_queue_fifo [OF demo_listener_inv, of "demo_segment TCP_SYN 7 []" "demo_tcp TCP_SYN 7" None]
  by (simp add: demo_syn_mss) (simp add: demo_tcp_def)

text \<open>
  With ten pending SYN packets the order is lost, and packets are: \<open>getLastIndex\<close> names the
  second oldest entry, and after that entry is removed a new SYN packet is dropped although a slot
  is free, while \<open>synPacket\<close> still reports success.
\<close>

theorem listen_queue_full:
  assumes "length (lq_item q) = 10" "lq_wp q < 10" "\<forall>x\<in>set (lq_item q). sp_rport x \<noteq> 0"
    "tcp_header_at (pl_packet pl) (pl_rawbuf pl) = Some t" "tcp_flags t AND TCP_SYN \<noteq> 0" "srcport t \<noteq> 0"
  shows "\<exists>i. i = (lq_wp q + 1) mod 10 \<and> TTcpListenerListenQ_getLastIndex q = Some i \<and>
    cMiMicIpTcpListener_synPacket \<lparr>l_port = p, l_queue = TTcpListenerListenQ_remove q i\<rparr> pl =
      Some (True, \<lparr>l_port = p, l_queue = TTcpListenerListenQ_remove q i\<rparr>)"
proof -
  let ?i = "(lq_wp q + 1) mod 10"
  have "TTcpListenerListenQ_getLastIndex q = Some ?i"
    using assms(1,3) by (simp add: TTcpListenerListenQ_getLastIndex_def upt_conv_Cons nth_mem)
  moreover have "?i \<noteq> lq_wp q"
  proof (cases "lq_wp q = 9")
    case False
    then show ?thesis using assms(2) by simp
  qed simp
  then have "sp_rport (lq_item (TTcpListenerListenQ_remove q ?i) ! lq_wp q) \<noteq> 0"
    using assms(1,2,3) by (simp add: TTcpListenerListenQ_remove_def)
  then have "TTcpListenerListenQ_add (TTcpListenerListenQ_remove q ?i) pl = Some (TTcpListenerListenQ_remove q ?i)"
    using assms(1,2,4) by (simp add: TTcpListenerListenQ_add_def) (simp add: TTcpListenerListenQ_remove_def)
  ultimately show ?thesis using assms(4,5,6) by (simp add: cMiMicIpTcpListener_synPacket_def)
qed

theorem listen_queue_full_witness:
  "TTcpListenerListenQ_getLastIndex \<lparr>lq_item = replicate 10 \<lparr>sp_srcaddr = 1, sp_rport = 2, sp_mss = 3, sp_rcv_nxt32 = 4\<rparr>, lq_wp = 9\<rparr> = Some 0"
  using listen_queue_full [of "\<lparr>lq_item = replicate 10 \<lparr>sp_srcaddr = 1, sp_rport = 2, sp_mss = 3, sp_rcv_nxt32 = 4\<rparr>, lq_wp = 9\<rparr>"
    "demo_segment TCP_SYN 7 []" "demo_tcp TCP_SYN 7" 80] by (auto simp: demo_tcp_def)

text \<open>
  C25: A SYN packet that reaches a listener with an empty queue is what the next \<open>listen\<close> returns
  with, at once: the closed socket becomes a connection to the sender, in SYN_RCVD, that expects
  the number behind the SYN and sends segments of the size the peer offered, or of its own.
\<close>

theorem syn_opens_connection:
  assumes "lq_inv (l_queue l) []" "tcp_header_at (pl_packet pl) (pl_rawbuf pl) = Some t" "tcp_flags t AND TCP_SYN \<noteq> 0"
    "srcport t \<noteq> 0" "syn_mss pl t = Some mss" "tcpstateflags s = UIP_CLOSED" "q_rp s = q_wp s" "0 < i_wait_msec"
  shows "\<exists>l1 l2 s'. cMiMicIpTcpListener_synPacket l pl = Some (True, l1) \<and>
    listen now (l1, s, n) i_wait_msec env = Some (True, (l2, s', n), env) \<and> lq_inv (l_queue l2) [] \<and>
    tcpstateflags s' = UIP_SYN_RCVD \<and> lport (conn s') = l_port l \<and> rport (conn s') = srcport t \<and>
    ripaddr (conn s') = srcipaddr (pl_header pl) \<and> rcv_nxt32 (conn s') = ntohl (seqno32 t) + 1 \<and>
    peer_mss (conn s') = (case mss of None \<Rightarrow> own_mss (conn s) | Some v \<Rightarrow> if v = 0 then own_mss (conn s) else v) \<and>
    flen (rxbuf s') = 0"
proof -
  let ?x = "syn_entry pl t mss"
  obtain q1 where q1: "TTcpListenerListenQ_add (l_queue l) pl = Some q1" "lq_inv q1 [?x]"
    using lq_add [OF assms(1) _ assms(2,4,5)] by auto
  then obtain i where i: "TTcpListenerListenQ_getLastIndex q1 = Some i" "lq_item q1 ! i = ?x"
    "lq_inv (TTcpListenerListenQ_remove q1 i) []"
    using lq_last [OF q1(2)] by auto
  let ?l1 = "l\<lparr>l_queue := q1\<rparr>"
  obtain s' where s': "cMiMicIpTcpSocket_listenSyn s n ?x (l_port l) = Some (True, s', n)"
    "tcpstateflags s' = UIP_SYN_RCVD" "lport (conn s') = l_port l" "rport (conn s') = srcport t"
    "ripaddr (conn s') = srcipaddr (pl_header pl)" "rcv_nxt32 (conn s') = ntohl (seqno32 t) + 1"
    "peer_mss (conn s') = (case mss of None \<Rightarrow> own_mss (conn s) | Some v \<Rightarrow> if v = 0 then own_mss (conn s) else v)"
    "flen (rxbuf s') = 0"
    using assms(6,7) by (simp add: cMiMicIpTcpSocket_listenSyn_def syn_entry_def cFifoBuffer_clear_def split: option.splits)
  have "listen now (?l1, s, n) i_wait_msec env = Some (True, (?l1\<lparr>l_queue := TTcpListenerListenQ_remove q1 i\<rparr>, s', n), env)"
    using assms(6,8) i s'(1) by (simp add: listen_def cStopwatch_elapseInMsec_def cStopwatch_setNow_def)
  moreover have "cMiMicIpTcpListener_synPacket l pl = Some (True, ?l1)"
    using assms(2,3,4) q1(1) by (simp add: cMiMicIpTcpListener_synPacket_def)
  ultimately show ?thesis using i(3) s'(2-) by auto
qed

theorem syn_opens_connection_witness:
  "\<exists>l1 l2 s'. cMiMicIpTcpListener_synPacket demo_listener (demo_segment TCP_SYN 7 []) = Some (True, l1) \<and>
    listen 100 (l1, set_state UIP_CLOSED demo_socket, demo_net) 1000 [] = Some (True, (l2, s', demo_net), []) \<and>
    tcpstateflags s' = UIP_SYN_RCVD \<and> rport (conn s') = 0x0104 \<and> rcv_nxt32 (conn s') = 8"
proof -
  let ?s = "set_state UIP_CLOSED demo_socket"
  have "tcp_flags (demo_tcp TCP_SYN 7) AND TCP_SYN \<noteq> 0" "srcport (demo_tcp TCP_SYN 7) = 0x0104" "ntohl (seqno32 (demo_tcp TCP_SYN 7)) = 7"
    by (simp_all add: demo_tcp_def)
  moreover have "tcpstateflags ?s = UIP_CLOSED" "q_rp ?s = q_wp ?s" by (simp_all add: set_state_def demo_socket_def)
  ultimately show ?thesis
    using syn_opens_connection [of demo_listener "demo_segment TCP_SYN 7 []" "demo_tcp TCP_SYN 7" None ?s 1000 100 demo_net "[]"]
      demo_listener_inv demo_segment_tcp [of TCP_SYN 7 "[]"] demo_syn_mss [of TCP_SYN 7 "[]"] by auto
qed

end
