(* ===== verification/UdpSocket.thy ===== *)
theory UdpSocket
  imports TcpReceive Stopwatch
begin

text \<open>
  \<open>NyLPC_cMiMicIpUdpSocket.c\<close>: the UDP socket. Its receive buffer holds datagrams, each with a
  \<open>struct NyLPC_TIPv4RxInfo\<close> of 14 bytes in front (the address type is packed, so the struct has
  no padding). The handlers of the embedding program are functions of the model: a socket keeps
  their numbers, and \<open>H\<close> gives their effect.

  The state the functions work on is the socket and the network interface (\<open>udp_world\<close>); waiting
  is as in \<open>Stopwatch\<close>.
\<close>

unbundle bit_operations_syntax

abbreviation (input) "FLAG_BROADCAST \<equiv> (0 :: nat)"
abbreviation (input) "SIZE_OF_IPv4_UDPIP_HEADER \<equiv> (28 :: nat)"
abbreviation (input) "SIZE_OF_RX_INFO \<equiv> (14 :: nat)"

record rx_info =
  ri_size :: u16
  ri_port :: u16
  ri_peer_port :: u16
  ri_ip :: ipv4_addr
  ri_peer_ip :: ipv4_addr

record udp_conn =
  u_lipaddr :: ipv4_addr
  mcastaddr :: ipv4_addr
  u_lport :: u16
  u_flags :: u8

record udp_socket =
  uip_udp_conn :: udp_conn
  u_rxbuf :: fifo_buffer
  on_rx :: "nat option"
  on_periodic :: "nat option"

type_synonym udp_world = "udp_socket \<times> netif"
type_synonym rx_handler = "nat \<Rightarrow> u8 list \<Rightarrow> rx_info \<Rightarrow> udp_world \<Rightarrow> bool \<times> udp_world"
type_synonym periodic_handler = "nat \<Rightarrow> udp_world \<Rightarrow> udp_world"

definition rx_info_bytes :: "rx_info \<Rightarrow> u8 list" where
  "rx_info_bytes r = half_bytes (ri_size r) @ half_bytes (ri_port r) @ half_bytes (ri_peer_port r) @
     word_bytes (ri_ip r) @ word_bytes (ri_peer_ip r)"

definition rx_info_at :: "u8 list \<Rightarrow> rx_info option" where
  "rx_info_at p = do {
     s \<leftarrow> half_at p 0; q \<leftarrow> half_at p 2; r \<leftarrow> half_at p 4; i \<leftarrow> word_at p 6; j \<leftarrow> word_at p 10;
     Some \<lparr>ri_size = s, ri_port = q, ri_peer_port = r, ri_ip = i, ri_peer_ip = j\<rparr> }"

section \<open>Life cycle and settings\<close>

definition cMiMicIpUdpSocket_initialize :: "udp_socket \<Rightarrow> u16 \<Rightarrow> u8 list \<Rightarrow> u16 \<Rightarrow> udp_socket" where
  "cMiMicIpUdpSocket_initialize s i_port i_rbuf i_rbuf_len =
     s\<lparr>uip_udp_conn := (uip_udp_conn s)\<lparr>u_lport := htons i_port, mcastaddr := TIPv4Addr_ZERO, u_flags := 0\<rparr>,
       on_rx := None, on_periodic := None, u_rxbuf := cFifoBuffer_initialize i_rbuf i_rbuf_len\<rparr>"

definition joinMulticast :: "udp_socket \<Rightarrow> ipv4_addr \<Rightarrow> udp_socket" where
  "joinMulticast s i_addr = s\<lparr>uip_udp_conn := (uip_udp_conn s)\<lparr>mcastaddr := i_addr\<rparr>\<rparr>"

definition setBroadcast :: "udp_socket \<Rightarrow> udp_socket" where
  "setBroadcast s = s\<lparr>uip_udp_conn := (uip_udp_conn s)\<lparr>u_flags := u_flags (uip_udp_conn s) OR push_bit FLAG_BROADCAST 1\<rparr>\<rparr>"

definition setOnRxHandler :: "udp_socket \<Rightarrow> nat option \<Rightarrow> udp_socket" where
  "setOnRxHandler s i_handler = s\<lparr>on_rx := i_handler\<rparr>"

definition setOnPeriodicHandler :: "udp_socket \<Rightarrow> nat option \<Rightarrow> udp_socket" where
  "setOnPeriodicHandler s i_handler = s\<lparr>on_periodic := i_handler\<rparr>"

definition getSockIP :: "udp_socket \<Rightarrow> ipv4_addr" where
  "getSockIP s = u_lipaddr (uip_udp_conn s)"

definition cMiMicIpUdpSocket_startService :: "udp_socket \<Rightarrow> ipv4_config \<Rightarrow> udp_socket" where
  "cMiMicIpUdpSocket_startService s i_config =
     s\<lparr>uip_udp_conn := (uip_udp_conn s)\<lparr>u_lipaddr := ip_addr i_config\<rparr>, u_rxbuf := cFifoBuffer_clear (u_rxbuf s)\<rparr>"

definition cMiMicIpUdpSocket_stopService :: "udp_socket \<Rightarrow> udp_socket" where
  "cMiMicIpUdpSocket_stopService s = s"

definition cMiMicIpUdpSocket_periodic :: "periodic_handler \<Rightarrow> udp_world \<Rightarrow> udp_world" where
  "cMiMicIpUdpSocket_periodic P w = (case on_periodic (fst w) of None \<Rightarrow> w | Some k \<Rightarrow> P k w)"

definition broadcast_on :: "udp_socket \<Rightarrow> bool" where
  "broadcast_on s \<longleftrightarrow> bit (u_flags (uip_udp_conn s)) FLAG_BROADCAST"

section \<open>Receiving\<close>

text \<open>
  The result is always FALSE: UDP has no answer packet. On the way out of a dropped packet the
  source unlocks the mutex, which it has not locked when the packet is an unwanted broadcast.
\<close>

definition rx_info_of :: "ipv4_payload \<Rightarrow> udp_header \<Rightarrow> rx_info" where
  "rx_info_of i_ipp u =
     \<lparr>ri_size = ntohs (len16 (pl_header i_ipp)) - of_nat (TIPv4Header_getHeaderLength (pl_header i_ipp)) - 8,
      ri_port = ntohs (udp_destport u), ri_peer_port = ntohs (udp_srcport u),
      ri_ip = destipaddr (pl_header i_ipp), ri_peer_ip = srcipaddr (pl_header i_ipp)\<rparr>"

definition store_datagram :: "udp_socket \<Rightarrow> rx_info \<Rightarrow> u8 list \<Rightarrow> udp_socket option" where
  "store_datagram s d data =
     (if unat (cFifoBuffer_getSpace (u_rxbuf s)) < unat (ri_size d) + SIZE_OF_RX_INFO then Some s
      else do {
        q \<leftarrow> cFifoBuffer_push (u_rxbuf s) (rx_info_bytes d) (of_nat SIZE_OF_RX_INFO);
        q \<leftarrow> cFifoBuffer_push q data (ri_size d);
        Some (s\<lparr>u_rxbuf := q\<rparr>) })"

definition cMiMicIpUdpSocket_parseRx :: "rx_handler \<Rightarrow> udp_world \<Rightarrow> ipv4_payload \<Rightarrow> (bool \<times> udp_world) option" where
  "cMiMicIpUdpSocket_parseRx H w i_ipp =
     (if TIPv4Addr_isEqual (destipaddr (pl_header i_ipp)) TIPv4Addr_BROADCAST \<and> \<not> broadcast_on (fst w) then Some (False, w)
      else do {
        u \<leftarrow> udp_header_at (pl_packet i_ipp) (pl_rawbuf i_ipp);
        let d = rx_info_of i_ipp u;
        let data = drop (pl_rawbuf i_ipp + 8) (pl_packet i_ipp);
        let (go, w) = (case on_rx (fst w) of None \<Rightarrow> (True, w) | Some k \<Rightarrow> H k data d w);
        if \<not> go then Some (False, w)
        else do {
          s \<leftarrow> store_datagram (fst w) d data;
          Some (False, (s, snd w)) } })"

text \<open>\<open>precv\<close> gives the size, the information and a pointer to the data, whose bytes are the result here.\<close>

fun udp_precv_loop :: "stopwatch \<Rightarrow> u32 \<Rightarrow> u32 \<Rightarrow> udp_world \<Rightarrow> udp_world script \<Rightarrow>
    ((rx_info \<times> u8 list) option \<times> udp_world \<times> udp_world script) option" where
  "udp_precv_loop sw i_wait_msec now w env =
     (if cStopwatch_elapseInMsec now sw < i_wait_msec then
        (if cFifoBuffer_getLength (u_rxbuf (fst w)) > 0 then do {
           let b = cFifoBuffer_getPtr (u_rxbuf (fst w));
           rh \<leftarrow> rx_info_at b;
           Some (Some (rh, drop SIZE_OF_RX_INFO b), w, env) }
         else (case env of
             [] \<Rightarrow> None
           | (now', f) # env' \<Rightarrow> udp_precv_loop sw i_wait_msec now' (f w) env'))
      else Some (None, w, env))"

definition udp_precv where
  "udp_precv now w i_wait_msec env =
     udp_precv_loop (cStopwatch_setNow now \<lparr>sw_tick = 0, ex_timeout = 0\<rparr>) i_wait_msec now w env"

definition udp_pseek :: "udp_socket \<Rightarrow> udp_socket option" where
  "udp_pseek s =
     (if cFifoBuffer_getLength (u_rxbuf s) > 0 then do {
        rh \<leftarrow> rx_info_at (cFifoBuffer_getPtr (u_rxbuf s));
        q \<leftarrow> cFifoBuffer_pop (u_rxbuf s) (ri_size rh + of_nat SIZE_OF_RX_INFO);
        Some (s\<lparr>u_rxbuf := q\<rparr>) }
      else Some s)"

section \<open>Sending\<close>

definition setUdpTxBufHeader ::
  "u16 \<Rightarrow> udp_socket \<Rightarrow> u8 list \<Rightarrow> ipv4_addr \<Rightarrow> u16 \<Rightarrow> u8 \<Rightarrow> u16 \<Rightarrow> (u16 \<times> u8 list) option" where
  "setUdpTxBufHeader pid s i_buf i_dest_ip i_dest_port i_iph_word i_payload_size = do {
     let n = unat i_iph_word * 4;
     h \<leftarrow> ipv4_header_at i_buf;
     u \<leftarrow> udp_header_at i_buf n;
     let (pid, h) = TIPv4Header_writeTxIpHeader pid
           (h\<lparr>vhl := 0x40 OR (0x0f AND i_iph_word), len16 := htons (i_payload_size + of_nat (n + 8)),
              destipaddr := i_dest_ip, srcipaddr := u_lipaddr (uip_udp_conn s)\<rparr>) UIP_PROTO_UDP;
     let u = u\<lparr>udplen := htons (i_payload_size + 8), udp_srcport := u_lport (uip_udp_conn s),
           udp_destport := htons i_dest_port, udpchksum := 0\<rparr>;
     p \<leftarrow> blit i_buf 0 (ipv4_header_bytes h);
     p \<leftarrow> blit p n (udp_header_bytes u);
     c \<leftarrow> TIPv4Header_makeTcpChecksum p;
     p \<leftarrow> blit p n (udp_header_bytes (u\<lparr>udpchksum := NOT c\<rparr>));
     c \<leftarrow> TIPv4Header_makeIpChecksum p;
     p \<leftarrow> blit p 0 (ipv4_header_bytes (h\<lparr>ipchksum := NOT c\<rparr>));
     Some (pid, p) }"

text \<open>
  A send buffer is a block; the application's pointer is behind the 28 header bytes of its packet.
  The reported size is that of the packet, header bytes included.
\<close>

fun udp_alloc_loop :: "stopwatch \<Rightarrow> u16 \<Rightarrow> u32 \<Rightarrow> udp_world \<Rightarrow> udp_world script \<Rightarrow>
    ((block \<times> u16) option \<times> u32 \<times> udp_world \<times> udp_world script) option" where
  "udp_alloc_loop sw i_hint now w env =
     (case cMiMicIpNetIf_allocTxBuf (snd w) (i_hint + of_nat SIZE_OF_IPv4_UDPIP_HEADER) of
        Some (b, s, n) \<Rightarrow> Some (Some (b, s), now, (fst w, n), env)
      | None \<Rightarrow> (let (e, sw) = cStopwatch_isExpired now sw in
          if e then Some (None, now, w, env)
          else (case env of
              [] \<Rightarrow> None
            | (now', f) # env' \<Rightarrow> udp_alloc_loop sw i_hint now' (f w) env')))"

definition udp_allocSendBuf where
  "udp_allocSendBuf now w i_hint i_wait_in_msec env =
     udp_alloc_loop (cStopwatch_startExpire now \<lparr>sw_tick = 0, ex_timeout = 0\<rparr> i_wait_in_msec) i_hint now w env"

definition udp_releaseSendBuf :: "udp_world \<Rightarrow> block \<Rightarrow> udp_world" where
  "udp_releaseSendBuf w b = (fst w, cMiMicIpNetIf_releaseTxBuf (snd w) b)"

text \<open>After an ARP request the thread sleeps once, for 30 milliseconds.\<close>

definition udp_psend :: "udp_world \<Rightarrow> ipv4_addr \<Rightarrow> u16 \<Rightarrow> block \<Rightarrow> int \<Rightarrow> udp_world script \<Rightarrow>
    (bool \<times> udp_world \<times> udp_world script) option" where
  "udp_psend w i_addr i_port b i_len env =
     (let bc = TIPv4Addr_isEqual i_addr TIPv4Addr_BROADCAST;
          mc = TIPv4Addr_isEqualWithMask i_addr TIPv4Addr_MULTICAST TIPv4Addr_MULTICAST_MASK in
      if bc \<and> \<not> broadcast_on (fst w) then Some (False, w, env)
      else do {
        (pid, p) \<leftarrow> setUdpTxBufHeader (ip_pid (snd w)) (fst w) (ip_at (snd w) b) i_addr i_port 5 (of_int i_len);
        let w = (fst w, put_ip ((snd w)\<lparr>ip_pid := pid\<rparr>) b p);
        (w, env) \<leftarrow> (if \<not> (bc \<or> mc) \<and> \<not> cMiMicIpNetIf_hasArpInfo (snd w) i_addr
          then do {
            n \<leftarrow> cMiMicIpNetIf_sendArpRequest (snd w) i_addr;
            (case env of [] \<Rightarrow> None | (now', f) # env' \<Rightarrow> Some (f (fst w, n), env')) }
          else Some (w, env));
        n \<leftarrow> cMiMicIpNetIf_sendIPv4Tx (snd w) b;
        Some (True, (fst w, cMiMicIpNetIf_releaseTxBuf n b), env) })"

text \<open>The loop of \<open>send\<close> asks at most three times; it keeps the buffers it finds too small.\<close>

fun udp_send_buf :: "nat \<Rightarrow> (block \<times> u16) option \<Rightarrow> u32 \<Rightarrow> udp_world \<Rightarrow> int \<Rightarrow> u32 \<Rightarrow> udp_world script \<Rightarrow>
    ((block \<times> u16) option \<times> udp_world \<times> udp_world script) option" where
  "udp_send_buf 0 buf now w i_len i_wait_in_msec env = Some (buf, w, env)"
| "udp_send_buf (Suc k) buf now w i_len i_wait_in_msec env = do {
     (buf, now, w, env) \<leftarrow> udp_allocSendBuf now w (of_int (i_len * 2)) i_wait_in_msec env;
     (case buf of
        None \<Rightarrow> udp_send_buf k buf now w i_len i_wait_in_msec env
      | Some (b, s) \<Rightarrow> if int (unat s) < i_len then udp_send_buf k buf now w i_len i_wait_in_msec env
          else Some (buf, w, env)) }"

definition udp_send :: "u32 \<Rightarrow> udp_world \<Rightarrow> ipv4_addr \<Rightarrow> u16 \<Rightarrow> u8 list \<Rightarrow> int \<Rightarrow> u32 \<Rightarrow> udp_world script \<Rightarrow>
    (int \<times> udp_world \<times> udp_world script) option" where
  "udp_send now w i_addr i_port i_buf_ptr i_len i_wait_in_msec env =
     (if i_len < 1 \<or> i_len > 1200 then Some (0, w, env)
      else do {
        (buf, w, env) \<leftarrow> udp_send_buf 3 None now w i_len i_wait_in_msec env;
        (case buf of
           None \<Rightarrow> Some (- 1, w, env)
         | Some (b, s) \<Rightarrow> do {
             p \<leftarrow> copy_at (ip_at (snd w) b) SIZE_OF_IPv4_UDPIP_HEADER i_buf_ptr 0 (nat i_len);
             (ok, w, env) \<leftarrow> udp_psend (fst w, put_ip (snd w) b p) i_addr i_port b i_len env;
             Some (if ok then (i_len, w, env) else (- 1, udp_releaseSendBuf w b, env)) }) })"

end
