(* ===== verification/UdpDatagram.thy ===== *)
theory UdpDatagram
  imports UdpSocket
begin

text \<open>
  The UDP socket as a queue of datagrams: what a sender puts into a packet is what the receiver's
  application reads, datagrams keep their boundaries and their order, and what does not fit is dropped whole.
\<close>

section \<open>The receive buffer\<close>

lemma length_rx_info_bytes [simp]: "length (rx_info_bytes r) = 14"
  by (simp add: rx_info_bytes_def)

lemma rx_info_at_bytes: "rx_info_at (rx_info_bytes r @ ys) = Some r"
  by (simp add: rx_info_at_def rx_info_bytes_def half_at_def half_bytes_def rd_def word_at_def word_bytes_def
      half_value word_value)

definition datagram_bytes :: "rx_info \<times> u8 list \<Rightarrow> u8 list" where
  "datagram_bytes d = rx_info_bytes (fst d) @ snd d"

text \<open>\<open>udp_inv s ds\<close>: the buffer of \<open>s\<close> holds the datagrams \<open>ds\<close>, the oldest first.\<close>

definition udp_inv :: "udp_socket \<Rightarrow> (rx_info \<times> u8 list) list \<Rightarrow> bool" where
  "udp_inv s ds \<longleftrightarrow> fifo_inv (u_rxbuf s) \<and> cFifoBuffer_getPtr (u_rxbuf s) = concat (map datagram_bytes ds) \<and>
     (\<forall>d\<in>set ds. length (snd d) = unat (ri_size (fst d)))"

lemma push_ok:
  assumes "fifo_inv q" "unat n \<le> length d" "unat n \<le> fifo_room q"
  shows "\<exists>q'. cFifoBuffer_push q d n = Some q' \<and> fifo_inv q' \<and>
    cFifoBuffer_getPtr q' = cFifoBuffer_getPtr q @ take (unat n) d \<and> fifo_room q' = fifo_room q - unat n"
proof -
  have m: "of_nat (length (take (unat n) d)) = n" "length (take (unat n) d) = unat n" using assms(2) by (simp_all add: min_absorb2)
  have "cFifoBuffer_push q d n = fifo_put q (take (unat n) d)"
    unfolding fifo_put_def m(1) cFifoBuffer_push_def copy_at_def using assms(2) by simp
  then show ?thesis using fifo_put_ok [OF assms(1), of "take (unat n) d"] assms(3) m(2) by simp
qed

lemma store_datagram_ok:
  assumes "udp_inv s ds" "unat (ri_size d) \<le> length data"
  shows "\<exists>s'. store_datagram s d data = Some s' \<and> uip_udp_conn s' = uip_udp_conn s \<and>
    (if 14 + unat (ri_size d) \<le> fifo_room (u_rxbuf s)
     then udp_inv s' (ds @ [(d, take (unat (ri_size d)) data)]) else s' = s)"
proof (cases "14 + unat (ri_size d) \<le> fifo_room (u_rxbuf s)")
  case True
  have f: "fifo_inv (u_rxbuf s)" using assms(1) by (simp add: udp_inv_def)
  have "unat (14 :: u16) = 14" by simp
  then obtain q1 where q1: "cFifoBuffer_push (u_rxbuf s) (rx_info_bytes d) 14 = Some q1" "fifo_inv q1"
    "cFifoBuffer_getPtr q1 = cFifoBuffer_getPtr (u_rxbuf s) @ rx_info_bytes d" "fifo_room q1 = fifo_room (u_rxbuf s) - 14"
    using push_ok [OF f, of 14 "rx_info_bytes d"] True by auto
  have "unat (ri_size d) \<le> fifo_room q1" using True q1(4) by linarith
  then obtain q2 where q2: "cFifoBuffer_push q1 data (ri_size d) = Some q2" "fifo_inv q2"
    "cFifoBuffer_getPtr q2 = cFifoBuffer_getPtr q1 @ take (unat (ri_size d)) data"
    using push_ok [OF q1(2) assms(2)] by blast
  have "udp_inv (s\<lparr>u_rxbuf := q2\<rparr>) (ds @ [(d, take (unat (ri_size d)) data)])"
    using assms q1(3) q2(2,3) by (auto simp: udp_inv_def datagram_bytes_def)
  moreover have "store_datagram s d data = Some (s\<lparr>u_rxbuf := q2\<rparr>)"
    using True q1(1) q2(1) by (simp add: store_datagram_def fifo_room_def)
  ultimately show ?thesis using True by simp
next
  case False
  then show ?thesis by (simp add: store_datagram_def fifo_room_def)
qed

lemma udp_head:
  assumes "udp_inv s ((d, x) # ds)"
  shows "cFifoBuffer_getLength (u_rxbuf s) > 0" "rx_info_at (cFifoBuffer_getPtr (u_rxbuf s)) = Some d"
    "take (unat (ri_size d)) (drop 14 (cFifoBuffer_getPtr (u_rxbuf s))) = x"
    "\<exists>s'. udp_pseek s = Some s' \<and> udp_inv s' ds"
proof -
  let ?q = "u_rxbuf s"
  have f: "fifo_inv ?q" and p: "cFifoBuffer_getPtr ?q = rx_info_bytes d @ x @ concat (map datagram_bytes ds)"
    and x: "length x = unat (ri_size d)"
    using assms by (auto simp: udp_inv_def datagram_bytes_def)
  have len: "unat (flen ?q) = length (cFifoBuffer_getPtr ?q)"
    using fifo_inv_len [OF f] by (simp add: cFifoBuffer_getPtr_def)
  then show l: "cFifoBuffer_getLength ?q > 0"
    using p by (simp add: cFifoBuffer_getLength_def word_less_nat_alt)
  show at: "rx_info_at (cFifoBuffer_getPtr ?q) = Some d" unfolding p by (rule rx_info_at_bytes)
  show "take (unat (ri_size d)) (drop 14 (cFifoBuffer_getPtr ?q)) = x" unfolding p using x by simp
  have "14 + length x \<le> length (cFifoBuffer_getPtr ?q)" unfolding p by simp
  moreover have "unat (flen ?q) < 2 ^ 16" using unat_u16_less [of "flen ?q"] by simp
  ultimately have k: "unat (ri_size d + 14) = length x + 14"
    using x len by (subst unat_add_small) simp_all
  have "length x + 14 \<le> length (cFifoBuffer_getPtr ?q)" unfolding p by simp
  then obtain q' where "fifo_discard ?q (length x + 14) = Some q'" "fifo_inv q'"
    "cFifoBuffer_getPtr q' = drop (length x + 14) (cFifoBuffer_getPtr ?q)"
    using fifo_discard_ok [OF f] by blast
  moreover have "(of_nat (length x + 14) :: u16) = ri_size d + 14" using k by (metis u16_of_nat_unat)
  ultimately have "cFifoBuffer_pop ?q (ri_size d + 14) = Some q'" "fifo_inv q'"
    "cFifoBuffer_getPtr q' = concat (map datagram_bytes ds)"
    by (simp_all add: fifo_discard_def p)
  then show "\<exists>s'. udp_pseek s = Some s' \<and> udp_inv s' ds"
    using l at assms by (simp add: udp_pseek_def udp_inv_def)
qed

lemma udp_inv_empty: "udp_inv s [] \<Longrightarrow> cFifoBuffer_getLength (u_rxbuf s) = 0"
proof -
  assume i: "udp_inv s []"
  then have "fifo_inv (u_rxbuf s)" "cFifoBuffer_getPtr (u_rxbuf s) = []" by (simp_all add: udp_inv_def)
  then have "unat (flen (u_rxbuf s)) = 0" using fifo_inv_len [of "u_rxbuf s"] by (auto simp: cFifoBuffer_getPtr_def)
  then show ?thesis by (simp add: cFifoBuffer_getLength_def unat_eq_0)
qed

text \<open>
  C26: A UDP socket is a queue of datagrams: a received one is stored whole, behind the others, or
  dropped whole if it does not fit; \<open>precv\<close> shows the oldest with its sender and size, \<open>pseek\<close>
  takes off that one; and \<open>precv\<close> returns nothing only after it has waited.
\<close>

theorem udp_datagram_queue:
  assumes "udp_inv s ds"
  shows "(unat (ri_size d) \<le> length data \<longrightarrow> (\<exists>s'. store_datagram s d data = Some s' \<and>
      (if 14 + unat (ri_size d) \<le> fifo_room (u_rxbuf s) then udp_inv s' (ds @ [(d, take (unat (ri_size d)) data)]) else s' = s))) \<and>
    (case ds of
       [] \<Rightarrow> 0 < i_wait_msec \<longrightarrow> udp_precv now (s, n) i_wait_msec [] = None
     | (e, x) # ds' \<Rightarrow> (\<exists>s'. udp_pseek s = Some s' \<and> udp_inv s' ds') \<and>
         (0 < i_wait_msec \<longrightarrow> (\<exists>p. udp_precv now (s, n) i_wait_msec env = Some (Some (e, p), (s, n), env) \<and> take (unat (ri_size e)) p = x)))"
proof -
  have "\<exists>s'. store_datagram s d data = Some s' \<and>
      (if 14 + unat (ri_size d) \<le> fifo_room (u_rxbuf s) then udp_inv s' (ds @ [(d, take (unat (ri_size d)) data)]) else s' = s)"
    if "unat (ri_size d) \<le> length data"
    using store_datagram_ok [OF assms that] by blast
  moreover have "case ds of
       [] \<Rightarrow> 0 < i_wait_msec \<longrightarrow> udp_precv now (s, n) i_wait_msec [] = None
     | (e, x) # ds' \<Rightarrow> (\<exists>s'. udp_pseek s = Some s' \<and> udp_inv s' ds') \<and>
         (0 < i_wait_msec \<longrightarrow> (\<exists>p. udp_precv now (s, n) i_wait_msec env = Some (Some (e, p), (s, n), env) \<and> take (unat (ri_size e)) p = x))"
  proof (cases ds)
    case Nil
    then show ?thesis using udp_inv_empty assms
      by (simp add: udp_precv_def cStopwatch_elapseInMsec_def cStopwatch_setNow_def)
  next
    case (Cons a ds')
    obtain e x where a: "a = (e, x)" by (cases a)
    note h = udp_head [OF assms [unfolded Cons a]]
    then show ?thesis unfolding Cons a
      by (auto simp: udp_precv_def cStopwatch_elapseInMsec_def cStopwatch_setNow_def Let_def)
  qed
  ultimately show ?thesis by blast
qed


definition demo_udp :: udp_socket where
  "demo_udp = \<lparr>uip_udp_conn = \<lparr>u_lipaddr = 0x0100a8c0, mcastaddr = 0, u_lport = htons 5353, u_flags = 0\<rparr>,
     u_rxbuf = cFifoBuffer_initialize (replicate 40 0) 40, on_rx = None, on_periodic = None\<rparr>"

lemma demo_udp_inv: "udp_inv demo_udp []"
  by (simp add: udp_inv_def demo_udp_def fifo_initialize_inv)

lemma demo_udp_room: "fifo_room (u_rxbuf demo_udp) = 40"
  by (simp add: demo_udp_def fifo_room_def cFifoBuffer_initialize_def cFifoBuffer_getSpace_def)

theorem udp_datagram_queue_witness:
  "\<exists>s'. store_datagram demo_udp \<lparr>ri_size = 3, ri_port = 1, ri_peer_port = 2, ri_ip = 3, ri_peer_ip = 4\<rparr> [7, 8, 9, 10] = Some s' \<and>
     udp_inv s' [(\<lparr>ri_size = 3, ri_port = 1, ri_peer_port = 2, ri_ip = 3, ri_peer_ip = 4\<rparr>, [7, 8, 9])]"
  using udp_datagram_queue [OF demo_udp_inv, of "\<lparr>ri_size = 3, ri_port = 1, ri_peer_port = 2, ri_ip = 3, ri_peer_ip = 4\<rparr>" "[7, 8, 9, 10]"]
  by (simp add: demo_udp_room)

section \<open>From the sender to the receiver\<close>

lemma store_udp_chksum:
  assumes "TIPv4Header_getHeaderLength h = 20" "udpchksum u = 0" "8 \<le> unat (seg_len h)" "unat (seg_len h) \<le> 8 + length r"
  shows "\<exists>c. TIPv4Header_makeTcpChecksum (ipv4_header_bytes h @ udp_header_bytes u @ r) = Some c \<and>
    cIPv4Packet_isCorrectTcpCheckSum (ipv4_header_bytes h @ udp_header_bytes (u\<lparr>udpchksum := NOT c\<rparr>) @ r) = Some True"
proof -
  let ?xs = "half_bytes (udp_srcport u) @ half_bytes (udp_destport u) @ half_bytes (udplen u)"
  have u: "udp_header_bytes (u\<lparr>udpchksum := w\<rparr>) = ?xs @ half_bytes w" for w by (simp add: udp_header_bytes_def)
  have u0: "udp_header_bytes u = ?xs @ half_bytes 0" using assms(2) by (simp add: udp_header_bytes_def)
  obtain c where c: "TIPv4Header_makeTcpChecksum (ipv4_header_bytes h @ udp_header_bytes u @ r) = Some c"
    using make_tcp_checksum [of "ipv4_header_bytes h @ udp_header_bytes u @ r" h] assms(1,4) by auto
  moreover have "cIPv4Packet_isCorrectTcpCheckSum (ipv4_header_bytes h @ ?xs @ half_bytes (NOT c) @ r) = Some True"
    using assms(1,3,4) c unfolding u0 append_assoc
    by (intro tcp_checksum_accepted [of "ipv4_header_bytes h" ?xs r h, unfolded append_assoc]) simp_all
  ultimately show ?thesis by (auto simp: u)
qed

lemma setUdpTxBufHeader_ok:
  assumes "28 + unat n \<le> length p" "unat n < 65508"
  shows "\<exists>p' h u. setUdpTxBufHeader pid s p dest port 5 n = Some (pid + 1, p') \<and>
    (\<forall>sz. 28 + unat n \<le> unat sz \<longrightarrow>
       cIPv4Payload_attachRxBuf p' sz = Some (True, \<lparr>pl_packet = p', pl_header = h, pl_rawbuf = 20\<rparr>)) \<and>
    cIPv4Packet_isCorrectTcpCheckSum p' = Some True \<and> proto h = UIP_PROTO_UDP \<and>
    udp_header_at p' 20 = Some u \<and> drop 28 p' = drop 28 p \<and> length p' = length p \<and>
    rx_info_of \<lparr>pl_packet = p', pl_header = h, pl_rawbuf = 20\<rparr> u =
      \<lparr>ri_size = n, ri_port = port, ri_peer_port = ntohs (u_lport (uip_udp_conn s)), ri_ip = dest, ri_peer_ip = u_lipaddr (uip_udp_conn s)\<rparr>"
proof -
  obtain h0 where h0: "ipv4_header_at p = Some h0" using ipv4_header_at_total [of p] assms(1) by auto
  obtain u0 where u0: "udp_header_at p 20 = Some u0" using assms(1) by (auto simp: udp_header_at_def half_at_def rd_def)
  let ?h = "h0\<lparr>vhl := 0x45, len16 := htons (n + 28), destipaddr := dest, srcipaddr := u_lipaddr (uip_udp_conn s),
    proto := UIP_PROTO_UDP, ttl := 64, tos := 0, ipid16 := pid, ipoffset := 0, ipchksum := 0\<rparr>"
  let ?u = "u0\<lparr>udplen := htons (n + 8), udp_srcport := u_lport (uip_udp_conn s), udp_destport := htons port, udpchksum := 0\<rparr>"
  let ?q = "\<lambda>ci ct. ipv4_header_bytes (?h\<lparr>ipchksum := ci\<rparr>) @ udp_header_bytes (?u\<lparr>udpchksum := ct\<rparr>) @ drop 28 p"
  have hl: "TIPv4Header_getHeaderLength (?h\<lparr>ipchksum := c\<rparr>) = 20" for c by (simp add: TIPv4Header_getHeaderLength_def)
  have hl0: "TIPv4Header_getHeaderLength ?h = 20" by (simp add: TIPv4Header_getHeaderLength_def)
  have sl: "unat (seg_len ?h) = unat n + 8"
  proof -
    have "seg_len ?h = n + 8" unfolding seg_len_def hl0 by simp
    then show ?thesis using assms(2) by (simp only:) (subst unat_add_small, simp_all)
  qed
  then have ge: "8 \<le> unat (seg_len ?h)" and le: "unat (seg_len ?h) \<le> 8 + length (drop 28 p)"
    using assms(1) by simp_all
  have u: "udpchksum ?u = 0" by simp
  obtain c where c: "TIPv4Header_makeTcpChecksum (ipv4_header_bytes ?h @ udp_header_bytes ?u @ drop 28 p) = Some c"
    "cIPv4Packet_isCorrectTcpCheckSum (ipv4_header_bytes ?h @ udp_header_bytes (?u\<lparr>udpchksum := NOT c\<rparr>) @ drop 28 p) = Some True"
    using store_udp_chksum [OF hl0 u ge le] by blast
  let ?r = "udp_header_bytes (?u\<lparr>udpchksum := NOT c\<rparr>) @ drop 28 p"
  obtain d where d: "TIPv4Header_makeIpChecksum (ipv4_header_bytes ?h @ ?r) = Some d"
    using make_ip_checksum [of "ipv4_header_bytes ?h @ ?r" ?h] hl0 by auto
  let ?p = "ipv4_header_bytes (?h\<lparr>ipchksum := NOT d\<rparr>) @ ?r"
  have i: "TIPv4Header_isCorrectIpCheckSum ?p = Some True"
    using hl0 d by (intro ip_checksum_accepted) (simp_all add: header_fits_def)
  have t: "cIPv4Packet_isCorrectTcpCheckSum ?p = Some True"
    using c(2) hl0 tcp_checksum_ip_field [of ?h "NOT d" ?r] by (simp add: cIPv4Packet_isCorrectTcpCheckSum_def)
  have l: "20 \<le> length p" "28 \<le> length p" using assms(1) by simp_all
  have "setUdpTxBufHeader pid s p dest port 5 n = Some (pid + 1, ?p)"
    unfolding setUdpTxBufHeader_def using h0 u0 l c(1) d hl0
    by (simp add: TIPv4Header_writeTxIpHeader_def Let_def blit_0 blit_behind)
  moreover have "cIPv4Payload_attachRxBuf ?p sz = Some (True, \<lparr>pl_packet = ?p, pl_header = ?h\<lparr>ipchksum := NOT d\<rparr>, pl_rawbuf = 20\<rparr>)"
    if "28 + unat n \<le> unat sz" for sz
  proof -
    have "unat (n + 28) = unat n + 28" using assms(2) by (subst unat_add_small) simp_all
    then have "\<not> sz < n + 28" using that by (simp add: word_less_nat_alt)
    then show ?thesis using i by (simp add: cIPv4Payload_attachRxBuf_def Let_def)
  qed
  moreover have "udp_header_at ?p 20 = Some (?u\<lparr>udpchksum := NOT c\<rparr>)" by (rule udp_header_at_bytes) simp
  moreover have "drop 28 ?p = drop 28 p" "length ?p = length p" using l by simp_all
  moreover have "rx_info_of \<lparr>pl_packet = ?p, pl_header = ?h\<lparr>ipchksum := NOT d\<rparr>, pl_rawbuf = 20\<rparr> (?u\<lparr>udpchksum := NOT c\<rparr>) =
      \<lparr>ri_size = n, ri_port = port, ri_peer_port = ntohs (u_lport (uip_udp_conn s)), ri_ip = dest, ri_peer_ip = u_lipaddr (uip_udp_conn s)\<rparr>"
    unfolding rx_info_of_def TIPv4Header_getHeaderLength_def by simp
  ultimately show ?thesis using t by (intro exI [of _ ?p] exI) (intro conjI, assumption, blast, simp_all)
qed


text \<open>
  C27: What one socket sends, another receives: the packet that \<open>psend\<close> builds around the data
  passes the tests of the receive path, and the receiving socket stores exactly the data, with the
  sender's address and port and the address and port it was sent to.
\<close>

theorem udp_datagram_delivered:
  assumes "28 + unat n \<le> length p" "unat n < 65508" "udp_inv r ds" "on_rx r = None"
    "14 + unat n \<le> fifo_room (u_rxbuf r)" "\<not> TIPv4Addr_isEqual dest TIPv4Addr_BROADCAST \<or> broadcast_on r"
  shows "\<exists>p' pl r'. setUdpTxBufHeader pid s p dest port 5 n = Some (pid + 1, p') \<and>
    cIPv4Payload_attachRxBuf p' (28 + n) = Some (True, pl) \<and> cIPv4Packet_isCorrectTcpCheckSum p' = Some True \<and>
    cMiMicIpUdpSocket_parseRx H (r, net) pl = Some (False, (r', net)) \<and>
    udp_inv r' (ds @ [(\<lparr>ri_size = n, ri_port = port, ri_peer_port = ntohs (u_lport (uip_udp_conn s)), ri_ip = dest,
      ri_peer_ip = u_lipaddr (uip_udp_conn s)\<rparr>, take (unat n) (drop 28 p))])"
proof -
  obtain p' h u where p': "setUdpTxBufHeader pid s p dest port 5 n = Some (pid + 1, p')"
    "\<And>sz. 28 + unat n \<le> unat sz \<Longrightarrow> cIPv4Payload_attachRxBuf p' sz = Some (True, \<lparr>pl_packet = p', pl_header = h, pl_rawbuf = 20\<rparr>)"
    "cIPv4Packet_isCorrectTcpCheckSum p' = Some True" "udp_header_at p' 20 = Some u" "drop 28 p' = drop 28 p"
    "rx_info_of \<lparr>pl_packet = p', pl_header = h, pl_rawbuf = 20\<rparr> u =
      \<lparr>ri_size = n, ri_port = port, ri_peer_port = ntohs (u_lport (uip_udp_conn s)), ri_ip = dest, ri_peer_ip = u_lipaddr (uip_udp_conn s)\<rparr>"
    using setUdpTxBufHeader_ok [OF assms(1,2), of pid s dest port] by blast
  let ?pl = "\<lparr>pl_packet = p', pl_header = h, pl_rawbuf = 20\<rparr>" and ?d = "rx_info_of \<lparr>pl_packet = p', pl_header = h, pl_rawbuf = 20\<rparr> u"
  have "unat (28 + n) = 28 + unat n" using assms(2) by (subst unat_add_small) simp_all
  then have a: "cIPv4Payload_attachRxBuf p' (28 + n) = Some (True, ?pl)" using p'(2) by simp
  have dest: "destipaddr h = dest" using p'(6) by (simp add: rx_info_of_def)
  have "unat (ri_size ?d) = unat n" unfolding p'(6) by simp
  moreover then have "unat (ri_size ?d) \<le> length (drop 28 p)" using assms(1) by simp
  ultimately obtain r' where r': "store_datagram r ?d (drop 28 p) = Some r'" "udp_inv r' (ds @ [(?d, take (unat n) (drop 28 p))])"
    using store_datagram_ok [OF assms(3), of ?d "drop 28 p"] assms(5) by auto
  have "\<not> (TIPv4Addr_isEqual (destipaddr (pl_header ?pl)) TIPv4Addr_BROADCAST \<and> \<not> broadcast_on (fst (r, net)))"
    using assms(6) by (simp add: dest)
  moreover have "udp_header_at (pl_packet ?pl) (pl_rawbuf ?pl) = Some u" "drop (pl_rawbuf ?pl + 8) (pl_packet ?pl) = drop 28 p"
    using p'(4,5) by simp_all
  ultimately have "cMiMicIpUdpSocket_parseRx H (r, net) ?pl = Some (False, (r', net))"
    unfolding cMiMicIpUdpSocket_parseRx_def using r'(1) assms(4) by (simp only: if_False) (simp add: Let_def)
  with a p'(1,3) r'(2) show ?thesis unfolding p'(6) by blast
qed

theorem udp_datagram_delivered_witness:
  "\<forall>H. \<exists>p' pl r'. setUdpTxBufHeader 1 demo_udp (replicate 28 0 @ [1, 2, 3, 0]) 0x0200a8c0 80 5 3 = Some (2, p') \<and>
    cIPv4Payload_attachRxBuf p' 31 = Some (True, pl) \<and>
    cMiMicIpUdpSocket_parseRx H (demo_udp, demo_net) pl = Some (False, (r', demo_net)) \<and>
    udp_inv r' [(\<lparr>ri_size = 3, ri_port = 80, ri_peer_port = 5353, ri_ip = 0x0200a8c0, ri_peer_ip = 0x0100a8c0\<rparr>, [1, 2, 3])]"
proof
  fix H
  have "on_rx demo_udp = None" "u_lport (uip_udp_conn demo_udp) = htons 5353" "u_lipaddr (uip_udp_conn demo_udp) = 0x0100a8c0"
    by (simp_all add: demo_udp_def)
  moreover have "\<not> TIPv4Addr_isEqual 0x0200a8c0 TIPv4Addr_BROADCAST"
    by (simp add: TIPv4Addr_isEqual_def TIPv4Addr_BROADCAST_def)
  ultimately show "\<exists>p' pl r'. setUdpTxBufHeader 1 demo_udp (replicate 28 0 @ [1, 2, 3, 0]) 0x0200a8c0 80 5 3 = Some (2, p') \<and>
    cIPv4Payload_attachRxBuf p' 31 = Some (True, pl) \<and>
    cMiMicIpUdpSocket_parseRx H (demo_udp, demo_net) pl = Some (False, (r', demo_net)) \<and>
    udp_inv r' [(\<lparr>ri_size = 3, ri_port = 80, ri_peer_port = 5353, ri_ip = 0x0200a8c0, ri_peer_ip = 0x0100a8c0\<rparr>, [1, 2, 3])]"
    using udp_datagram_delivered [of 3 "replicate 28 0 @ [1, 2, 3, 0]" demo_udp "[]" "0x0200a8c0" 1 demo_udp 80 H demo_net]
      demo_udp_inv demo_udp_room by auto
qed

text \<open>
  \<open>send\<close> writes past the end of its buffer: the size that \<open>allocSendBuf\<close> reports still counts
  the 28 header bytes, so data of more than the remaining length are accepted for the buffer.
\<close>

theorem udp_send_overflow:
  assumes "cMiMicIpNetIf_allocTxBuf n (of_int (i_len * 2) + 28) = Some (b, s, n')" "length (ip_at n' b) = unat s"
    "1 \<le> i_len" "i_len \<le> 1200" "i_len \<le> int (unat s)" "int (unat s) < i_len + 28"
  shows "udp_send now (u, n) i_addr i_port data i_len i_wait_in_msec env = None"
proof -
  let ?sw = "cStopwatch_startExpire now \<lparr>sw_tick = 0, ex_timeout = 0\<rparr> i_wait_in_msec"
  have "udp_alloc_loop ?sw (of_int (i_len * 2)) now (u, n) env = Some (Some (b, s), now, (u, n'), env)"
    using assms(1) by (subst udp_alloc_loop.simps) simp
  then have a: "udp_send_buf 3 None now (u, n) i_len i_wait_in_msec env = Some (Some (b, s), (u, n'), env)"
    using assms(5) by (simp add: numeral_3_eq_3 udp_allocSendBuf_def)
  have "unat s < 28 + nat i_len" using assms(3,6) by linarith
  then have "copy_at (ip_at n' b) 28 data 0 (nat i_len) = None" using assms(2) by (simp add: copy_at_def blit_def)
  then show ?thesis using a assms(3,4) by (simp add: udp_send_def)
qed

text \<open>The three large blocks are in use: data of 480 bytes get a block with a packet of 498.\<close>

definition busy_net :: netif where
  "busy_net = demo_net\<lparr>mm := fresh_mm\<lparr>buf_max := replicate 3 \<lparr>ref = 1, is_lock = False\<rparr>\<rparr>\<rparr>"

theorem udp_send_overflow_witness:
  "udp_send 0 (demo_udp, busy_net) 0x0200a8c0 80 (replicate 480 1) 480 1000 [] = None"
proof -
  have "map_option (\<lambda>(b, s, n'). (b, s)) (cMiMicIpNetIf_allocTxBuf busy_net (of_int (480 * 2) + 28)) = Some ((Buf512, 0), 498)"
    by code_simp
  then obtain n' where n': "cMiMicIpNetIf_allocTxBuf busy_net (of_int (480 * 2) + 28) = Some ((Buf512, 0), 498, n')" by auto
  then have "mem n' = mem busy_net" by (auto simp: cMiMicIpNetIf_allocTxBuf_def split: option.splits)
  then have "length (ip_at n' (Buf512, 0)) = unat (498 :: u16)" by (simp add: ip_at_def busy_net_def demo_net_def)
  then show ?thesis by (rule udp_send_overflow [OF n']) simp_all
qed

end
