(* ===== verification/TcpApi.thy ===== *)
theory TcpApi
  imports TcpListener
begin

text \<open>
  The calls of \<open>NyLPC_cMiMicIpTcpSocket.c\<close> that wait: connecting, accepting, reading, sending and closing.
  They work on the socket and the network interface (\<open>tcp_world\<close>); where they release the lock
  and let others run, the next entry of the script says what the others did and at which time the
  thread goes on (theory \<open>Stopwatch\<close>). What follows a wait without another one is one atomic step.
\<close>

unbundle bit_operations_syntax

abbreviation (input) "SIZE_OF_IPv4_TCPIP_HEADER \<equiv> (40 :: u16)"

type_synonym tcp_world = "tcp_socket \<times> netif"

text \<open>A call that waits returns its result, the time, the world and the rest of the script.\<close>

type_synonym 'a waits = "('a \<times> u32 \<times> tcp_world \<times> tcp_world script) option"

section \<open>Waiting for the queue\<close>

text \<open>The stopwatch is shared by the steps of a call and returned with the result.\<close>

fun getTxQ :: "u32 \<Rightarrow> stopwatch \<Rightarrow> tcp_world \<Rightarrow> tcp_world script \<Rightarrow> (nat option \<times> stopwatch) waits" where
  "getTxQ now i_timer w env =
     (if tcpstateflags (fst w) = UIP_CLOSED then Some ((None, i_timer), now, w, env)
      else if (q_wp (fst w) + 1) mod NUMBER_OF_TXQ = q_rp (fst w) then
        (case env of
           [] \<Rightarrow> None
         | (now', f) # env' \<Rightarrow>
             (let (e, i_timer) = cStopwatch_isExpired now' i_timer in
              if e then Some ((None, i_timer), now', f w, env') else getTxQ now' i_timer (f w) env'))
      else Some ((Some (q_wp (fst w)), i_timer), now, ((fst w)\<lparr>q_wp := (q_wp (fst w) + 1) mod NUMBER_OF_TXQ\<rparr>, snd w), env))"

fun waitForTxRemove :: "u32 \<Rightarrow> stopwatch \<Rightarrow> u32 \<Rightarrow> tcp_world \<Rightarrow> tcp_world script \<Rightarrow> (bool \<times> stopwatch) waits" where
  "waitForTxRemove now i_timer i_sq w env =
     (case isPacketAcked (fst w) i_sq of
        None \<Rightarrow> None
      | Some True \<Rightarrow> Some ((tcpstateflags (fst w) \<noteq> UIP_CLOSED, i_timer), now, w, env)
      | Some False \<Rightarrow>
          (case env of
             [] \<Rightarrow> None
           | (now', f) # env' \<Rightarrow>
               (let (e, i_timer) = cStopwatch_isExpired now' i_timer in
                if e then Some ((False, i_timer), now', f w, env') else waitForTxRemove now' i_timer i_sq (f w) env')))"

section \<open>Sending with retransmission\<close>

text \<open>The first loop has no wait of its own; others run when the thread is preempted.\<close>

fun alloc_tx_loop :: "u32 \<Rightarrow> stopwatch \<Rightarrow> u16 \<Rightarrow> tcp_world \<Rightarrow> tcp_world script \<Rightarrow> ((block \<times> u16) option \<times> stopwatch) waits" where
  "alloc_tx_loop now i_timer i_size w env =
     (case cMiMicIpNetIf_allocTxBuf (snd w) i_size of
        Some (b, s, n) \<Rightarrow> Some ((Some (b, s), i_timer), now, (fst w, n), env)
      | None \<Rightarrow>
          (let (e, i_timer) = cStopwatch_isExpired now i_timer in
           if e then Some ((None, i_timer), now, w, env)
           else (case env of
               [] \<Rightarrow> None
             | (now', f) # env' \<Rightarrow> alloc_tx_loop now' i_timer i_size (f w) env')))"

fun wait_window :: "u32 \<Rightarrow> stopwatch \<Rightarrow> tcp_world \<Rightarrow> tcp_world script \<Rightarrow> (bool \<times> stopwatch) waits" where
  "wait_window now i_timer w env =
     (if peer_win (conn (fst w)) \<noteq> 0 then Some ((True, i_timer), now, w, env)
      else (let (e, i_timer) = cStopwatch_isExpired now i_timer in
        if e then Some ((False, i_timer), now, w, env)
        else (case env of
            [] \<Rightarrow> None
          | (now', f) # env' \<Rightarrow> wait_window now' i_timer (f w) env')))"

text \<open>The number of bytes a segment may carry: the buffer, the peer's segment size and window.\<close>

definition send_size :: "uip_conn \<Rightarrow> u16 \<Rightarrow> u16" where
  "send_size c s = (let s = s - SIZE_OF_IPv4_TCPIP_HEADER; s = (if peer_mss c < s then peer_mss c else s) in
     if peer_win c < s then peer_win c else s)"

definition put_txq :: "tcp_socket \<Rightarrow> nat \<Rightarrow> txq_item \<Rightarrow> tcp_socket" where
  "put_txq s i q = s\<lparr>txq := (txq s)[i := q]\<rparr>"

definition sendWithRetransmit ::
  "u32 \<Rightarrow> stopwatch \<Rightarrow> u8 \<Rightarrow> u8 list option \<Rightarrow> u16 \<Rightarrow> tcp_world \<Rightarrow> tcp_world script \<Rightarrow> (int \<times> u32 \<times> stopwatch) waits" where
  "sendWithRetransmit now i_timer i_tcpf i_buf i_len w env = do {
     ((r, i_timer), now, w, env) \<leftarrow> alloc_tx_loop now i_timer (i_len + SIZE_OF_IPv4_TCPIP_HEADER) w env;
     (case r of
        None \<Rightarrow> Some ((- 1, 0, i_timer), now, w, env)
      | Some (buf, sz) \<Rightarrow> do {
          ((ok, i_timer), now, w, env) \<leftarrow> (if i_len > 0 then wait_window now i_timer w env else Some ((True, i_timer), now, w, env));
          if \<not> ok then Some ((- 1, 0, i_timer), now, w, env)
          else do {
            ((r, i_timer), now, w, env) \<leftarrow> getTxQ now i_timer w env;
            (case r of
               None \<Rightarrow> Some ((- 1, 0, i_timer), now, (fst w, cMiMicIpNetIf_releaseTxBuf (snd w) buf), env)
             | Some i \<Rightarrow> do {
                 let (s, n) = w;
                 let sz = send_size (conn s) sz;
                 let sz = (if i_len < sz then i_len else sz);
                 let next_ack = snd_nxt32 (conn s) + ucast sz + (if i_tcpf AND (TCP_FIN OR TCP_SYN) \<noteq> 0 then 1 else 0);
                 (pid, p) \<leftarrow> setTxPacket (ip_pid n) (cFifoBuffer_getSpace (rxbuf s)) (conn s) (ip_at n buf) i_tcpf i_buf sz;
                 let n = put_ip (n\<lparr>ip_pid := pid\<rparr>) buf p;
                 let s = put_txq s i \<lparr>tick_of_sent = now, rto32 = current_rto32 (conn s), packet = Some buf, txq_ackno = htonl next_ack\<rparr>;
                 let s = s\<lparr>conn := (conn s)\<lparr>snd_nxt32 := next_ack, peer_win := peer_win (conn s) - sz\<rparr>\<rparr>;
                 n \<leftarrow> cMiMicIpNetIf_sendIPv4Tx n buf;
                 Some ((int (unat sz), htonl next_ack, i_timer), now, (s, n), env) }) } }) }"

section \<open>Opening\<close>

text \<open>Closing by force: the end of the calls that give up.\<close>

definition force_close :: "tcp_world \<Rightarrow> tcp_world option" where
  "force_close w =
     (if tcpstateflags (fst w) \<noteq> UIP_CLOSED then sendRst (set_state UIP_CLOSED (fst w)) (snd w) else Some w)"

text \<open>
  Sending a segment and waiting until it is acknowledged; after the segment is queued, others run
  once before the queue is looked at.
\<close>

definition send_and_wait :: "u32 \<Rightarrow> stopwatch \<Rightarrow> u8 \<Rightarrow> tcp_world \<Rightarrow> tcp_world script \<Rightarrow> (bool \<times> stopwatch) waits" where
  "send_and_wait now sw i_tcpf w env = do {
     ((r, sq, sw), now, w, env) \<leftarrow> sendWithRetransmit now sw i_tcpf None 0 w env;
     if r = 0 then
       (case env of
          [] \<Rightarrow> None
        | (now', f) # env' \<Rightarrow> waitForTxRemove now' sw sq (f w) env')
     else Some ((False, sw), now, w, env) }"

definition open_connection :: "u32 \<Rightarrow> u32 \<Rightarrow> u8 \<Rightarrow> tcp_world \<Rightarrow> tcp_world script \<Rightarrow> bool waits" where
  "open_connection now i_wait_in_msec i_tcpf w env = do {
     ((ok, sw), now, w, env) \<leftarrow> send_and_wait now (cStopwatch_startExpire now \<lparr>sw_tick = 0, ex_timeout = 0\<rparr> i_wait_in_msec) i_tcpf w env;
     if ok then Some (True, now, w, env)
     else do { w \<leftarrow> force_close w; Some (False, now, w, env) } }"

text \<open>The argument \<open>port\<close> is what \<open>NyLPC_cIPv4_getNewPortNumber\<close> returned.\<close>

definition connect :: "u32 \<Rightarrow> u16 \<Rightarrow> tcp_world \<Rightarrow> ipv4_addr \<Rightarrow> u16 \<Rightarrow> u32 \<Rightarrow> tcp_world script \<Rightarrow> bool waits" where
  "connect now port w i_addr i_peer_port i_wait_in_msec env =
     (let (s, n) = w in
      if tcpstateflags s \<noteq> UIP_CLOSED \<or> htons port = 0 then Some (False, now, w, env)
      else do {
        let s = s\<lparr>conn := (conn s)\<lparr>current_rto32 := UIP_TCP_RTO_CONNECTION_INITIAL, lport := htons port, rport := htons i_peer_port,
              ripaddr := i_addr, snd_nxt32 := iss32, rcv_nxt32 := 0, peer_mss := own_mss (conn s), peer_win := 1\<rparr>,
            rxbuf := cFifoBuffer_clear (rxbuf s), tcpstateflags := UIP_SYN_SENT\<rparr>;
        w \<leftarrow> (if q_rp s \<noteq> q_wp s then resetTxQWithUnlock s n else Some (s, n));
        open_connection now i_wait_in_msec TCP_SYN w env })"

definition accept :: "u32 \<Rightarrow> tcp_world \<Rightarrow> u32 \<Rightarrow> tcp_world script \<Rightarrow> bool waits" where
  "accept now w i_wait_in_msec env =
     (if tcpstateflags (fst w) = UIP_ESTABLISHED then Some (True, now, w, env)
      else if tcpstateflags (fst w) \<noteq> UIP_SYN_RCVD then Some (False, now, w, env)
      else open_connection now i_wait_in_msec (TCP_SYN OR TCP_ACK) w env)"

section \<open>Reading\<close>

fun precv_loop :: "u32 \<Rightarrow> stopwatch \<Rightarrow> u32 \<Rightarrow> tcp_world \<Rightarrow> tcp_world script \<Rightarrow> (int \<times> u8 list) waits" where
  "precv_loop now sw i_wait_msec w env =
     (case precv_poll (fst w) of
        Some r \<Rightarrow> Some (r, now, w, env)
      | None \<Rightarrow>
          (case env of
             [] \<Rightarrow> None
           | (now', f) # env' \<Rightarrow>
               if cStopwatch_elapseInMsec now' sw < i_wait_msec then precv_loop now' sw i_wait_msec (f w) env'
               else Some ((0, cFifoBuffer_getPtr (rxbuf (fst w))), now', f w, env')))"

definition precv :: "u32 \<Rightarrow> tcp_world \<Rightarrow> u32 \<Rightarrow> tcp_world script \<Rightarrow> (int \<times> u8 list) waits" where
  "precv now w i_wait_msec env =
     precv_loop now (cStopwatch_setNow now \<lparr>sw_tick = 0, ex_timeout = 0\<rparr>) i_wait_msec w env"

section \<open>Sending\<close>

fun alloc_send_loop :: "u32 \<Rightarrow> stopwatch \<Rightarrow> u16 \<Rightarrow> tcp_world \<Rightarrow> tcp_world script \<Rightarrow> ((block \<times> u16) option \<times> stopwatch) waits" where
  "alloc_send_loop now sw i_size w env =
     (if tcpstateflags (fst w) \<noteq> UIP_ESTABLISHED then Some ((None, sw), now, w, env)
      else (case cMiMicIpNetIf_allocTxBuf (snd w) i_size of
        Some (b, s, n) \<Rightarrow> Some ((Some (b, s), sw), now, (fst w, n), env)
      | None \<Rightarrow>
          (let (e, sw) = cStopwatch_isExpired now sw in
           if e then Some ((None, sw), now, w, env)
           else (case env of
               [] \<Rightarrow> None
             | (now', f) # env' \<Rightarrow> alloc_send_loop now' sw i_size (f w) env'))))"

fun wait_send_window :: "u32 \<Rightarrow> stopwatch \<Rightarrow> tcp_world \<Rightarrow> tcp_world script \<Rightarrow> (bool \<times> stopwatch) waits" where
  "wait_send_window now sw w env =
     (if peer_win (conn (fst w)) \<noteq> 0 then Some ((True, sw), now, w, env)
      else (let (e, sw) = cStopwatch_isExpired now sw in
        if e \<or> tcpstateflags (fst w) \<noteq> UIP_ESTABLISHED then Some ((False, sw), now, w, env)
        else (case env of
            [] \<Rightarrow> None
          | (now', f) # env' \<Rightarrow> wait_send_window now' sw (f w) env')))"

text \<open>The result is the block, whose data begin behind the 40 header bytes, and the number of bytes.\<close>

definition allocSendBuf :: "u32 \<Rightarrow> tcp_world \<Rightarrow> u16 \<Rightarrow> u32 \<Rightarrow> tcp_world script \<Rightarrow> (block \<times> u16) option waits" where
  "allocSendBuf now w i_hint i_wait_in_msec env = do {
     ((r, sw), now, w, env) \<leftarrow> alloc_send_loop now (cStopwatch_startExpire now \<lparr>sw_tick = 0, ex_timeout = 0\<rparr> i_wait_in_msec)
         (i_hint + SIZE_OF_IPv4_TCPIP_HEADER) w env;
     (case r of
        None \<Rightarrow> Some (None, now, w, env)
      | Some (buf, s) \<Rightarrow> do {
          ((ok, sw), now, w, env) \<leftarrow> wait_send_window now sw w env;
          if ok then Some (Some (buf, send_size (conn (fst w)) s), now, w, env)
          else Some (None, now, (fst w, cMiMicIpNetIf_releaseTxBuf (snd w) buf), env) }) }"

definition releaseSendBuf :: "tcp_world \<Rightarrow> block \<Rightarrow> tcp_world" where
  "releaseSendBuf w b = (fst w, cMiMicIpNetIf_releaseTxBuf (snd w) b)"

definition psend :: "u32 \<Rightarrow> tcp_world \<Rightarrow> block \<Rightarrow> int \<Rightarrow> u32 \<Rightarrow> tcp_world script \<Rightarrow> bool waits" where
  "psend now w b i_len i_wait_in_msec env =
     (if tcpstateflags (fst w) \<noteq> UIP_ESTABLISHED then Some (False, now, w, env)
      else if i_len < 1 then Some (True, now, releaseSendBuf w b, env)
      else do {
        ((r, sw), now, w, env) \<leftarrow> getTxQ now (cStopwatch_startExpire now \<lparr>sw_tick = 0, ex_timeout = 0\<rparr> i_wait_in_msec) w env;
        (case r of
           None \<Rightarrow> Some (False, now, w, env)
         | Some i \<Rightarrow> do {
             let (s, n) = w;
             (pid, p) \<leftarrow> setTxPacketHeader (ip_pid n) (cFifoBuffer_getSpace (rxbuf s)) (conn s) (ip_at n b) (TCP_ACK OR TCP_PSH) (of_int i_len);
             let n = put_ip (n\<lparr>ip_pid := pid\<rparr>) b p;
             let next_ack = snd_nxt32 (conn s) + of_int i_len;
             let s = put_txq s i \<lparr>tick_of_sent = now, rto32 = current_rto32 (conn s), packet = Some b, txq_ackno = htonl next_ack\<rparr>;
             let s = s\<lparr>conn := (conn s)\<lparr>snd_nxt32 := next_ack, peer_win := peer_win (conn s) - of_int i_len\<rparr>\<rparr>;
             n \<leftarrow> cMiMicIpNetIf_sendIPv4Tx n b;
             Some (True, now, (s, n), env) }) })"

definition send :: "u32 \<Rightarrow> tcp_world \<Rightarrow> u8 list \<Rightarrow> int \<Rightarrow> u32 \<Rightarrow> tcp_world script \<Rightarrow> int waits" where
  "send now w i_buf_ptr i_len i_wait_in_msec env =
     (if i_len < 1 then Some (0, now, w, env)
      else do {
        let hint = (if i_len > 32767 then 32767 else i_len);
        (r, now, w, env) \<leftarrow> allocSendBuf now w (of_int hint) i_wait_in_msec env;
        (case r of
           None \<Rightarrow> Some (- 1, now, w, env)
         | Some (b, s) \<Rightarrow> do {
             let s = (if int (unat s) < i_len then s else of_int i_len);
             p \<leftarrow> copy_at (ip_at (snd w) b) 40 i_buf_ptr 0 (unat s);
             (ok, now, w, env) \<leftarrow> psend now (fst w, put_ip (snd w) b p) b (int (unat s)) i_wait_in_msec env;
             if ok then Some (int (unat s), now, w, env)
             else Some (- 1, now, releaseSendBuf w b, env) }) })"

section \<open>Closing\<close>

text \<open>
  Waiting for the end of an active close. In a state the switch does not name the loop goes round
  with the lock held, so that only time passes. The result tells whether the socket is closed.
\<close>

fun close_wait :: "u32 \<Rightarrow> stopwatch \<Rightarrow> tcp_world \<Rightarrow> tcp_world script \<Rightarrow> bool waits" where
  "close_wait now sw w env =
     (let st = tcpstateflags (fst w) in
      if st = UIP_TIME_WAIT then Some (True, now, (set_state UIP_CLOSED (fst w), snd w), env)
      else if st = UIP_CLOSED then Some (True, now, w, env)
      else (case env of
          [] \<Rightarrow> None
        | (now', f) # env' \<Rightarrow>
            (let w = (if st \<in> {UIP_FIN_WAIT_1, UIP_FIN_WAIT_2, UIP_CLOSING} then f w else w);
                 (e, sw) = cStopwatch_isExpired now' sw in
             if e then Some (False, now', w, env') else close_wait now' sw w env')))"

definition close :: "u32 \<Rightarrow> tcp_world \<Rightarrow> u32 \<Rightarrow> tcp_world script \<Rightarrow> unit waits" where
  "close now w i_wait_in_msec env =
     (let sw = cStopwatch_startExpire now \<lparr>sw_tick = 0, ex_timeout = 0\<rparr> i_wait_in_msec; st = tcpstateflags (fst w) in
      if st = UIP_CLOSED then Some ((), now, w, env)
      else do {
        (done, now, w, env) \<leftarrow>
          (if st = UIP_ESTABLISHED then do {
             ((ok, sw), now, w, env) \<leftarrow> send_and_wait now sw (TCP_FIN OR TCP_ACK) (set_state UIP_FIN_WAIT_1 (fst w), snd w) env;
             if ok then close_wait now sw w env else Some (False, now, w, env) }
           else if st = UIP_CLOSE_WAIT then do {
             ((ok, sw), now, w, env) \<leftarrow> send_and_wait now sw (TCP_FIN OR TCP_ACK) (set_state UIP_LAST_ACK (fst w), snd w) env;
             Some (ok \<and> tcpstateflags (fst w) = UIP_CLOSED, now, w, env) }
           else Some (False, now, w, env));
        if done then Some ((), now, w, env)
        else do { w \<leftarrow> force_close w; Some ((), now, w, env) } })"

text \<open>The loops are unfolded one turn at a time.\<close>

lemmas api_loops = getTxQ.simps waitForTxRemove.simps alloc_tx_loop.simps wait_window.simps precv_loop.simps
  alloc_send_loop.simps wait_send_window.simps close_wait.simps

declare api_loops [simp del]

end
