(* ===== verification/TcpCalls.thy ===== *)
theory TcpCalls
  imports TcpApi
begin

text \<open>
  What the waiting calls of the TCP socket promise: closing always ends in the closed state, a call
  that gives up leaves no half-open connection, data are sent within the peer's window and segment
  size, and reading comes back in time.
\<close>

unbundle bit_operations_syntax

section \<open>Giving up\<close>

lemma sendRst_closed: "sendRst s n = Some (s', n') \<Longrightarrow> tcpstateflags s' = tcpstateflags s"
  by (auto simp: sendRst_def Let_def split: Option.bind_splits)

lemma force_close_closed: "force_close w = Some w' \<Longrightarrow> tcpstateflags (fst w') = UIP_CLOSED"
  by (cases w') (auto simp: force_close_def set_state_def dest!: sendRst_closed split: if_splits)

lemma close_wait_closed: "close_wait now sw w env = Some (True, now', w', env') \<Longrightarrow> tcpstateflags (fst w') = UIP_CLOSED"
  by (induction now sw w env rule: close_wait.induct)
    (subst (asm) close_wait.simps, auto simp: Let_def set_state_def split: if_splits list.splits prod.splits)

text \<open>
  C34: However long the peer takes and whatever the other threads do meanwhile: when \<open>close\<close> returns, the
  socket is closed.
\<close>

theorem close_closes:
  assumes "close now w i_wait_in_msec env = Some ((), now', w', env')"
  shows "tcpstateflags (fst w') = UIP_CLOSED"
  using assms unfolding close_def
  by (auto simp: Let_def split: if_splits Option.bind_splits prod.splits dest: close_wait_closed force_close_closed)

lemma waitForTxRemove_open:
  "waitForTxRemove now sw sq w env = Some ((True, sw'), now', w', env') \<Longrightarrow>
     tcpstateflags (fst w') \<noteq> UIP_CLOSED \<and> isPacketAcked (fst w') sq = Some True"
  by (induction now sw sq w env rule: waitForTxRemove.induct)
    (subst (asm) waitForTxRemove.simps, auto simp: Let_def split: if_splits list.splits option.splits bool.splits prod.splits)

lemma open_connection_outcome:
  assumes "open_connection now t f w env = Some (ok, now', w', env')"
  shows "tcpstateflags (fst w') = UIP_CLOSED \<longleftrightarrow> \<not> ok"
  using assms unfolding open_connection_def send_and_wait_def
  by (auto split: if_splits Option.bind_splits prod.splits list.splits dest: waitForTxRemove_open force_close_closed)

text \<open>
  C35: The calls that open a connection tell the truth about the socket: it is closed afterwards exactly when \<open>connect\<close> on a closed
  socket, or \<open>accept\<close> on a half-open one, says that it failed.
\<close>

theorem open_outcome:
  "(connect now port w addr pport t env = Some (ok, now', w', env') \<and> tcpstateflags (fst w) = UIP_CLOSED \<longrightarrow>
      (tcpstateflags (fst w') = UIP_CLOSED \<longleftrightarrow> \<not> ok)) \<and>
    (accept now w t env = Some (ok, now', w', env') \<and> tcpstateflags (fst w) = UIP_SYN_RCVD \<longrightarrow>
      (tcpstateflags (fst w') = UIP_CLOSED \<longleftrightarrow> \<not> ok))"
  by (auto simp: connect_def accept_def Let_def split: if_splits Option.bind_splits prod.splits dest: open_connection_outcome)

section \<open>Reading in time\<close>

definition reads_buffer :: "int \<times> u8 list \<Rightarrow> tcp_world \<Rightarrow> bool" where
  "reads_buffer r w \<longleftrightarrow> - 1 \<le> fst r \<and>
     (0 < fst r \<longrightarrow> r = (int (unat (cFifoBuffer_getLength (rxbuf (fst w)))), cFifoBuffer_getPtr (rxbuf (fst w))))"

lemma precv_poll_reads: "precv_poll (fst w) = Some r \<Longrightarrow> reads_buffer r w"
  using order_trans [of "- 1" 0 "uint (cFifoBuffer_getLength (rxbuf (fst w)))"]
  by (auto simp: precv_poll_def reads_buffer_def Let_def split: if_splits)

lemma precv_loop_returns:
  "\<exists>e\<in>set env. i_wait_msec \<le> fst e - sw_tick sw \<Longrightarrow> \<exists>r. precv_loop now sw i_wait_msec w env = Some r"
proof (induction env arbitrary: now w)
  case (Cons e env)
  obtain now' f where e: "e = (now', f)" by (cases e)
  show ?case
  proof (cases "now' - sw_tick sw < i_wait_msec")
    case True
    then have "\<exists>e\<in>set env. i_wait_msec \<le> fst e - sw_tick sw" using Cons.prems e by auto
    then show ?thesis using Cons.IH e by (simp add: precv_loop.simps cStopwatch_elapseInMsec_def split: option.split)
  qed (simp add: precv_loop.simps cStopwatch_elapseInMsec_def e split: option.split)
qed simp

lemma precv_loop_reads:
  "precv_loop now sw i_wait_msec w env = Some (r, now', w', env') \<Longrightarrow> reads_buffer r w'"
proof (induction env arbitrary: now w)
  case Nil
  then show ?case by (auto simp: precv_loop.simps dest: precv_poll_reads split: option.splits)
next
  case (Cons e env)
  obtain t f where e: "e = (t, f)" by (cases e)
  show ?case
  proof (cases "precv_poll (fst w)")
    case None
    then show ?thesis using Cons.prems Cons.IH [of t "f w"] e
      by (auto simp: precv_loop.simps [of now] reads_buffer_def split: if_splits)
  next
    case (Some q)
    then have "r = q" "w' = w" using Cons.prems by (auto simp: precv_loop.simps)
    then show ?thesis using precv_poll_reads Some by simp
  qed
qed

text \<open>
  C36: Reading comes back: at the latest when the thread runs again after the time is over, with data,
  with 0 for the time-out, or with -1 when the connection takes no more data.
\<close>

theorem precv_returns:
  assumes "e \<in> set env" "i_wait_msec \<le> fst e - now"
  shows "\<exists>m p w' now' env'. precv now w i_wait_msec env = Some ((m, p), now', w', env') \<and> - 1 \<le> m \<and>
    (0 < m \<longrightarrow> m = int (unat (cFifoBuffer_getLength (rxbuf (fst w')))) \<and> p = cFifoBuffer_getPtr (rxbuf (fst w')))"
proof -
  have "\<exists>e\<in>set env. i_wait_msec \<le> fst e - sw_tick (cStopwatch_setNow now \<lparr>sw_tick = 0, ex_timeout = 0\<rparr>)"
    using assms by (auto simp: cStopwatch_setNow_def)
  from precv_loop_returns [OF this] obtain m p now' w' env' where r: "precv now w i_wait_msec env = Some ((m, p), now', w', env')"
    unfolding precv_def by (metis prod.exhaust)
  from precv_loop_reads [OF this [unfolded precv_def]] show ?thesis
    using r by (auto simp: reads_buffer_def)
qed

section \<open>Sending within the window\<close>

lemma send_size_bounds:
  "send_size c k \<le> peer_win c" "send_size c k \<le> peer_mss c" "send_size c k \<le> k - 40"
  by (auto simp: send_size_def Let_def)

lemma carries_header:
  assumes "carries p c f w k xs"
  obtains h where "ipv4_header_at p = Some h" "destipaddr h = ripaddr c" "proto h = UIP_PROTO_TCP"
    "unat (ntohs (len16 h)) = 40 + 4 * k + length xs" "40 + 4 * k + length xs \<le> length p"
proof -
  obtain h where h: "\<forall>sz. 40 + 4 * k + length xs \<le> unat sz \<longrightarrow>
        cIPv4Payload_attachRxBuf p sz = Some (True, \<lparr>pl_packet = p, pl_header = h, pl_rawbuf = 20\<rparr>)"
    "destipaddr h = ripaddr c" "proto h = UIP_PROTO_TCP" "unat (ntohs (len16 h)) = 40 + 4 * k + length xs" "40 + 4 * k + length xs \<le> length p"
    using assms unfolding carries_def by blast
  have "unat (0xffff :: u16) = 65535" by simp
  then have "cIPv4Payload_attachRxBuf p 0xffff = Some (True, \<lparr>pl_packet = p, pl_header = h, pl_rawbuf = 20\<rparr>)"
    using h(1,4) unat_u16_less [of "ntohs (len16 h)"] by (auto simp: less_Suc_eq_le)
  then have "ipv4_header_at p = Some h"
    by (auto simp: cIPv4Payload_attachRxBuf_def Let_def split: Option.bind_splits if_splits)
  then show ?thesis using that h by blast
qed

lemma sendIPv4Tx_segment:
  assumes "carries (ip_at n b) c f w k xs" "eth_destination n (ripaddr c) = Some d" "eth_wf d" "eth_wf (eth_mac (net_cfg n))"
    "can_send n b" "40 + 4 * k + length xs \<le> 1522" "14 + (40 + 4 * k + length xs) \<le> length (mem n b)"
  shows "\<exists>n'. cMiMicIpNetIf_sendIPv4Tx n b = Some n' \<and> ip_at n' b = ip_at n b \<and>
    wire n' = wire n @ [d @ eth_mac (net_cfg n) @ half_bytes (HTONS ETH_TYPE_IP) @ take (40 + 4 * k + length xs) (ip_at n b)]"
proof -
  obtain h where h: "ipv4_header_at (ip_at n b) = Some h" "destipaddr h = ripaddr c" "proto h = UIP_PROTO_TCP"
    "unat (ntohs (len16 h)) = 40 + 4 * k + length xs"
    using carries_header [OF assms(1)] by metis
  have "proto h \<in> {UIP_PROTO_TCP, UIP_PROTO_UDP, UIP_PROTO_ICMP}" using h(3) by simp
  from sendIPv4Tx_sent [OF h(1) _ this assms(3,4,5)] show ?thesis
    using assms(2,6,7) h(2,4) by simp
qed

text \<open>
  C33: Sending data on an established connection: as many bytes go out as fit into the buffer, the peer's segment
  size and its window, in one frame that carries the first of the data under the next sequence
  number; the segment is queued for retransmission, the number grows and the window shrinks by
  what was sent.
\<close>

theorem send_segment:
  assumes "tcpstateflags s = UIP_ESTABLISHED" "1 \<le> i_len" "i_len \<le> int (length data)"
    "q_wp s < NUMBER_OF_TXQ" "length (txq s) = NUMBER_OF_TXQ" "next_idx (q_wp s) \<noteq> q_rp s"
    "cMiMicIpNetIf_allocTxBuf n (of_int (min i_len 32767) + 40) = Some (b, sz, n1)" "40 \<le> sz" "length (mem n1 b) = 14 + unat sz" "sz \<le> 1522"
    "k = min (nat i_len) (unat (send_size (conn s) sz))" "0 < k" "peer_win (conn s) \<noteq> 0"
    "eth_destination n1 (ripaddr (conn s)) = Some d" "eth_wf d" "eth_wf (eth_mac (net_cfg n1))" "can_send n1 b"
  shows "\<exists>s' n' p. send now (s, n) data i_len t env = Some (int k, now, (s', n'), env) \<and>
    carries p (conn s) (TCP_ACK OR TCP_PSH) (cFifoBuffer_getSpace (rxbuf s)) 0 (take k data) \<and>
    wire n' = wire n1 @ [d @ eth_mac (net_cfg n1) @ half_bytes (HTONS ETH_TYPE_IP) @ take (40 + k) p] \<and> ip_at n' b = p \<and>
    snd_nxt32 (conn s') = snd_nxt32 (conn s) + of_nat k \<and> k \<le> unat (peer_win (conn s)) \<and> k \<le> unat (peer_mss (conn s)) \<and>
    unat (peer_win (conn s')) = unat (peer_win (conn s)) - k \<and>
    q_wp s' = next_idx (q_wp s) \<and> packet (txq s' ! q_wp s) = Some b \<and> txq_ackno (txq s' ! q_wp s) = htonl (snd_nxt32 (conn s'))"
proof -
  let ?z = "send_size (conn s) sz"
  have z: "unat ?z \<le> unat (peer_win (conn s))" "unat ?z \<le> unat (peer_mss (conn s))" "unat ?z \<le> unat sz - 40"
    using send_size_bounds [of "conn s" sz] assms(8) by (simp_all add: word_le_nat_alt unat_sub)
  define q where "q = (if int (unat ?z) < i_len then ?z else of_int i_len :: u16)"
  have uk: "unat q = k"
  proof (cases "int (unat ?z) < i_len")
    case False
    then have "nat i_len \<le> unat ?z" by linarith
    moreover have "(of_int i_len :: u16) = of_nat (nat i_len)" using assms(2) by simp
    ultimately show ?thesis using False assms(11) of_nat_u16_le [of "nat i_len" ?z] by (simp add: q_def)
  next
    case True
    then have "unat ?z \<le> nat i_len" by linarith
    then show ?thesis using True assms(11) by (simp add: q_def min_absorb2)
  qed
  have kd: "k \<le> length data" using assms(3,11) by linarith
  have ks: "40 + k \<le> unat sz" using assms(8,11) z(3) by (simp add: word_le_nat_alt)
  have ip: "length (ip_at n1 b) = unat sz" using assms(9) by (simp add: ip_at_def)
  have hint: "(if i_len > 32767 then 32767 else i_len) = min i_len 32767" by auto
  have al: "allocSendBuf now (s, n) (of_int (min i_len 32767)) t env = Some (Some (b, ?z), now, (s, n1), env)"
    using assms(1,7,13) by (simp add: allocSendBuf_def alloc_send_loop.simps wait_send_window.simps)
  obtain p0 where p0: "copy_at (ip_at n1 b) 40 data 0 k = Some p0" "length p0 = unat sz" "take k (drop 40 p0) = take k data"
    using kd ks ip by (auto simp: copy_at_def blit_def)
  let ?n2 = "put_ip n1 b p0"
  have l14: "14 \<le> length (mem n1 b)" using assms(9) by simp
  have ip2: "ip_at ?n2 b = p0" using ip_at_put [OF l14] by simp
  have "40 + unat q < 65536" "40 + unat q \<le> length p0" using uk ks p0(2) unat_u16_less [of sz] by linarith+
  from setTxPacketHeader_carries [OF this, of "ip_pid n1" "cFifoBuffer_getSpace (rxbuf s)" "conn s" "TCP_ACK OR TCP_PSH"]
  obtain p where p: "setTxPacketHeader (ip_pid n1) (cFifoBuffer_getSpace (rxbuf s)) (conn s) p0 (TCP_ACK OR TCP_PSH) q = Some (ip_pid n1 + 1, p)"
    "carries p (conn s) (TCP_ACK OR TCP_PSH) (cFifoBuffer_getSpace (rxbuf s)) 0 (take k data)" "length p = unat sz"
    using uk p0(2,3) by auto
  let ?n3 = "put_ip (?n2\<lparr>ip_pid := ip_pid n1 + 1\<rparr>) b p"
  have ip3: "ip_at ?n3 b = p" using l14 by (intro ip_at_put) (simp add: put_ip_def)
  have same: "wire ?n3 = wire n1" "net_cfg ?n3 = net_cfg n1" "can_send ?n3 b = can_send n1 b" "eth_destination ?n3 a = eth_destination n1 a" for a
    by (simp_all add: put_ip_def can_send_def eth_destination_def)
  have lk: "length (take k data) = k" using kd by simp
  have "14 + (40 + 4 * 0 + length (take k data)) \<le> length (mem ?n3 b)" using l14 ks p(3) lk by (simp add: put_ip_def)
  moreover have "40 + 4 * 0 + length (take k data) \<le> 1522" using ks assms(10) lk by (simp add: word_le_nat_alt)
  ultimately obtain n' where n': "cMiMicIpNetIf_sendIPv4Tx ?n3 b = Some n'" "ip_at n' b = p"
    "wire n' = wire n1 @ [d @ eth_mac (net_cfg n1) @ half_bytes (HTONS ETH_TYPE_IP) @ take (40 + k) p]"
    using sendIPv4Tx_segment [of ?n3 b "conn s" "TCP_ACK OR TCP_PSH" "cFifoBuffer_getSpace (rxbuf s)" 0 "take k data" d]
      p(2) ip3 same assms(14-17) lk by auto
  let ?nx = "snd_nxt32 (conn s) + of_nat k"
  let ?s = "put_txq (s\<lparr>q_wp := next_idx (q_wp s)\<rparr>) (q_wp s) \<lparr>tick_of_sent = now, rto32 = current_rto32 (conn s), packet = Some b, txq_ackno = htonl ?nx\<rparr>"
  let ?s' = "?s\<lparr>conn := (conn s)\<lparr>snd_nxt32 := ?nx, peer_win := peer_win (conn s) - q\<rparr>\<rparr>"
  have getq: "getTxQ now sw (s, ?n2) env = Some ((Some (q_wp s), sw), now, (s\<lparr>q_wp := next_idx (q_wp s)\<rparr>, ?n2), env)" for sw
    using assms(1,6) by (simp add: getTxQ.simps next_idx_def)
  have qk: "(of_int (int (unat q)) :: u16) = q" "(of_int (int (unat q)) :: u32) = of_nat k" "1 \<le> int (unat q)" using uk assms(12) by auto
  have "ip_pid ?n2 = ip_pid n1" by (simp add: put_ip_def)
  then have ps: "psend now (s, ?n2) b (int (unat q)) t env = Some (True, now, (?s', n'), env)"
    unfolding psend_def fst_conv snd_conv getq qk using assms(1) qk(3) p(1) n'(1) ip2
    by (simp add: put_txq_def Let_def)
  have "send now (s, n) data i_len t env = Some (int k, now, (?s', n'), env)"
  proof -
    have "send now (s, n) data i_len t env = do {
        p \<leftarrow> copy_at (ip_at n1 b) 40 data 0 (unat q);
        (ok, now, w, env) \<leftarrow> psend now (s, put_ip n1 b p) b (int (unat q)) t env;
        if ok then Some (int (unat q), now, w, env) else Some (- 1, now, releaseSendBuf w b, env) }"
      unfolding send_def hint q_def using assms(2) al by (simp add: Let_def)
    then show ?thesis using p0(1) ps uk by simp
  qed
  moreover have "unat (peer_win (conn s) - q) = unat (peer_win (conn s)) - k"
    using z(1) uk assms(11) by (subst unat_sub) (simp_all add: word_le_nat_alt)
  moreover have "k \<le> unat (peer_win (conn s))" "k \<le> unat (peer_mss (conn s))" using z(1,2) assms(11) by linarith+
  ultimately show ?thesis
    using p(2) n'(2,3) assms(4,5) by (intro exI [of _ ?s'] exI [of _ n'] exI [of _ p]) (simp add: put_txq_def)
qed

section \<open>Examples\<close>

text \<open>A network that knows its peer, and an established connection to it.\<close>

definition demo_neighbour :: netif where
  "demo_neighbour = demo_net\<lparr>arp_st := (arp_st demo_net)\<lparr>arp_table :=
     \<lparr>ai_ipaddr = 0x0200a8c0, ai_ethaddr = [2, 0, 0, 0, 0, 2], ai_time = 0\<rparr> # replicate 7 \<lparr>ai_ipaddr = 0, ai_ethaddr = replicate 6 0, ai_time = 0\<rparr>\<rparr>\<rparr>"

theorem close_closes_witness:
  "case close 0 (demo_socket, demo_neighbour) 1000 [(500, id), (2000, id)] of
     None \<Rightarrow> False | Some (_, _, w', _) \<Rightarrow> tcpstateflags (fst w') = UIP_CLOSED"
proof -
  have "close 0 (demo_socket, demo_neighbour) 1000 [(500, id), (2000, id)] \<noteq> None" by code_simp
  then obtain now' w' env' where "close 0 (demo_socket, demo_neighbour) 1000 [(500, id), (2000, id)] = Some ((), now', w', env')"
    by auto
  then show ?thesis using close_closes by simp
qed

text \<open>A peer that answers the handshake: the acknowledgement of the first queued segment empties the queue.\<close>

definition peer_answers :: "tcp_world \<Rightarrow> tcp_world" where
  "peer_answers w = ((fst w)\<lparr>tcpstateflags := UIP_ESTABLISHED, q_rp := q_wp (fst w)\<rparr>, snd w)"

theorem open_outcome_witness:
  "(case connect 0 49152 (set_state UIP_CLOSED demo_socket, demo_neighbour) 0x0200a8c0 80 1000 [(500, id), (2000, id)] of
      None \<Rightarrow> False | Some (ok, _, w', _) \<Rightarrow> tcpstateflags (fst w') = UIP_CLOSED \<longleftrightarrow> \<not> ok) \<and>
    (case accept 0 (set_state UIP_SYN_RCVD demo_socket, demo_neighbour) 1000 [(500, peer_answers)] of
      None \<Rightarrow> False | Some (ok, _, w', _) \<Rightarrow> tcpstateflags (fst w') = UIP_CLOSED \<longleftrightarrow> \<not> ok)"
proof -
  let ?c = "connect 0 49152 (set_state UIP_CLOSED demo_socket, demo_neighbour) 0x0200a8c0 80 1000 [(500, id), (2000, id)]"
  let ?a = "accept 0 (set_state UIP_SYN_RCVD demo_socket, demo_neighbour) 1000 [(500, peer_answers)]"
  have "?c \<noteq> None" "?a \<noteq> None" by code_simp+
  then obtain ok t w' e ok2 t2 w2 e2 where "?c = Some (ok, t, w', e)" "?a = Some (ok2, t2, w2, e2)" by auto
  then show ?thesis
    using open_outcome [of 0 49152 "(set_state UIP_CLOSED demo_socket, demo_neighbour)" "0x0200a8c0" 80 1000 _ ok t w' e]
      open_outcome [of 0 0 "(set_state UIP_SYN_RCVD demo_socket, demo_neighbour)" 0 0 1000 _ ok2 t2 w2 e2]
    by (simp add: set_state_def)
qed

theorem precv_returns_witness:
  "\<exists>m p w' now' env'. precv 0 (demo_socket, demo_neighbour) 100 [(40, id), (100, id)] = Some ((m, p), now', w', env') \<and> - 1 \<le> m \<and>
    (0 < m \<longrightarrow> m = int (unat (cFifoBuffer_getLength (rxbuf (fst w')))) \<and> p = cFifoBuffer_getPtr (rxbuf (fst w')))"
  by (rule precv_returns [of "(100, id)"]) simp_all

lemma demo_parts:
  "conn demo_socket = demo_conn" "tcpstateflags demo_socket = UIP_ESTABLISHED" "q_wp demo_socket = 0" "q_rp demo_socket = 0"
  "length (txq demo_socket) = 4"
  by (simp_all add: demo_socket_def)

theorem send_segment_witness:
  "\<exists>s' n' p. send 0 (demo_socket, demo_neighbour) [104, 105, 33] 2 1000 [] = Some (int 2, 0, (s', n'), []) \<and>
    carries p demo_conn (TCP_ACK OR TCP_PSH) (cFifoBuffer_getSpace (rxbuf demo_socket)) 0 (take 2 [104, 105, 33]) \<and>
    snd_nxt32 (conn s') = 3942 \<and> unat (peer_win (conn s')) = 998 \<and> q_wp s' = 1"
proof -
  let ?a = "cMiMicIpNetIf_allocTxBuf demo_neighbour (of_int (min 2 32767) + 40)"
  have "case ?a of None \<Rightarrow> False | Some (b, sz, n1) \<Rightarrow> b = (Buf128, 0) \<and> sz = 114 \<and> length (mem n1 b) = 128 \<and>
      eth_destination n1 0x0200a8c0 = Some [2, 0, 0, 0, 0, 2] \<and> eth_mac (net_cfg n1) = [2, 0, 0, 0, 0, 1] \<and> can_send n1 b"
    by code_simp
  then obtain n1 where a: "?a = Some ((Buf128, 0), 114, n1)" "length (mem n1 (Buf128, 0)) = 128"
      "eth_destination n1 0x0200a8c0 = Some [2, 0, 0, 0, 0, 2]" "eth_mac (net_cfg n1) = [2, 0, 0, 0, 0, 1]" "can_send n1 (Buf128, 0)"
    by (auto split: option.splits)
  have c: "ripaddr demo_conn = 0x0200a8c0" "peer_win demo_conn = 1000" "snd_nxt32 demo_conn = 3940" "peer_mss demo_conn = 1460"
    by (simp_all add: demo_conn_def)
  have k: "2 = min (nat 2) (unat (send_size demo_conn 114))" unfolding send_size_def Let_def c by simp
  have "\<exists>s' n' p. send 0 (demo_socket, demo_neighbour) [104, 105, 33] 2 1000 [] = Some (int 2, 0, (s', n'), []) \<and>
      carries p (conn demo_socket) (TCP_ACK OR TCP_PSH) (cFifoBuffer_getSpace (rxbuf demo_socket)) 0 (take 2 [104, 105, 33]) \<and>
      wire n' = wire n1 @ [[2, 0, 0, 0, 0, 2] @ eth_mac (net_cfg n1) @ half_bytes (HTONS ETH_TYPE_IP) @ take (40 + 2) p] \<and> ip_at n' (Buf128, 0) = p \<and>
      snd_nxt32 (conn s') = snd_nxt32 (conn demo_socket) + of_nat 2 \<and> 2 \<le> unat (peer_win (conn demo_socket)) \<and> 2 \<le> unat (peer_mss (conn demo_socket)) \<and>
      unat (peer_win (conn s')) = unat (peer_win (conn demo_socket)) - 2 \<and>
      q_wp s' = next_idx (q_wp demo_socket) \<and> packet (txq s' ! q_wp demo_socket) = Some (Buf128, 0) \<and> txq_ackno (txq s' ! q_wp demo_socket) = htonl (snd_nxt32 (conn s'))"
    by (rule send_segment [OF _ _ _ _ _ _ a(1) _ _ _ k [folded demo_parts(1)]]) (simp_all add: demo_parts a c eth_wf_def next_idx_def)
  then obtain s' n' p where "send 0 (demo_socket, demo_neighbour) [104, 105, 33] 2 1000 [] = Some (int 2, 0, (s', n'), [])"
      "carries p demo_conn (TCP_ACK OR TCP_PSH) (cFifoBuffer_getSpace (rxbuf demo_socket)) 0 (take 2 [104, 105, 33])"
      "snd_nxt32 (conn s') = snd_nxt32 demo_conn + of_nat 2" "unat (peer_win (conn s')) = unat (peer_win demo_conn) - 2" "q_wp s' = next_idx 0"
    unfolding demo_parts by blast
  then show ?thesis unfolding c next_idx_def by (intro exI [of _ s'] exI [of _ n'] exI [of _ p]) simp
qed

end
