(* ===== verification/Icmp.thy ===== *)
theory Icmp
  imports NetTx
begin

text \<open>
  \<open>NyLPC_cIPv4IComp.c\<close>: answers to ICMP echo requests. The reply is a copy of the request with the
  type changed, the checksum adjusted instead of recomputed, and the addresses exchanged.
\<close>

unbundle bit_operations_syntax

abbreviation (input) "ICMP_ECHO_REPLY \<equiv> (0 :: u8)"
abbreviation (input) "ICMP_ECHO \<equiv> (8 :: u8)"

text \<open>The type is the first byte of the message; the adjustment is made on the stored value.\<close>

definition echo_chksum :: "u16 \<Rightarrow> u16" where
  "echo_chksum c =
     (if c \<ge> HTONS (0xffff - push_bit 8 8) then c + (HTONS (push_bit 8 8) + 1) else c + HTONS (push_bit 8 8))"

definition cIPv4IComp_rx :: "netif \<Rightarrow> ipv4_payload \<Rightarrow> (block option \<times> netif) option" where
  "cIPv4IComp_rx n i_ipp =
     (let my_ip = ip_addr (net_cfg n); len = ntohs (len16 (pl_header i_ipp)) in
      if \<not> TIPv4Addr_isEqual my_ip TIPv4Addr_ZERO \<and> \<not> TIPv4Addr_isEqual (destipaddr (pl_header i_ipp)) my_ip then Some (None, n)
      else do {
        ty \<leftarrow> rd (pl_packet i_ipp) (pl_rawbuf i_ipp);
        if ty \<noteq> ICMP_ECHO then Some (None, n)
        else case cMiMicIpNetIf_allocTxBuf n len of
            None \<Rightarrow> Some (None, n)
          | Some (b, tx_size, n) \<Rightarrow>
              if tx_size < len then Some (None, cMiMicIpNetIf_releaseTxBuf n b)
              else do {
                p \<leftarrow> copy_at (ip_at n b) 0 (pl_packet i_ipp) 0 (unat len);
                h \<leftarrow> ipv4_header_at p;
                let k = unat (vhl h AND 0x0f) * 4;
                m \<leftarrow> icmp_header_at p k;
                p \<leftarrow> blit p k (icmp_header_bytes (m\<lparr>icmp_type := ICMP_ECHO_REPLY, icmpchksum := echo_chksum (icmpchksum m)\<rparr>));
                p \<leftarrow> blit p 0 (ipv4_header_bytes (h\<lparr>destipaddr := srcipaddr h, srcipaddr := my_ip\<rparr>));
                Some (Some b, put_ip n b p) } })"

section \<open>The adjusted checksum\<close>

text \<open>In ones' complement arithmetic the stored checksum grows by what the type byte loses.\<close>

lemma be_sum_stored: "be_sum (half_bytes v) = 256 * (unat v mod 256) + unat v div 256"
proof -
  have "unat (ucast v :: u8) = unat v mod 256" by (simp add: unsigned_ucast_eq take_bit_eq_mod)
  moreover have "unat (ucast (drop_bit 8 v) :: u8) = unat v div 256"
  proof -
    have "unat (drop_bit 8 v) = unat v div 256" by (simp add: drop_bit_eq_div unat_div_distrib)
    moreover have "unat v div 256 < 256" using unat_u16_less [of v] by linarith
    ultimately show ?thesis by (simp add: unsigned_ucast_eq take_bit_eq_mod)
  qed
  ultimately show ?thesis by (simp add: half_bytes_def)
qed

lemma unat_echo_chksum: "unat (echo_chksum c) = (if 65527 \<le> unat c then unat c + 9 - 65536 else unat c + 8)"
proof -
  have "HTONS (0xffff - push_bit 8 8) = (0xfff7 :: u16)" "HTONS (push_bit 8 8) = (8 :: u16)"
    by (simp_all add: TUInt16_BSWAP_def)
  then have t: "echo_chksum c = (if c \<ge> 0xfff7 then c + (8 + 1) else c + 8)" unfolding echo_chksum_def by (simp only:)
  have le: "0xfff7 \<le> c \<longleftrightarrow> 65527 \<le> unat c" by (simp add: word_le_nat_alt)
  show ?thesis
  proof (cases "65527 \<le> unat c")
    case True
    then have "echo_chksum c = c + 9" using le by (simp add: t)
    moreover have "unat (c + 9) = (unat c + 9) mod 65536" by (simp add: unat_word_ariths)
    moreover have "(unat c + 9) mod 65536 = unat c + 9 - 65536"
    proof -
      have "(unat c + 9) mod 65536 = (unat c + 9 - 65536) mod 65536" using True by (intro le_mod_geq) simp
      moreover have "unat c + 9 - 65536 < 65536" using unat_u16_less [of c] by linarith
      ultimately show ?thesis by simp
    qed
    ultimately show ?thesis using True by simp
  next
    case False
    then have "echo_chksum c = c + 8" using le by (simp add: t)
    moreover have "unat (c + 8) = unat c + 8" using False by (subst unat_add_small) simp_all
    ultimately show ?thesis using False by simp
  qed
qed

lemma swapped_sum:
  fixes n :: nat
  assumes "n < 65536" "n' = (if 65527 \<le> n then n + 9 - 65536 else n + 8)"
  shows "(256 * (n' mod 256) + n' div 256) mod 65535 = (2048 + (256 * (n mod 256) + n div 256)) mod 65535"
proof -
  define h l where hl: "h = n div 256" "l = n mod 256"
  have n: "n = 256 * h + l" "h < 256" "l < 256" using assms(1) by (auto simp: hl)
  have dm: "(256 * a + b) mod 256 = b" "(256 * a + b) div 256 = a" if "b < 256" for a b :: nat
    using that by simp_all
  consider "l + 8 < 256" "n < 65527" | "256 \<le> l + 8" "h < 255" | "65527 \<le> n" "h = 255"
  proof (cases "n < 65527")
    case True
    then show ?thesis using that(1,2) n by (cases "l + 8 < 256") linarith+
  next
    case False
    then have "h = 255" using n by linarith
    then show ?thesis using that(3) False by simp
  qed
  then show ?thesis
  proof cases
    case 1
    then have n': "n' = 256 * h + (l + 8)" using assms(2) n(1) by simp
    show ?thesis unfolding n' using 1(1) dm [of "l + 8" h] dm [OF n(3), of h] n(1) by (simp add: ac_simps)
  next
    case 2
    have n': "n' = 256 * (h + 1) + (l + 8 - 256)" using assms(2) n 2 by (simp split: if_splits)
    have "l + 8 - 256 < 256" using n(3) by simp
    then have "256 * (n' mod 256) + n' div 256 = 256 * (l + 8 - 256) + (h + 1)" unfolding n' using dm by metis
    also have "\<dots> + 65535 = 2048 + (256 * l + h)" using 2 by simp
    finally show ?thesis using dm [OF n(3), of h] n(1) by (metis mod_add_self2)
  next
    case 3
    then have n': "n' = l + 9 - 256" using assms(2) n(1) by simp
    have l: "247 \<le> l" using 3 n(1) by linarith
    have "n' < 256" unfolding n' using n(3) by simp
    then have "256 * (n' mod 256) + n' div 256 = 256 * (l + 9 - 256)" by (simp add: n')
    also have "\<dots> + 65535 = 2048 + (256 * l + h)" using 3(2) l by simp
    finally show ?thesis using dm [OF n(3), of h] n(1) by (metis mod_add_self2)
  qed
qed

lemma echo_sum:
  "be_sum ([0, code] @ half_bytes (echo_chksum c) @ rest) mod 65535 = be_sum ([8, code] @ half_bytes c @ rest) mod 65535"
proof -
  have "be_sum (half_bytes (echo_chksum c)) mod 65535 = (2048 + be_sum (half_bytes c)) mod 65535"
    unfolding be_sum_stored by (rule swapped_sum) (simp_all add: unat_echo_chksum)
  then have "(unat code + be_sum rest + be_sum (half_bytes (echo_chksum c))) mod 65535 =
      (unat code + be_sum rest + (2048 + be_sum (half_bytes c))) mod 65535"
    by (rule mod_add_cong [OF refl])
  moreover have "be_sum ([0, code] @ half_bytes (echo_chksum c) @ rest) = unat code + be_sum rest + be_sum (half_bytes (echo_chksum c))"
    by (simp add: be_sum_append)
  moreover have "unat (8 :: u8) = 8" by simp
  then have "be_sum ([8, code] @ half_bytes c @ rest) = unat code + be_sum rest + (2048 + be_sum (half_bytes c))"
    using be_sum_append [of "half_bytes c" rest] by simp
  ultimately show ?thesis by (simp only:)
qed

section \<open>The reply\<close>

lemma swapped_header_sum:
  "be_sum (ipv4_header_bytes (h\<lparr>destipaddr := a, srcipaddr := b\<rparr>)) = be_sum (ipv4_header_bytes (h\<lparr>destipaddr := b, srcipaddr := a\<rparr>))"
  by (simp add: ipv4_header_bytes_def be_sum_append half_bytes_def word_bytes_def)

lemma take_prefix: "zs = xs @ ys \<Longrightarrow> take (length xs) zs = xs"
  by simp

lemma echo_reply:
  assumes "pl_packet pl = ipv4_header_bytes h @ opts @ ([ICMP_ECHO, code] @ half_bytes c @ rest) @ tail" "pl_header pl = h"
    "pl_rawbuf pl = TIPv4Header_getHeaderLength h" "TIPv4Header_getHeaderLength h = 20 + length opts"
    "unat (ntohs (len16 h)) = 24 + length opts + length rest" "4 \<le> length rest"
    "TIPv4Header_isCorrectIpCheckSum (pl_packet pl) = Some True" "65535 dvd be_sum ([ICMP_ECHO, code] @ half_bytes c @ rest)"
    "destipaddr h = ip_addr (net_cfg n)"
    "cMiMicIpNetIf_allocTxBuf n (ntohs (len16 h)) = Some (b, sz, n1)" "ntohs (len16 h) \<le> sz" "unat sz \<le> length (ip_at n1 b)"
  shows "\<exists>n2 r. cIPv4IComp_rx n pl = Some (Some b, n2) \<and> n2 = put_ip n1 b (ip_at n2 b) \<and>
    ip_at n2 b = ipv4_header_bytes (h\<lparr>destipaddr := srcipaddr h, srcipaddr := destipaddr h\<rparr>) @ opts @
      ([ICMP_ECHO_REPLY, code] @ half_bytes (echo_chksum c) @ rest) @ r \<and>
    TIPv4Header_isCorrectIpCheckSum (ip_at n2 b) = Some True \<and> 65535 dvd be_sum ([ICMP_ECHO_REPLY, code] @ half_bytes (echo_chksum c) @ rest)"
proof -
  let ?len = "24 + length opts + length rest" and ?hl = "20 + length opts"
  let ?msg = "[ICMP_ECHO, code] @ half_bytes c @ rest" and ?rep = "[ICMP_ECHO_REPLY, code] @ half_bytes (echo_chksum c) @ rest"
  let ?req = "ipv4_header_bytes h @ opts @ ?msg"
  let ?h = "h\<lparr>destipaddr := srcipaddr h, srcipaddr := destipaddr h\<rparr>"
  let ?r = "drop ?len (ip_at n1 b)"
  let ?q = "ipv4_header_bytes ?h @ opts @ ?rep @ ?r"
  have lreq: "length ?req = ?len" by simp
  have copy: "copy_at (ip_at n1 b) 0 (pl_packet pl) 0 ?len = Some (?req @ ?r)"
  proof -
    have "pl_packet pl = ?req @ tail" unfolding assms(1) by (simp only: append_assoc)
    then have "take (length ?req) (pl_packet pl) = ?req" by (rule take_prefix)
    then have "take ?len (pl_packet pl) = ?req" unfolding lreq .
    moreover have "?len \<le> length (pl_packet pl)" unfolding assms(1) by simp
    moreover have "?len \<le> length (ip_at n1 b)" using assms(5,11,12) by (simp add: word_le_nat_alt)
    ultimately show ?thesis by (simp add: copy_at_def blit_def add.assoc)
  qed
  have hdr: "ipv4_header_at (?req @ ?r) = Some h" by (simp add: ipv4_header_at_iff)
  obtain i0 i1 s0 s1 rest' where rest: "rest = i0 # i1 # s0 # s1 # rest'"
    using assms(6) by (auto simp: eval_nat_numeral Suc_le_length_iff)
  obtain m where m: "icmp_header_at (?req @ ?r) ?hl = Some m" "icmp_header_bytes m = [ICMP_ECHO, code] @ half_bytes c @ take 4 rest"
      "icmpchksum m = c"
  proof
    let ?i = "ucast i0 OR push_bit 8 (ucast i1) :: u16" and ?s = "ucast s0 OR push_bit 8 (ucast s1) :: u16"
    let ?m = "\<lparr>icmp_type = ICMP_ECHO, icode = code, icmpchksum = c, icmp_id = ?i, icmp_seqno = ?s\<rparr>"
    have "half_bytes ?i = [i0, i1]" "half_bytes ?s = [s0, s1]"
      using half_at_half_bytes [of "[i0, i1]" 0 ?i] half_at_half_bytes [of "[s0, s1]" 0 ?s] by (simp_all add: half_at_def rd_def)
    then show b: "icmp_header_bytes ?m = [ICMP_ECHO, code] @ half_bytes c @ take 4 rest" by (simp add: icmp_header_bytes_def rest)
    have "?req @ ?r = (ipv4_header_bytes h @ opts) @ icmp_header_bytes ?m @ (rest' @ ?r)" by (simp add: b rest)
    moreover have "icmp_header_at ((ipv4_header_bytes h @ opts) @ icmp_header_bytes ?m @ (rest' @ ?r)) ?hl = Some ?m"
      by (rule icmp_header_at_bytes) simp
    ultimately show "icmp_header_at (?req @ ?r) ?hl = Some ?m" by (simp only:)
  qed simp
  let ?m = "m\<lparr>icmp_type := ICMP_ECHO_REPLY, icmpchksum := echo_chksum (icmpchksum m)\<rparr>"
  have mb: "icmp_header_bytes ?m = [ICMP_ECHO_REPLY, code] @ half_bytes (echo_chksum c) @ take 4 rest"
    using m(2,3) by (auto simp: icmp_header_bytes_def half_bytes_def)
  have b1: "blit (?req @ ?r) ?hl (icmp_header_bytes ?m) = Some (ipv4_header_bytes h @ opts @ ?rep @ ?r)"
    unfolding mb by (simp add: blit_def rest numeral_eq_Suc)
  have b2: "blit (ipv4_header_bytes h @ opts @ ?rep @ ?r) 0 (ipv4_header_bytes ?h) = Some ?q"
    by (simp add: blit_def)
  have hl: "unat (vhl h AND 0x0f) * 4 = ?hl" using assms(4) by (simp add: TIPv4Header_getHeaderLength_def)
  have ty: "rd (pl_packet pl) (pl_rawbuf pl) = Some ICMP_ECHO" unfolding assms(1,3,4) by (simp add: rd_def nth_append)
  have n2: "cIPv4IComp_rx n pl = Some (Some b, put_ip n1 b ?q)"
    using assms(2,5,9,10,11) ty copy hdr hl m(1) b1 b2
    by (simp add: cIPv4IComp_rx_def Let_def TIPv4Addr_isEqual_def not_less)
  have l14: "14 \<le> length (mem n1 b)" using assms(5,11,12) by (simp add: ip_at_def word_le_nat_alt)
  have at: "ip_at (put_ip n1 b ?q) b = ?q" using ip_at_put [OF l14] .
  have hs: "be_sum (take ?hl (ipv4_header_bytes g @ opts @ xs)) = be_sum (ipv4_header_bytes g) + be_sum opts" for g xs
    by (simp add: be_sum_append)
  have hq: "ipv4_header_at ?q = Some ?h" "TIPv4Header_getHeaderLength ?h = ?hl"
    using assms(4) by (simp_all add: ipv4_header_at_iff TIPv4Header_getHeaderLength_def)
  have "ipv4_header_at (pl_packet pl) = Some h" unfolding assms(1) by (simp add: ipv4_header_at_iff)
  then have "65535 dvd be_sum (take ?hl (pl_packet pl))"
    using ip_checksum_iff [of "pl_packet pl" h] assms(4,7) by (simp add: assms(1))
  then have "65535 dvd be_sum (ipv4_header_bytes h) + be_sum opts" unfolding assms(1) hs .
  moreover have "be_sum (ipv4_header_bytes ?h) = be_sum (ipv4_header_bytes h)"
    using swapped_header_sum [where h = h and a = "srcipaddr h" and b = "destipaddr h"] by simp
  ultimately have "65535 dvd be_sum (take ?hl ?q)" unfolding hs by simp
  then have "TIPv4Header_isCorrectIpCheckSum ?q = Some True"
    using ip_checksum_iff [OF hq(1)] hq(2) by simp
  moreover have "65535 dvd be_sum ?rep" using assms(8) echo_sum [of code c rest] by (simp only: dvd_eq_mod_eq_0)
  ultimately show ?thesis using n2 at by (intro exI [of _ "put_ip n1 b ?q"] exI [of _ ?r]) (simp only: append_assoc simp_thms)
qed

text \<open>
  An echo request to the own address is answered with an echo reply that the requester's tests accept:
  the same packet with the addresses exchanged and the type changed, a correct header checksum,
  and a correct ICMP checksum if the request had one, although neither is computed anew.
\<close>

theorem icmp_echo_replied:
  assumes "pl_packet pl = ipv4_header_bytes h @ opts @ ([ICMP_ECHO, code] @ half_bytes c @ rest) @ tail" "pl_header pl = h"
    "pl_rawbuf pl = TIPv4Header_getHeaderLength h" "TIPv4Header_getHeaderLength h = 20 + length opts"
    "unat (ntohs (len16 h)) = 24 + length opts + length rest" "4 \<le> length rest"
    "TIPv4Header_isCorrectIpCheckSum (pl_packet pl) = Some True" "65535 dvd be_sum ([ICMP_ECHO, code] @ half_bytes c @ rest)"
    "destipaddr h = ip_addr (net_cfg n)"
    "cMiMicIpNetIf_allocTxBuf n (ntohs (len16 h)) = Some (b, sz, n1)" "ntohs (len16 h) \<le> sz" "unat sz \<le> length (ip_at n1 b)"
  shows "\<exists>n2 r. cIPv4IComp_rx n pl = Some (Some b, n2) \<and>
    ip_at n2 b = ipv4_header_bytes (h\<lparr>destipaddr := srcipaddr h, srcipaddr := destipaddr h\<rparr>) @ opts @
      ([ICMP_ECHO_REPLY, code] @ half_bytes (echo_chksum c) @ rest) @ r \<and>
    TIPv4Header_isCorrectIpCheckSum (ip_at n2 b) = Some True \<and> 65535 dvd be_sum ([ICMP_ECHO_REPLY, code] @ half_bytes (echo_chksum c) @ rest)"
  using echo_reply [OF assms] by blast

definition ping_header :: ipv4_header where
  "ping_header = \<lparr>vhl = 0x45, tos = 0, len16 = htons 28, ipid16 = 0, ipoffset = 0, ttl = 64, proto = UIP_PROTO_ICMP, ipchksum = 0x8df9,
     srcipaddr = 0x0200a8c0, destipaddr = 0x0100a8c0\<rparr>"

definition ping :: ipv4_payload where
  "ping = \<lparr>pl_packet = ipv4_header_bytes ping_header @ [] @ ([8, 0] @ half_bytes 0xfcf7 @ [0, 1, 0, 2]) @ [],
     pl_header = ping_header, pl_rawbuf = 20\<rparr>"

lemma ping_simps: "pl_packet ping = ipv4_header_bytes ping_header @ [] @ ([8, 0] @ half_bytes 0xfcf7 @ [0, 1, 0, 2]) @ []"
    "pl_header ping = ping_header" "pl_rawbuf ping = 20"
  by (simp_all add: ping_def)

theorem icmp_echo_replied_witness:
  "\<exists>b n2 r. cIPv4IComp_rx demo_net ping = Some (Some b, n2) \<and>
    ip_at n2 b = ipv4_header_bytes (ping_header\<lparr>destipaddr := 0x0200a8c0, srcipaddr := 0x0100a8c0\<rparr>) @ ([0, 0] @ half_bytes 0xfcff @ [0, 1, 0, 2]) @ r \<and>
    TIPv4Header_isCorrectIpCheckSum (ip_at n2 b) = Some True"
proof -
  have len: "ntohs (len16 ping_header) = 28" by (simp add: ping_header_def)
  have hl: "TIPv4Header_getHeaderLength ping_header = 20" by code_simp
  have "map_option (\<lambda>(b, s, n'). (b, s)) (cMiMicIpNetIf_allocTxBuf demo_net 28) = Some ((Buf128, 0), 114)"
    by code_simp
  then obtain n1 where n1: "cMiMicIpNetIf_allocTxBuf demo_net 28 = Some ((Buf128, 0), 114, n1)" by auto
  then have "mem n1 = mem demo_net" by (auto simp: cMiMicIpNetIf_allocTxBuf_def split: option.splits)
  then have l: "unat (114 :: u16) \<le> length (ip_at n1 (Buf128, 0))" by (simp add: ip_at_def demo_net_def)
  have ok: "TIPv4Header_isCorrectIpCheckSum (pl_packet ping) = Some True" by code_simp
  have sum: "65535 dvd be_sum ([8, 0] @ half_bytes 0xfcf7 @ [0, 1, 0, 2])" by (simp add: half_bytes_def)
  have dest: "destipaddr ping_header = ip_addr (net_cfg demo_net)" by (simp add: ping_header_def demo_net_def demo_config_def)
  have e: "echo_chksum 0xfcf7 = 0xfcff" by code_simp
  have hl2: "TIPv4Header_getHeaderLength ping_header = 20 + length ([] :: u8 list)" by (simp add: hl)
  have rb: "pl_rawbuf ping = TIPv4Header_getHeaderLength ping_header" by (simp add: hl ping_simps(3))
  have l28: "unat (ntohs (len16 ping_header)) = 24 + length ([] :: u8 list) + length ([0, 1, 0, 2] :: u8 list)" unfolding len by simp
  have l4: "4 \<le> length ([0, 1, 0, 2] :: u8 list)" by simp
  have al: "cMiMicIpNetIf_allocTxBuf demo_net (ntohs (len16 ping_header)) = Some ((Buf128, 0), 114, n1)" unfolding len by (rule n1)
  have le: "ntohs (len16 ping_header) \<le> 114" unfolding len by simp
  note r = icmp_echo_replied [OF ping_simps(1,2) rb hl2 l28 l4 ok sum dest al le l]
  have sd: "srcipaddr ping_header = 0x0200a8c0" "destipaddr ping_header = 0x0100a8c0" by (simp_all add: ping_header_def)
  obtain n2 r where q: "cIPv4IComp_rx demo_net ping = Some (Some (Buf128, 0), n2)"
    "ip_at n2 (Buf128, 0) = ipv4_header_bytes (ping_header\<lparr>destipaddr := 0x0200a8c0, srcipaddr := 0x0100a8c0\<rparr>) @ [] @
      ([0, 0] @ half_bytes 0xfcff @ [0, 1, 0, 2]) @ r"
    "TIPv4Header_isCorrectIpCheckSum (ip_at n2 (Buf128, 0)) = Some True"
    using r unfolding e sd by (elim exE conjE)
  show ?thesis by (intro exI conjI) (rule q(1), rule q(2) [unfolded append.append_Nil], rule q(3))
qed

end
