(* ===== verification/IpStack.thy ===== *)
theory IpStack
  imports TcpListener UdpSocket Icmp
begin

text \<open>
  \<open>NyLPC_cIPv4.c\<close> and the receiving half of \<open>NyLPC_cMiMicIpNetIf.c\<close>: the socket tables, the dispatch of
  received packets to sockets, listeners and ICMP, and the task that takes frames from the driver
  and drives the periodic work.

  A pointer to an object of a table is its index. The array \<open>rxbuf\<close> of a table entry is the buffer of the
  socket's queue. A frame of the driver is the receive buffer with the number of bytes received.
  Between the definitions other threads may run; each definition here is what the task itself does.
\<close>

unbundle bit_operations_syntax

abbreviation (input) "FLAGS_USED \<equiv> (1 :: u32)"
abbreviation (input) "TCPSOCKET_MAX \<equiv> (3 :: nat)"
abbreviation (input) "UDPSOCKET_MAX \<equiv> (1 :: nat)"
abbreviation (input) "NB_UDPSOCKET_MAX \<equiv> (2 :: nat)"
abbreviation (input) "TCPLISTENER_MAX \<equiv> (2 :: nat)"
abbreviation (input) "SOCKET_RX_BUFFER_SIZE \<equiv> (512 :: u16)"
abbreviation (input) "STATUSBIT_IS_RUNNING \<equiv> (0 :: nat)"
abbreviation (input) "ORDER_START \<equiv> (1 :: nat)"
abbreviation (input) "ORDER_STOP \<equiv> (2 :: nat)"
abbreviation (input) "PERIODIC_TIMER \<equiv> (200 :: u32)"
abbreviation (input) "ARP_TIMER \<equiv> (600000 :: u32)"
abbreviation (input) "SocketType_TCP_NORMAL \<equiv> (0x0100 :: u16)"
abbreviation (input) "SocketType_TCP_HTTP \<equiv> (0x0101 :: u16)"
abbreviation (input) "SocketType_UDP_NORMAL \<equiv> (0x0200 :: u16)"
abbreviation (input) "SocketType_UDP_NOBUF \<equiv> (0x0202 :: u16)"

record 'a slot =
  slot_flags :: u32
  slot_obj :: 'a

record ip_stack =
  net :: netif
  tcp_socket_table :: "tcp_socket slot list"
  udp_socket_table :: "udp_socket slot list"
  udp_socket_nb_table :: "udp_socket slot list"
  tcp_listener_table :: "tcp_listener slot list"
  ref_config :: "ipv4_config option"
  tcp_port_counter :: u16
  if_status :: u16
  arp_sw :: stopwatch
  periodic_sw :: stopwatch

datatype udp_index = Buffered nat | Unbuffered nat

section \<open>The tables\<close>

definition slot_used :: "'a slot \<Rightarrow> bool" where
  "slot_used e \<longleftrightarrow> slot_flags e AND FLAGS_USED \<noteq> 0"

definition set_obj :: "'a slot list \<Rightarrow> nat \<Rightarrow> 'a \<Rightarrow> 'a slot list" where
  "set_obj t i x = t[i := (t ! i)\<lparr>slot_obj := x\<rparr>]"

text \<open>The searching loops run from the last entry to the first.\<close>

definition find_down :: "('a \<Rightarrow> bool) \<Rightarrow> 'a slot list \<Rightarrow> nat option" where
  "find_down P t = find (\<lambda>i. slot_used (t ! i) \<and> P (slot_obj (t ! i))) (rev [0..<length t])"

definition getListenerByPeerPort :: "ip_stack \<Rightarrow> u16 \<Rightarrow> nat option" where
  "getListenerByPeerPort w i_port = find_down (\<lambda>l. l_port l = i_port) (tcp_listener_table w)"

definition cMiMicIpTcpSocket_isClosed :: "tcp_socket \<Rightarrow> bool" where
  "cMiMicIpTcpSocket_isClosed s \<longleftrightarrow> tcpstateflags s = UIP_CLOSED"

definition isClosedTcpPort :: "ip_stack \<Rightarrow> u16 \<Rightarrow> bool" where
  "isClosedTcpPort w i_lport \<longleftrightarrow>
     find_down (\<lambda>s. lport (conn s) = i_lport \<and> \<not> cMiMicIpTcpSocket_isClosed s) (tcp_socket_table w) = None \<and>
     find_down (\<lambda>l. l_port l = i_lport) (tcp_listener_table w) = None"

definition getMatchTcpSocket :: "ip_stack \<Rightarrow> u16 \<Rightarrow> ipv4_addr \<Rightarrow> u16 \<Rightarrow> nat option" where
  "getMatchTcpSocket w i_lport i_rip i_rport =
     find_down (\<lambda>s. \<not> cMiMicIpTcpSocket_isClosed s \<and> i_lport = lport (conn s) \<and> i_rport = rport (conn s) \<and>
       i_rip = ripaddr (conn s)) (tcp_socket_table w)"

definition find_udp :: "(udp_conn \<Rightarrow> bool) \<Rightarrow> ip_stack \<Rightarrow> udp_index option" where
  "find_udp P w =
     (case find_down (\<lambda>s. P (uip_udp_conn s)) (udp_socket_table w) of
        Some i \<Rightarrow> Some (Buffered i)
      | None \<Rightarrow> map_option Unbuffered (find_down (\<lambda>s. P (uip_udp_conn s)) (udp_socket_nb_table w)))"

definition getMatchUdpSocket :: "ip_stack \<Rightarrow> u16 \<Rightarrow> udp_index option" where
  "getMatchUdpSocket w i_lport = find_udp (\<lambda>c. i_lport = u_lport c) w"

definition getMatchMulticastUdpSocket :: "ip_stack \<Rightarrow> ipv4_addr \<Rightarrow> u16 \<Rightarrow> udp_index option" where
  "getMatchMulticastUdpSocket w i_mcast_ip i_lport =
     find_udp (\<lambda>c. i_lport = u_lport c \<and> TIPv4Addr_isEqual i_mcast_ip (mcastaddr c)) w"

definition udp_obj :: "ip_stack \<Rightarrow> udp_index \<Rightarrow> udp_socket" where
  "udp_obj w i = (case i of Buffered i \<Rightarrow> slot_obj (udp_socket_table w ! i) | Unbuffered i \<Rightarrow> slot_obj (udp_socket_nb_table w ! i))"

definition set_udp :: "ip_stack \<Rightarrow> udp_index \<Rightarrow> udp_socket \<Rightarrow> ip_stack" where
  "set_udp w i s = (case i of
     Buffered i \<Rightarrow> w\<lparr>udp_socket_table := set_obj (udp_socket_table w) i s\<rparr>
   | Unbuffered i \<Rightarrow> w\<lparr>udp_socket_nb_table := set_obj (udp_socket_nb_table w) i s\<rparr>)"

text \<open>A call for each used entry, from the last of \<open>k\<close> entries to the first.\<close>

fun each_slot :: "('a \<Rightarrow> netif \<Rightarrow> ('a \<times> netif) option) \<Rightarrow> nat \<Rightarrow> 'a slot list \<Rightarrow> netif \<Rightarrow> ('a slot list \<times> netif) option" where
  "each_slot f 0 t n = Some (t, n)"
| "each_slot f (Suc i) t n =
     (if slot_used (t ! i) then do {
        (x, n) \<leftarrow> f (slot_obj (t ! i)) n;
        each_slot f i (set_obj t i x) n }
      else each_slot f i t n)"

definition each_socket ::
  "(udp_socket \<Rightarrow> netif \<Rightarrow> (udp_socket \<times> netif) option) \<Rightarrow> (tcp_socket \<Rightarrow> netif \<Rightarrow> (tcp_socket \<times> netif) option) \<Rightarrow>
    ip_stack \<Rightarrow> ip_stack option" where
  "each_socket fu ft w = do {
     (u, n) \<leftarrow> each_slot fu (length (udp_socket_table w)) (udp_socket_table w) (net w);
     (v, n) \<leftarrow> each_slot fu (length (udp_socket_nb_table w)) (udp_socket_nb_table w) n;
     (t, n) \<leftarrow> each_slot ft (length (tcp_socket_table w)) (tcp_socket_table w) n;
     Some (w\<lparr>udp_socket_table := u, udp_socket_nb_table := v, tcp_socket_table := t, net := n\<rparr>) }"

definition callPeriodic :: "periodic_handler \<Rightarrow> u32 \<Rightarrow> ip_stack \<Rightarrow> ip_stack option" where
  "callPeriodic P now w =
     each_socket (\<lambda>s n. Some (cMiMicIpUdpSocket_periodic P (s, n))) (cMiMicIpTcpSocket_periodic now) w"

definition callSocketStart :: "ipv4_config \<Rightarrow> ip_stack \<Rightarrow> ip_stack option" where
  "callSocketStart i_cfg w =
     each_socket (\<lambda>s n. Some (cMiMicIpUdpSocket_startService s i_cfg, n))
       (\<lambda>s n. Some (cMiMicIpTcpSocket_startService s i_cfg, n)) w"

definition callSocketStop :: "ip_stack \<Rightarrow> ip_stack option" where
  "callSocketStop w = each_socket (\<lambda>s n. Some (cMiMicIpUdpSocket_stopService s, n)) cMiMicIpTcpSocket_stopService w"

section \<open>Creating and releasing sockets\<close>

definition find_free :: "'a slot list \<Rightarrow> nat option" where
  "find_free t = find (\<lambda>i. \<not> slot_used (t ! i)) [0..<length t]"

text \<open>Taking a free entry for an object that \<open>init\<close> prepares.\<close>

definition claim_slot :: "('a \<Rightarrow> 'a) \<Rightarrow> 'a slot list \<Rightarrow> (nat \<times> 'a slot list) option" where
  "claim_slot init t = (case find_free t of
     None \<Rightarrow> None
   | Some i \<Rightarrow> Some (i, t[i := \<lparr>slot_flags = slot_flags (t ! i) OR FLAGS_USED, slot_obj = init (slot_obj (t ! i))\<rparr>]))"

definition release_slot :: "'a slot list \<Rightarrow> nat \<Rightarrow> 'a slot list" where
  "release_slot t i = t[i := (t ! i)\<lparr>slot_flags := slot_flags (t ! i) AND NOT FLAGS_USED\<rparr>]"

definition createTcpSocetEx :: "ip_stack \<Rightarrow> u16 \<Rightarrow> nat option \<times> ip_stack" where
  "createTcpSocetEx w i_socktype =
     (if i_socktype = SocketType_TCP_HTTP \<or> i_socktype = SocketType_TCP_NORMAL then
        (case claim_slot (\<lambda>s. cMiMicIpTcpSocket_initialize s (fbuf (rxbuf s)) SOCKET_RX_BUFFER_SIZE) (tcp_socket_table w) of
           None \<Rightarrow> (None, w)
         | Some (i, t) \<Rightarrow> (Some i, w\<lparr>tcp_socket_table := t\<rparr>))
      else (None, w))"

definition createUdpSocetEx :: "ip_stack \<Rightarrow> u16 \<Rightarrow> u16 \<Rightarrow> udp_index option \<times> ip_stack" where
  "createUdpSocetEx w i_port i_socktype =
     (if i_socktype = SocketType_UDP_NORMAL then
        (case claim_slot (\<lambda>s. cMiMicIpUdpSocket_initialize s i_port (fbuf (u_rxbuf s)) SOCKET_RX_BUFFER_SIZE) (udp_socket_table w) of
           None \<Rightarrow> (None, w)
         | Some (i, t) \<Rightarrow> (Some (Buffered i), w\<lparr>udp_socket_table := t\<rparr>))
      else if i_socktype = SocketType_UDP_NOBUF then
        (case claim_slot (\<lambda>s. cMiMicIpUdpSocket_initialize s i_port [] 0) (udp_socket_nb_table w) of
           None \<Rightarrow> (None, w)
         | Some (i, t) \<Rightarrow> (Some (Unbuffered i), w\<lparr>udp_socket_nb_table := t\<rparr>))
      else (None, w))"

definition createTcpListener :: "ip_stack \<Rightarrow> u16 \<Rightarrow> nat option \<times> ip_stack" where
  "createTcpListener w i_port =
     (case claim_slot (\<lambda>l. cMiMicIpTcpListener_initialize l i_port) (tcp_listener_table w) of
        None \<Rightarrow> (None, w)
      | Some (i, t) \<Rightarrow> (Some i, w\<lparr>tcp_listener_table := t\<rparr>))"

definition releaseTcpSocketMemory :: "ip_stack \<Rightarrow> nat \<Rightarrow> ip_stack" where
  "releaseTcpSocketMemory w i = w\<lparr>tcp_socket_table := release_slot (tcp_socket_table w) i\<rparr>"

definition releaseUdpSocketMemory :: "ip_stack \<Rightarrow> udp_index \<Rightarrow> ip_stack" where
  "releaseUdpSocketMemory w i = (case i of
     Buffered i \<Rightarrow> w\<lparr>udp_socket_table := release_slot (udp_socket_table w) i\<rparr>
   | Unbuffered i \<Rightarrow> w\<lparr>udp_socket_nb_table := release_slot (udp_socket_nb_table w) i\<rparr>)"

definition releaseTcpListenerMemory :: "ip_stack \<Rightarrow> nat \<Rightarrow> ip_stack" where
  "releaseTcpListenerMemory w i = w\<lparr>tcp_listener_table := release_slot (tcp_listener_table w) i\<rparr>"

section \<open>The IP layer\<close>

definition cIPv4_initialize :: "ip_stack \<Rightarrow> ip_stack" where
  "cIPv4_initialize w = w\<lparr>tcp_port_counter := 0, ref_config := None\<rparr>"

definition cIPv4_start :: "ip_stack \<Rightarrow> ipv4_config \<Rightarrow> ip_stack option" where
  "cIPv4_start w i_ref_configlation = callSocketStart i_ref_configlation (w\<lparr>ref_config := Some i_ref_configlation\<rparr>)"

definition cIPv4_stop :: "ip_stack \<Rightarrow> ip_stack option" where
  "cIPv4_stop w = map_option (ref_config_update (\<lambda>_. None)) (callSocketStop w)"

definition cIPv4_periodec :: "periodic_handler \<Rightarrow> u32 \<Rightarrow> ip_stack \<Rightarrow> ip_stack option" where
  "cIPv4_periodec P now w = callPeriodic P now w"

text \<open>The loop \<open>for(i=0;i<0x0fff;i--)\<close> counts down: from 0 it goes to 65535 and ends.\<close>

function port_loop :: "u16 \<Rightarrow> ip_stack \<Rightarrow> u16 \<times> ip_stack" where
  "port_loop i w =
     (if i < 0x0fff then
        (let w = w\<lparr>tcp_port_counter := (tcp_port_counter w + 1) mod 0x0fff\<rparr>; n = tcp_port_counter w + 49152 in
         if isClosedTcpPort w n then (n, w) else port_loop (i - 1) w)
      else (0, w))"
  by pat_completeness auto
termination
proof (relation "measure (\<lambda>(i, w). if i < 0x0fff then unat i + 1 else 0)")
  fix i w x n
  assume "i < (0x0fff :: u16)"
  then have "i = 0 \<or> unat (i - 1) = unat i - 1 \<and> 0 < unat i"
    by (metis One_nat_def unat_1 unat_eq_0 unat_minus_one gr0I)
  then show "((i - 1, x), i, w) \<in> measure (\<lambda>(i, w). if i < 0x0fff then unat i + 1 else 0)"
    using \<open>i < 0x0fff\<close> by auto
qed simp

declare port_loop.simps [simp del]

definition cIPv4_getNewPortNumber :: "ip_stack \<Rightarrow> u16 \<times> ip_stack" where
  "cIPv4_getNewPortNumber w = port_loop 0 w"

definition tcp_rx :: "u32 \<Rightarrow> ip_stack \<Rightarrow> ipv4_payload \<Rightarrow> (block option \<times> ip_stack) option" where
  "tcp_rx now w i_ipp = do {
     cfg \<leftarrow> ref_config w;
     if \<not> TIPv4Addr_isEqual (destipaddr (pl_header i_ipp)) (ip_addr cfg) then Some (None, w)
     else do {
       c \<leftarrow> TIPv4Header_makeTcpChecksum (pl_packet i_ipp);
       if c \<noteq> 0xffff then Some (None, w)
       else do {
         t \<leftarrow> tcp_header_at (pl_packet i_ipp) (pl_rawbuf i_ipp);
         (case getMatchTcpSocket w (destport t) (srcipaddr (pl_header i_ipp)) (srcport t) of
            Some i \<Rightarrow> do {
              (r, s, n) \<leftarrow> cMiMicIpTcpSocket_parseRx now (slot_obj (tcp_socket_table w ! i)) (net w) i_ipp;
              Some (r, w\<lparr>tcp_socket_table := set_obj (tcp_socket_table w) i s, net := n\<rparr>) }
          | None \<Rightarrow>
              (case getListenerByPeerPort w (destport t) of
                 None \<Rightarrow> do {
                   (b, n) \<leftarrow> cMiMicIpTcpSocket_allocTcpReverseRstAck (net w) i_ipp;
                   Some (Some b, w\<lparr>net := n\<rparr>) }
               | Some i \<Rightarrow> do {
                   (ok, l) \<leftarrow> cMiMicIpTcpListener_synPacket (slot_obj (tcp_listener_table w ! i)) i_ipp;
                   Some (None, w\<lparr>tcp_listener_table := set_obj (tcp_listener_table w) i l\<rparr>) })) } } }"

text \<open>Which socket a datagram is for; the packet is only looked into when a socket is sought.\<close>

definition udp_receiver :: "ipv4_config \<Rightarrow> ip_stack \<Rightarrow> ipv4_addr \<Rightarrow> u16 \<Rightarrow> udp_index option" where
  "udp_receiver cfg w dest port =
     (if \<not> TIPv4Addr_isEqual dest (ip_addr cfg) then getMatchUdpSocket w port
      else if TIPv4Addr_isEqualWithMask dest TIPv4Addr_MULTICAST TIPv4Addr_MULTICAST_MASK
      then getMatchMulticastUdpSocket w dest port
      else if \<not> TIPv4Addr_isEqual dest TIPv4Addr_BROADCAST then getMatchUdpSocket w port
      else None)"

definition udp_rx :: "rx_handler \<Rightarrow> ip_stack \<Rightarrow> ipv4_payload \<Rightarrow> (bool \<times> ip_stack) option" where
  "udp_rx H w i_ipp = do {
     cfg \<leftarrow> ref_config w;
     u \<leftarrow> udp_header_at (pl_packet i_ipp) (pl_rawbuf i_ipp);
     (case udp_receiver cfg w (destipaddr (pl_header i_ipp)) (udp_destport u) of
        None \<Rightarrow> Some (False, w)
      | Some i \<Rightarrow> do {
          c \<leftarrow> TIPv4Header_makeTcpChecksum (pl_packet i_ipp);
          if c \<noteq> 0xffff then Some (False, w)
          else do {
            (r, s, n) \<leftarrow> cMiMicIpUdpSocket_parseRx H (udp_obj w i, net w) i_ipp;
            Some (r, (set_udp w i s)\<lparr>net := n\<rparr>) } }) }"

definition cIPv4_rx :: "u32 \<Rightarrow> rx_handler \<Rightarrow> ip_stack \<Rightarrow> u8 list \<Rightarrow> u16 \<Rightarrow> (block option \<times> ip_stack) option" where
  "cIPv4_rx now H w i_rx i_rx_size =
     (if ref_config w = None then Some (None, w)
      else do {
        (ok, pl) \<leftarrow> cIPv4Payload_attachRxBuf i_rx i_rx_size;
        if \<not> ok then Some (None, w)
        else if proto (pl_header pl) = UIP_PROTO_TCP then tcp_rx now w pl
        else if proto (pl_header pl) = UIP_PROTO_UDP then do {
          (r, w) \<leftarrow> udp_rx H w pl;
          Some (None, w) }
        else if proto (pl_header pl) = UIP_PROTO_ICMP then do {
          (r, n) \<leftarrow> cIPv4IComp_rx (net w) pl;
          Some (r, w\<lparr>net := n\<rparr>) }
        else Some (None, w) })"

section \<open>Frames\<close>

text \<open>
  ARP: the answer of \<open>NyLPC_cIPv4Arp_rx\<close> is written to a system buffer, of whose old contents only the
  Ethernet header matters.
\<close>

definition arp_rx_frame :: "netif \<Rightarrow> u8 list \<Rightarrow> u16 \<Rightarrow> ((block \<times> u16) option \<times> netif) option" where
  "arp_rx_frame n buf rx_len =
     (if rx_len < 28 then Some (None, n)
      else do {
        a \<leftarrow> arp_header_at buf 14;
        e \<leftarrow> eth_header_at buf 0;
        (case cIPv4Arp_rx (arp_st n) a rx_len e of
           (t, None) \<Rightarrow> Some (None, n\<lparr>arp_st := t\<rparr>)
         | (t, Some _) \<Rightarrow> do {
             (b, n) \<leftarrow> cMiMicIpNetIf_allocSysTxBuf (n\<lparr>arp_st := t\<rparr>);
             e \<leftarrow> eth_header_at (mem n b) 0;
             (tx, e, tx_len) \<leftarrow> snd (cIPv4Arp_rx t a rx_len e);
             f \<leftarrow> blit (mem n b) 0 (eth_header_bytes e @ arp_header_bytes tx);
             Some (Some (b, tx_len), n\<lparr>mem := (mem n)(b := f)\<rparr>) }) })"

definition rx_frame :: "u32 \<Rightarrow> rx_handler \<Rightarrow> ip_stack \<Rightarrow> u8 list \<times> u16 \<Rightarrow> ip_stack option" where
  "rx_frame now H w fr = (let (ethbuf, rx_len) = fr in
     if rx_len = 0 then Some w
     else do {
       let rx_len = rx_len - 14;
       e \<leftarrow> eth_header_at ethbuf 0;
       if eth_type e = HTONS ETH_TYPE_IP then do {
         src \<leftarrow> word_at ethbuf (14 + 12);
         let w = w\<lparr>net := (net w)\<lparr>arp_st := cIPv4Arp_incomingIp (arp_st (net w)) e src\<rparr>\<rparr>;
         (r, w) \<leftarrow> cIPv4_rx now H w (drop 14 ethbuf) rx_len;
         (case r of
            None \<Rightarrow> Some w
          | Some b \<Rightarrow> do {
              n \<leftarrow> cMiMicIpNetIf_sendIPv4Tx (net w) b;
              Some (w\<lparr>net := cMiMicIpNetIf_releaseTxBuf n b\<rparr>) }) }
       else if eth_type e = HTONS ETH_TYPE_ARP then do {
         (r, n) \<leftarrow> arp_rx_frame (net w) ethbuf rx_len;
         (case r of
            None \<Rightarrow> Some (w\<lparr>net := n\<rparr>)
          | Some (b, tx_len) \<Rightarrow> do {
              n \<leftarrow> sendRawEthFrameNL n b tx_len;
              Some (w\<lparr>net := cMiMicIpNetIf_releaseTxBuf n b\<rparr>) }) }
       else Some w })"

fun rx_frames :: "u32 \<Rightarrow> rx_handler \<Rightarrow> ip_stack \<Rightarrow> (u8 list \<times> u16) list \<Rightarrow> ip_stack option" where
  "rx_frames now H w [] = Some w"
| "rx_frames now H w (fr # frs) = do { w \<leftarrow> rx_frame now H w fr; rx_frames now H w frs }"

section \<open>The task\<close>

definition isRun :: "ip_stack \<Rightarrow> bool" where
  "isRun w \<longleftrightarrow> bit (if_status w) STATUSBIT_IS_RUNNING"

text \<open>
  Starting the device prepares the transmit memory and the descriptors; it returns when there is a
  link. Stopping it does not touch the modelled state.
\<close>

definition device_start :: "netif \<Rightarrow> netif" where
  "device_start n = n\<lparr>mm := cEthernetMM_initialize (mm n), ring := EthDev_LPC17xx_prevTxDescriptor (ring n)\<rparr>"

definition updateTaskStatus :: "u32 \<Rightarrow> ip_stack \<Rightarrow> (bool \<times> ip_stack) option" where
  "updateTaskStatus now w =
     (if isRun w then
        (if bit (if_status w) ORDER_STOP then do {
           w \<leftarrow> cIPv4_stop w;
           Some (False, w\<lparr>if_status := unset_bit ORDER_STOP (unset_bit STATUSBIT_IS_RUNNING (if_status w))\<rparr>) }
         else Some (True, w))
      else
        (if bit (if_status w) ORDER_START then do {
           w \<leftarrow> cIPv4_start w (net_cfg (net w));
           let n = device_start ((net w)\<lparr>arp_st := cIPv4Arp_initialize (arp_st (net w)) (net_cfg (net w))\<rparr>);
           Some (True, w\<lparr>net := n, arp_sw := cStopwatch_startExpire now (arp_sw w) 1,
             periodic_sw := cStopwatch_startExpire now (periodic_sw w) PERIODIC_TIMER,
             if_status := unset_bit ORDER_START (set_bit STATUSBIT_IS_RUNNING (if_status w))\<rparr>) }
         else Some (False, w)))"

definition uip_timers :: "periodic_handler \<Rightarrow> u32 \<Rightarrow> ip_stack \<Rightarrow> ip_stack option" where
  "uip_timers P now w = do {
     let (e, sw) = cStopwatch_isExpired now (arp_sw w);
     let w = (if e then w\<lparr>net := (net w)\<lparr>arp_st := cIPv4Arp_periodic (arp_st (net w))\<rparr>, arp_sw := cStopwatch_startExpire now sw ARP_TIMER\<rparr>
              else w\<lparr>arp_sw := sw\<rparr>);
     let (e, sw) = cStopwatch_isExpired now (periodic_sw w);
     if e then do {
       w \<leftarrow> cIPv4_periodec P now w;
       Some (w\<lparr>periodic_sw := cStopwatch_startExpire now sw PERIODIC_TIMER\<rparr>) }
     else Some (w\<lparr>periodic_sw := sw\<rparr>) }"

text \<open>One turn of the task's loop; \<open>rx\<close> are the frames the driver has for it.\<close>

definition uipTask :: "rx_handler \<Rightarrow> periodic_handler \<Rightarrow> u32 \<Rightarrow> (u8 list \<times> u16) list \<Rightarrow> ip_stack \<Rightarrow> ip_stack option" where
  "uipTask H P now rx w = do {
     (run, w) \<leftarrow> updateTaskStatus now w;
     if \<not> run then Some w
     else do {
       w \<leftarrow> rx_frames now H w rx;
       uip_timers P now w } }"

text \<open>\<open>start\<close> and \<open>stop\<close> set an order and wait until the task has carried it out.\<close>

fun wait_order :: "nat \<Rightarrow> ip_stack \<Rightarrow> ip_stack script \<Rightarrow> (ip_stack \<times> ip_stack script) option" where
  "wait_order k w env =
     (if bit (if_status w) k
      then (case env of [] \<Rightarrow> None | (now, f) # env \<Rightarrow> wait_order k (f w) env)
      else Some (w, env))"

definition cMiMicIpNetIf_initialize :: "ip_stack \<Rightarrow> ip_stack" where
  "cMiMicIpNetIf_initialize w = (cIPv4_initialize w)\<lparr>if_status := 0\<rparr>"

definition cMiMicIpNetIf_start :: "ip_stack \<Rightarrow> ipv4_config \<Rightarrow> ip_stack script \<Rightarrow> (ip_stack \<times> ip_stack script) option" where
  "cMiMicIpNetIf_start w i_ref_config env =
     (if \<not> isRun w then
        wait_order ORDER_START (w\<lparr>net := (net w)\<lparr>net_cfg := i_ref_config\<rparr>, if_status := set_bit ORDER_START (if_status w)\<rparr>) env
      else Some (w, env))"

definition cMiMicIpNetIf_stop :: "ip_stack \<Rightarrow> ip_stack script \<Rightarrow> (ip_stack \<times> ip_stack script) option" where
  "cMiMicIpNetIf_stop w env =
     (if isRun w then wait_order ORDER_STOP (w\<lparr>if_status := set_bit ORDER_STOP (if_status w)\<rparr>) env
      else Some (w, env))"

end
