(* ===== verification/IpDispatch.thy ===== *)
theory IpDispatch
  imports IpStack UdpDatagram
begin

text \<open>
  What the dispatcher of received packets promises: it finds the entry that matches, touches
  nothing else, drops what is damaged or for somebody else, and hands out table entries
  exclusively.
\<close>

unbundle bit_operations_syntax

section \<open>Searching the tables\<close>

lemma find_down_Some:
  "find_down P t = Some i \<Longrightarrow> i < length t \<and> slot_used (t ! i) \<and> P (slot_obj (t ! i))"
  by (auto simp: find_down_def find_Some_iff rev_nth)

lemma find_down_None:
  "find_down P t = None \<longleftrightarrow> (\<forall>i<length t. slot_used (t ! i) \<longrightarrow> \<not> P (slot_obj (t ! i)))"
  by (auto simp: find_down_def find_None_iff)

lemma find_free_Some: "find_free t = Some i \<Longrightarrow> i < length t \<and> \<not> slot_used (t ! i)"
  by (auto simp: find_free_def find_Some_iff)

lemma find_free_None: "find_free t = None \<longleftrightarrow> (\<forall>i<length t. slot_used (t ! i))"
  by (auto simp: find_free_def find_None_iff)

lemma set_obj_simps [simp]: "length (set_obj t i x) = length t"
  "j \<noteq> i \<Longrightarrow> set_obj t i x ! j = t ! j"
  "i < length t \<Longrightarrow> slot_obj (set_obj t i x ! i) = x"
  "slot_used (set_obj t i x ! j) = slot_used (t ! j)"
  by (cases "i < length t"; simp add: set_obj_def slot_used_def nth_list_update list_update_beyond)+

lemma set_obj_changed: "set_obj t i x ! j \<noteq> t ! j \<Longrightarrow> j = i"
  using set_obj_simps(2) by metis

section \<open>Packets that are dropped\<close>


section \<open>Connections are isolated\<close>

text \<open>The parts of the stack that only the user's calls and the timers change.\<close>

definition same_frame :: "ip_stack \<Rightarrow> ip_stack \<Rightarrow> bool" where
  "same_frame w w' \<longleftrightarrow> ref_config w' = ref_config w \<and> tcp_port_counter w' = tcp_port_counter w \<and>
     if_status w' = if_status w \<and> arp_sw w' = arp_sw w \<and> periodic_sw w' = periodic_sw w"

text \<open>
  C29: Receiving a TCP segment changes at most one entry of the socket and listener tables: the open socket whose
  ports and peer address are those of the segment, or, when there is none, a listener on its port.
\<close>

theorem tcp_rx_isolated:
  assumes "tcp_rx now w pl = Some (r, w')" "tcp_header_at (pl_packet pl) (pl_rawbuf pl) = Some t"
  shows "udp_socket_table w' = udp_socket_table w \<and> udp_socket_nb_table w' = udp_socket_nb_table w \<and> same_frame w w' \<and>
    (\<forall>i s. tcp_socket_table w' ! i \<noteq> tcp_socket_table w ! i \<and> s = slot_obj (tcp_socket_table w ! i) \<longrightarrow>
       getMatchTcpSocket w (destport t) (srcipaddr (pl_header pl)) (srcport t) = Some i \<and>
       slot_used (tcp_socket_table w ! i) \<and> \<not> cMiMicIpTcpSocket_isClosed s \<and>
       lport (conn s) = destport t \<and> rport (conn s) = srcport t \<and> ripaddr (conn s) = srcipaddr (pl_header pl)) \<and>
    (\<forall>i. tcp_listener_table w' ! i \<noteq> tcp_listener_table w ! i \<longrightarrow>
       getMatchTcpSocket w (destport t) (srcipaddr (pl_header pl)) (srcport t) = None \<and>
       slot_used (tcp_listener_table w ! i) \<and> l_port (slot_obj (tcp_listener_table w ! i)) = destport t)"
proof -
  obtain cfg where cfg: "ref_config w = Some cfg" using assms(1) by (auto simp: tcp_rx_def split: Option.bind_splits)
  obtain c where c: "w' = w \<or> TIPv4Header_makeTcpChecksum (pl_packet pl) = Some c \<and> c = 0xffff \<and>
      TIPv4Addr_isEqual (destipaddr (pl_header pl)) (ip_addr cfg)"
    using assms(1) cfg by (auto simp: tcp_rx_def split: Option.bind_splits if_splits)
  show ?thesis
  proof (cases "w' = w")
    case True
    then show ?thesis by (simp add: same_frame_def)
  next
    case False
    let ?m = "getMatchTcpSocket w (destport t) (srcipaddr (pl_header pl)) (srcport t)"
    have rx: "(case ?m of
            Some i \<Rightarrow> do {
              (r, s, n) \<leftarrow> cMiMicIpTcpSocket_parseRx now (slot_obj (tcp_socket_table w ! i)) (net w) pl;
              Some (r, w\<lparr>tcp_socket_table := set_obj (tcp_socket_table w) i s, net := n\<rparr>) }
          | None \<Rightarrow>
              (case getListenerByPeerPort w (destport t) of
                 None \<Rightarrow> do {
                   (b, n) \<leftarrow> cMiMicIpTcpSocket_allocTcpReverseRstAck (net w) pl;
                   Some (Some b, w\<lparr>net := n\<rparr>) }
               | Some i \<Rightarrow> do {
                   (ok, l) \<leftarrow> cMiMicIpTcpListener_synPacket (slot_obj (tcp_listener_table w ! i)) pl;
                   Some (None, w\<lparr>tcp_listener_table := set_obj (tcp_listener_table w) i l\<rparr>) })) = Some (r, w')"
      using assms c cfg False by (simp add: tcp_rx_def)
    show ?thesis
    proof (cases ?m)
      case None
      show ?thesis
      proof (cases "getListenerByPeerPort w (destport t)")
        case None
        then show ?thesis using rx \<open>?m = None\<close> by (auto simp: same_frame_def split: Option.bind_splits)
      next
        case (Some i)
        then obtain l where w': "w' = w\<lparr>tcp_listener_table := set_obj (tcp_listener_table w) i l\<rparr>"
          using rx \<open>?m = None\<close> by (auto split: Option.bind_splits)
        have "slot_used (tcp_listener_table w ! i) \<and> l_port (slot_obj (tcp_listener_table w ! i)) = destport t"
          using Some find_down_Some by (fastforce simp: getListenerByPeerPort_def)
        then show ?thesis unfolding w' using \<open>?m = None\<close>
          by (auto simp: same_frame_def dest: set_obj_changed)
      qed
    next
      case (Some i)
      then obtain s n where w': "w' = w\<lparr>tcp_socket_table := set_obj (tcp_socket_table w) i s, net := n\<rparr>"
        using rx by (auto split: Option.bind_splits)
      show ?thesis unfolding w'
        using Some find_down_Some [OF Some [unfolded getMatchTcpSocket_def]]
        by (auto simp: same_frame_def dest: set_obj_changed)
    qed
  qed
qed

section \<open>Handing out table entries\<close>

lemma claim_slot_cases:
  assumes "\<forall>e\<in>set t. slot_flags e \<in> {0, 1}"
  obtains "claim_slot init t = None" "\<forall>i<length t. slot_used (t ! i)"
  | i t' where "claim_slot init t = Some (i, t')" "i < length t" "\<not> slot_used (t ! i)" "slot_used (t' ! i)"
      "slot_obj (t' ! i) = init (slot_obj (t ! i))" "\<And>j. j \<noteq> i \<Longrightarrow> t' ! j = t ! j" "length t' = length t"
      "release_slot t' i = t[i := (t ! i)\<lparr>slot_obj := init (slot_obj (t ! i))\<rparr>]"
proof (cases "find_free t")
  case None
  then show ?thesis using that(1) find_free_None [of t] by (simp add: claim_slot_def)
next
  case (Some i)
  note f = find_free_Some [OF Some]
  then have "slot_flags (t ! i) = 0" using assms by (force simp: slot_used_def)
  then have e: "\<lparr>slot_flags = 0, slot_obj = x\<rparr> = (t ! i)\<lparr>slot_obj := x\<rparr>" for x by (cases "t ! i") simp
  let ?t' = "t[i := \<lparr>slot_flags = slot_flags (t ! i) OR 1, slot_obj = init (slot_obj (t ! i))\<rparr>]"
  show ?thesis
    by (rule that(2) [of i ?t']) (use f Some \<open>slot_flags (t ! i) = 0\<close> in \<open>simp_all add: claim_slot_def slot_used_def release_slot_def e\<close>)
qed

definition flags01 :: "'a slot list \<Rightarrow> bool" where
  "flags01 t \<longleftrightarrow> (\<forall>e\<in>set t. slot_flags e \<in> {0, 1})"

text \<open>
  Creating a TCP socket takes a free entry, marks it used, closes it and empties its queues, and
  touches no other entry; none is handed out only when all are in use; and a released entry is free
  again, so that it can be handed out once more.
\<close>

theorem tcp_socket_created:
  assumes "flags01 (tcp_socket_table w)" "ty \<in> {SocketType_TCP_NORMAL, SocketType_TCP_HTTP}"
  shows "case createTcpSocetEx w ty of
      (None, w') \<Rightarrow> w' = w \<and> (\<forall>i<length (tcp_socket_table w). slot_used (tcp_socket_table w ! i))
    | (Some i, w') \<Rightarrow> i < length (tcp_socket_table w) \<and> \<not> slot_used (tcp_socket_table w ! i) \<and>
        (let s = slot_obj (tcp_socket_table w' ! i) in cMiMicIpTcpSocket_isClosed s \<and> pending s = Some [] \<and>
           cFifoBuffer_getPtr (rxbuf s) = [] \<and> slot_used (tcp_socket_table w' ! i)) \<and>
        (\<forall>j. j \<noteq> i \<longrightarrow> tcp_socket_table w' ! j = tcp_socket_table w ! j) \<and>
        flags01 (tcp_socket_table w') \<and> \<not> slot_used (tcp_socket_table (releaseTcpSocketMemory w' i) ! i)"
proof -
  let ?init = "\<lambda>s. cMiMicIpTcpSocket_initialize s (fbuf (rxbuf s)) 512"
  show ?thesis
  proof (rule claim_slot_cases [OF assms(1) [unfolded flags01_def], of ?init])
    assume "claim_slot ?init (tcp_socket_table w) = None" "\<forall>i<length (tcp_socket_table w). slot_used (tcp_socket_table w ! i)"
    then show ?thesis using assms(2) by (auto simp: createTcpSocetEx_def)
  next
    fix i t'
    assume a: "claim_slot ?init (tcp_socket_table w) = Some (i, t')" "i < length (tcp_socket_table w)"
      "\<not> slot_used (tcp_socket_table w ! i)" "slot_used (t' ! i)" "slot_obj (t' ! i) = ?init (slot_obj (tcp_socket_table w ! i))"
      "\<And>j. j \<noteq> i \<Longrightarrow> t' ! j = tcp_socket_table w ! j" "length t' = length (tcp_socket_table w)"
      "release_slot t' i = (tcp_socket_table w)[i := (tcp_socket_table w ! i)\<lparr>slot_obj := ?init (slot_obj (tcp_socket_table w ! i))\<rparr>]"
    have "flags01 t'"
      using a(1) assms(1) find_free_Some [of "tcp_socket_table w" i]
      by (auto simp: claim_slot_def flags01_def slot_used_def split: option.splits dest!: set_update_subset_insert [THEN subsetD])
        (use nth_mem in fastforce)+
    moreover have "createTcpSocetEx w ty = (Some i, w\<lparr>tcp_socket_table := t'\<rparr>)" using assms(2) a(1) by (auto simp: createTcpSocetEx_def)
    moreover have "pending (?init s) = Some []" "cFifoBuffer_getPtr (rxbuf (?init s)) = []" "cMiMicIpTcpSocket_isClosed (?init s)" for s
      by (simp_all add: pending_def cMiMicIpTcpSocket_initialize_def txq_range.simps cFifoBuffer_getPtr_def cFifoBuffer_initialize_def
          cMiMicIpTcpSocket_isClosed_def)
    moreover have "\<not> slot_used (release_slot t' i ! i)" unfolding a(8) using a(2,3) by (simp add: slot_used_def)
    ultimately show ?thesis using a(2-6) by (simp add: Let_def releaseTcpSocketMemory_def)
  qed
qed

section \<open>Choosing a port\<close>

lemma getNewPortNumber_once:
  "cIPv4_getNewPortNumber w =
     (let c = (tcp_port_counter w + 1) mod 0x0fff; w = w\<lparr>tcp_port_counter := c\<rparr>; n = c + 49152 in
      (if isClosedTcpPort w n then n else 0, w))"
  by (simp add: cIPv4_getNewPortNumber_def port_loop.simps [of 0] port_loop.simps [of "- 1"] Let_def)

lemma isClosedTcpPort_iff:
  "isClosedTcpPort w n \<longleftrightarrow>
     (\<forall>i<length (tcp_socket_table w). let s = slot_obj (tcp_socket_table w ! i) in
        slot_used (tcp_socket_table w ! i) \<longrightarrow> lport (conn s) = n \<longrightarrow> cMiMicIpTcpSocket_isClosed s) \<and>
     (\<forall>i<length (tcp_listener_table w). slot_used (tcp_listener_table w ! i) \<longrightarrow> l_port (slot_obj (tcp_listener_table w ! i)) \<noteq> n)"
  by (auto simp: isClosedTcpPort_def find_down_None Let_def)

text \<open>
  C30: The port for a new connection is taken without regard to the connections that use it: it is
  compared in host order with the ports of the sockets, which are in network order, and only
  one candidate is tried. A port a socket is connected from is handed out again.
\<close>

theorem port_handed_out_twice:
  assumes "n = (tcp_port_counter w + 1) mod 0x0fff + 49152" "i < length (tcp_socket_table w)" "slot_used (tcp_socket_table w ! i)"
    "lport (conn (slot_obj (tcp_socket_table w ! i))) = htons n" "\<not> cMiMicIpTcpSocket_isClosed (slot_obj (tcp_socket_table w ! i))"
    "\<forall>e\<in>set (tcp_socket_table w). lport (conn (slot_obj e)) \<noteq> n" "\<forall>e\<in>set (tcp_listener_table w). l_port (slot_obj e) \<noteq> n"
  shows "fst (cIPv4_getNewPortNumber w) = n \<and> \<not> isClosedTcpPort w (htons n)"
proof
  have "isClosedTcpPort (w\<lparr>tcp_port_counter := c\<rparr>) n" for c using assms(6,7) by (auto simp: isClosedTcpPort_iff Let_def)
  then show "fst (cIPv4_getNewPortNumber w) = n" by (simp add: getNewPortNumber_once Let_def assms(1))
  show "\<not> isClosedTcpPort w (htons n)" using assms(2-5) by (auto simp: isClosedTcpPort_iff Let_def)
qed

section \<open>Lengths that are too small\<close>

text \<open>
  C31: A TCP segment whose IP header gives a total length below the length of the header itself passes
  the tests of the IP layer; the length of its payload wraps around, and the checksum reads behind the receive
  buffer.
\<close>

theorem short_packet_overread:
  assumes "cIPv4Payload_attachRxBuf p sz = Some (True, pl)" "proto (pl_header pl) = UIP_PROTO_TCP"
    "ref_config w = Some cfg" "destipaddr (pl_header pl) = ip_addr cfg"
    "unat (ntohs (len16 (pl_header pl))) < TIPv4Header_getHeaderLength (pl_header pl)" "length p < 65476"
  shows "cIPv4_rx now H w p sz = None"
proof -
  let ?h = "pl_header pl"
  let ?hl = "TIPv4Header_getHeaderLength ?h" and ?l = "ntohs (len16 ?h)"
  have p: "pl_packet pl = p" "ipv4_header_at p = Some ?h"
    using assms(1) by (auto simp: cIPv4Payload_attachRxBuf_def Let_def split: Option.bind_splits if_splits)
  have "unat (vhl ?h AND 0x0f) \<le> 15"
    using word_and_le1 [of "vhl ?h" "0x0f"] by (simp add: word_le_nat_alt)
  then have hl: "?hl \<le> 60" by (simp add: TIPv4Header_getHeaderLength_def)
  then have u: "unat (of_nat ?hl :: u16) = ?hl" by (intro unat_of_nat_u16) simp
  have "unat (?l - of_nat ?hl) = unat ?l + 65536 - ?hl"
    using assms(5) u by (simp add: unat_sub_if')
  then have "length p < ?hl + unat (?l - of_nat ?hl)" using assms(5,6) hl by linarith
  then have "uip_chksum s p ?hl (unat (?l - of_nat ?hl)) = None" for s by (simp add: uip_chksum_def)
  then have "TIPv4Header_makeTcpChecksum p = None"
    using p(2) by (simp add: TIPv4Header_makeTcpChecksum_def Let_def)
  then show ?thesis using assms(1-4) p(1) by (simp add: cIPv4_rx_def tcp_rx_def TIPv4Addr_isEqual_def)
qed

section \<open>Datagrams for others\<close>

lemma find_udp_Some:
  assumes "find_udp P w = Some i"
  shows "P (uip_udp_conn (udp_obj w i))" "udp_obj ((set_udp w i s)\<lparr>net := n\<rparr>) i = s"
proof -
  have "find_down (\<lambda>s. P (uip_udp_conn s)) (udp_socket_table w) = Some k \<Longrightarrow>
      k < length (udp_socket_table w) \<and> P (uip_udp_conn (slot_obj (udp_socket_table w ! k)))" for k
    using find_down_Some by fastforce
  moreover have "find_down (\<lambda>s. P (uip_udp_conn s)) (udp_socket_nb_table w) = Some k \<Longrightarrow>
      k < length (udp_socket_nb_table w) \<and> P (uip_udp_conn (slot_obj (udp_socket_nb_table w ! k)))" for k
    using find_down_Some by fastforce
  ultimately show "P (uip_udp_conn (udp_obj w i))" "udp_obj ((set_udp w i s)\<lparr>net := n\<rparr>) i = s"
    using assms by (auto simp: find_udp_def udp_obj_def set_udp_def split: option.splits)
qed

text \<open>
  A datagram for another host is given to the socket on its port: the test of the address is the wrong
  way round, so every address but the own is accepted, whether it belongs to another host, or to a
  multicast group that was never joined.
\<close>

theorem foreign_datagram_accepted:
  assumes "28 + unat k \<le> length p" "unat k < 65508" "setUdpTxBufHeader pid peer p dest port 5 k = Some (pid + 1, p')"
    "ref_config w = Some cfg" "dest \<noteq> ip_addr cfg" "dest \<noteq> TIPv4Addr_BROADCAST"
    "getMatchUdpSocket w (htons port) = Some i" "on_rx (udp_obj w i) = None" "udp_inv (udp_obj w i) ds"
    "14 + unat k \<le> fifo_room (u_rxbuf (udp_obj w i))"
  shows "\<exists>w'. cIPv4_rx now H w p' (28 + k) = Some (None, w') \<and>
    udp_inv (udp_obj w' i) (ds @ [(\<lparr>ri_size = k, ri_port = port, ri_peer_port = ntohs (u_lport (uip_udp_conn peer)), ri_ip = dest,
      ri_peer_ip = u_lipaddr (uip_udp_conn peer)\<rparr>, take (unat k) (drop 28 p))])"
proof -
  obtain h u where a: "\<forall>sz. 28 + unat k \<le> unat sz \<longrightarrow>
       cIPv4Payload_attachRxBuf p' sz = Some (True, \<lparr>pl_packet = p', pl_header = h, pl_rawbuf = 20\<rparr>)"
    "cIPv4Packet_isCorrectTcpCheckSum p' = Some True" "proto h = UIP_PROTO_UDP" "udp_header_at p' 20 = Some u" "drop 28 p' = drop 28 p"
    "rx_info_of \<lparr>pl_packet = p', pl_header = h, pl_rawbuf = 20\<rparr> u =
      \<lparr>ri_size = k, ri_port = port, ri_peer_port = ntohs (u_lport (uip_udp_conn peer)), ri_ip = dest, ri_peer_ip = u_lipaddr (uip_udp_conn peer)\<rparr>"
    using setUdpTxBufHeader_ok [OF assms(1,2), of pid peer dest port] assms(3) by auto
  let ?pl = "\<lparr>pl_packet = p', pl_header = h, pl_rawbuf = 20\<rparr>"
  let ?d = "\<lparr>ri_size = k, ri_port = port, ri_peer_port = ntohs (u_lport (uip_udp_conn peer)), ri_ip = dest, ri_peer_ip = u_lipaddr (uip_udp_conn peer)\<rparr>"
  have "unat (28 + k) = 28 + unat k" using assms(2) by (subst unat_add_small) simp_all
  then have at: "cIPv4Payload_attachRxBuf p' (28 + k) = Some (True, ?pl)" using a(1) by simp
  have d: "destipaddr h = dest" "ntohs (udp_destport u) = port" using a(6) by (simp_all add: rx_info_of_def)
  then have port: "udp_destport u = htons port" by auto
  have "unat (ri_size ?d) \<le> length (drop 28 p)" using assms(1) by simp
  from store_datagram_ok [OF assms(9) this] obtain s where
    s: "store_datagram (udp_obj w i) ?d (drop 28 p) = Some s" "udp_inv s (ds @ [(?d, take (unat k) (drop 28 p))])"
    using assms(10) by auto
  have "cMiMicIpUdpSocket_parseRx H (udp_obj w i, net w) ?pl = Some (False, (s, net w))"
    using assms(6,8) d(1) a(4,5,6) s(1) by (simp add: cMiMicIpUdpSocket_parseRx_def TIPv4Addr_isEqual_def)
  moreover have "TIPv4Header_makeTcpChecksum p' = Some 0xffff" using a(2) by (auto simp: cIPv4Packet_isCorrectTcpCheckSum_def)
  ultimately have "cIPv4_rx now H w p' (28 + k) = Some (None, (set_udp w i s)\<lparr>net := net w\<rparr>)"
    using assms(4,5,7) at a(3,4) d(1) port by (simp add: cIPv4_rx_def udp_rx_def udp_receiver_def TIPv4Addr_isEqual_def)
  moreover have "udp_obj ((set_udp w i s)\<lparr>net := net w\<rparr>) i = s"
    using find_udp_Some(2) assms(7) by (simp add: getMatchUdpSocket_def)
  ultimately show ?thesis using s(2) by auto
qed

section \<open>A stack\<close>

text \<open>
  A stack with an open TCP socket, a listener on port 80 and a UDP socket on port 5353, for the
  witnesses.
\<close>

definition demo_stack :: ip_stack where
  "demo_stack = \<lparr>net = demo_net,
     tcp_socket_table = \<lparr>slot_flags = 1, slot_obj = demo_socket\<lparr>conn := demo_conn\<lparr>lport := htons 49153\<rparr>\<rparr>\<rparr> # replicate 2 \<lparr>slot_flags = 0, slot_obj = demo_socket\<rparr>,
     udp_socket_table = [\<lparr>slot_flags = 1, slot_obj = demo_udp\<rparr>], udp_socket_nb_table = replicate 2 \<lparr>slot_flags = 0, slot_obj = demo_udp\<rparr>,
     tcp_listener_table = [\<lparr>slot_flags = 1, slot_obj = demo_listener\<rparr>, \<lparr>slot_flags = 0, slot_obj = demo_listener\<rparr>],
     ref_config = Some demo_config, tcp_port_counter = 0, if_status = 1,
     arp_sw = \<lparr>sw_tick = 0, ex_timeout = 1\<rparr>, periodic_sw = \<lparr>sw_tick = 0, ex_timeout = 200\<rparr>\<rparr>"

theorem port_handed_out_twice_witness:
  "fst (cIPv4_getNewPortNumber demo_stack) = 49153 \<and> \<not> isClosedTcpPort demo_stack (htons 49153)"
proof (rule port_handed_out_twice [where i = 0])
  show "49153 = (tcp_port_counter demo_stack + 1) mod 0x0fff + 49152" by (simp add: demo_stack_def)
qed (simp_all add: demo_stack_def slot_used_def demo_socket_def demo_conn_def cMiMicIpTcpSocket_isClosed_def demo_listener_def
    cMiMicIpTcpListener_initialize_def TUInt16_bswap_def TUInt16_BSWAP_def)

theorem tcp_socket_created_witness:
  "\<exists>w'. createTcpSocetEx demo_stack SocketType_TCP_NORMAL = (Some 1, w') \<and> slot_used (tcp_socket_table w' ! 1) \<and>
    tcp_socket_table w' ! 0 = tcp_socket_table demo_stack ! 0"
proof -
  have "fst (createTcpSocetEx demo_stack 0x100) = Some 1" by code_simp
  then obtain w' where "createTcpSocetEx demo_stack 0x100 = (Some 1, w')" by (metis prod.collapse)
  moreover have "flags01 (tcp_socket_table demo_stack)" by (simp add: flags01_def demo_stack_def)
  ultimately show ?thesis using tcp_socket_created [of demo_stack "0x100"] by (auto simp: Let_def)
qed


text \<open>A SYN segment for port 80, and an IP header that claims a length of ten bytes.\<close>

definition demo_syn :: "u8 list" where
  "demo_syn = ipv4_header_bytes (demo_header\<lparr>len16 := htons 40, ipchksum := 17344, srcipaddr := 0x0200a8c0, destipaddr := 0x0100a8c0\<rparr>) @
     tcp_header_bytes \<lparr>srcport = htons 1025, destport = htons 80, seqno32 = htonl 7, ackno32 = 0, tcpoffset = 0x50, tcp_flags = 2,
       wnd16 = htons 1000, tcpchksum = 20262, urgp = [0, 0]\<rparr>"

definition demo_syn_payload :: ipv4_payload where
  "demo_syn_payload = \<lparr>pl_packet = demo_syn, pl_header = demo_header\<lparr>len16 := htons 40, ipchksum := 17344, srcipaddr := 0x0200a8c0, destipaddr := 0x0100a8c0\<rparr>,
     pl_rawbuf = 20\<rparr>"

theorem tcp_rx_isolated_witness:
  "\<exists>w'. tcp_rx 0 demo_stack demo_syn_payload = Some (None, w') \<and>
    tcp_listener_table w' ! 0 \<noteq> tcp_listener_table demo_stack ! 0 \<and> tcp_listener_table w' ! 1 = tcp_listener_table demo_stack ! 1 \<and>
    (\<forall>i. tcp_socket_table w' ! i = tcp_socket_table demo_stack ! i)"
proof -
  let ?q = "\<lambda>w. lq_wp (l_queue (slot_obj (tcp_listener_table w ! 0)))"
  have "map_option (\<lambda>(r, w'). (r, ?q w')) (tcp_rx 0 demo_stack demo_syn_payload) = Some (None, 1)" by code_simp
  then obtain w' where w': "tcp_rx 0 demo_stack demo_syn_payload = Some (None, w')" "?q w' = 1" by auto
  have t: "map_option (\<lambda>t. (destport t, srcport t)) (tcp_header_at (pl_packet demo_syn_payload) (pl_rawbuf demo_syn_payload)) =
      Some (htons 80, htons 1025)" by code_simp
  then obtain t where t: "tcp_header_at (pl_packet demo_syn_payload) (pl_rawbuf demo_syn_payload) = Some t"
    "destport t = htons 80" "srcport t = htons 1025" by auto
  have "getMatchTcpSocket demo_stack (htons 80) (srcipaddr (pl_header demo_syn_payload)) (htons 1025) = None" by code_simp
  moreover have "?q demo_stack = 0" by code_simp
  moreover have "\<not> slot_used (tcp_listener_table demo_stack ! 1)" by code_simp
  ultimately show ?thesis using w' t(2,3) tcp_rx_isolated [OF w'(1) t(1)]
    by (intro exI [of _ w'] conjI) (auto simp del: One_nat_def)
qed

theorem short_packet_overread_witness:
  "\<forall>now H. cIPv4_rx now H demo_stack (ipv4_header_bytes (demo_header\<lparr>len16 := htons 10, ipchksum := 25024, srcipaddr := 0x0200a8c0,
     destipaddr := 0x0100a8c0\<rparr>) @ replicate 44 0) 64 = None"
proof (intro allI)
  fix now H
  let ?h = "demo_header\<lparr>len16 := htons 10, ipchksum := 25024, srcipaddr := 0x0200a8c0, destipaddr := 0x0100a8c0\<rparr>"
  have "cIPv4Payload_attachRxBuf (ipv4_header_bytes ?h @ replicate 44 0) 64 =
      Some (True, \<lparr>pl_packet = ipv4_header_bytes ?h @ replicate 44 0, pl_header = ?h, pl_rawbuf = 20\<rparr>)"
    by code_simp
  then show "cIPv4_rx now H demo_stack (ipv4_header_bytes ?h @ replicate 44 0) 64 = None"
    by (rule short_packet_overread [where cfg = demo_config])
      (code_simp, simp add: demo_stack_def, code_simp, code_simp, simp)
qed

theorem foreign_datagram_accepted_witness:
  "\<forall>now H. \<exists>p' w'. setUdpTxBufHeader 1 demo_udp (replicate 28 0 @ [1, 2, 3, 0]) 0x0700a8c0 5353 5 3 = Some (2, p') \<and>
    cIPv4_rx now H demo_stack p' 31 = Some (None, w') \<and>
    udp_inv (udp_obj w' (Buffered 0)) [(\<lparr>ri_size = 3, ri_port = 5353, ri_peer_port = 5353, ri_ip = 0x0700a8c0, ri_peer_ip = 0x0100a8c0\<rparr>, [1, 2, 3])]"
proof (intro allI)
  fix now H
  let ?p = "replicate 28 0 @ [1, 2, 3, 0] :: u8 list"
  have l: "28 + unat (3 :: u16) \<le> length ?p" "unat (3 :: u16) < 65508" by simp_all
  obtain p' where p': "setUdpTxBufHeader 1 demo_udp ?p 0x0700a8c0 5353 5 3 = Some (1 + 1, p')"
    using setUdpTxBufHeader_ok [OF l, of 1 demo_udp "0x0700a8c0" 5353] by auto
  have o: "udp_obj demo_stack (Buffered 0) = demo_udp" by (simp add: udp_obj_def demo_stack_def)
  have c: "ref_config demo_stack = Some demo_config" "0x0700a8c0 \<noteq> ip_addr demo_config" "0x0700a8c0 \<noteq> TIPv4Addr_BROADCAST"
    by (simp_all add: demo_stack_def demo_config_def TIPv4Addr_BROADCAST_def)
  have m: "getMatchUdpSocket demo_stack (htons 5353) = Some (Buffered 0)" by code_simp
  have u: "on_rx (udp_obj demo_stack (Buffered 0)) = None" "udp_inv (udp_obj demo_stack (Buffered 0)) []"
    "14 + unat (3 :: u16) \<le> fifo_room (u_rxbuf (udp_obj demo_stack (Buffered 0)))"
    unfolding o using demo_udp_inv demo_udp_room by (simp_all add: demo_udp_def)
  have "ntohs (u_lport (uip_udp_conn demo_udp)) = 5353" "u_lipaddr (uip_udp_conn demo_udp) = 0x0100a8c0"
    by (simp_all add: demo_udp_def)
  then show "\<exists>p' w'. setUdpTxBufHeader 1 demo_udp ?p 0x0700a8c0 5353 5 3 = Some (2, p') \<and>
      cIPv4_rx now H demo_stack p' 31 = Some (None, w') \<and>
      udp_inv (udp_obj w' (Buffered 0)) [(\<lparr>ri_size = 3, ri_port = 5353, ri_peer_port = 5353, ri_ip = 0x0700a8c0, ri_peer_ip = 0x0100a8c0\<rparr>, [1, 2, 3])]"
    using foreign_datagram_accepted [OF l p' c m u, of now H] p' by simp
qed

end
