(* ===== verification/IpFrames.thy ===== *)
theory IpFrames
  imports IpDispatch
begin

text \<open>
  Frames in, frames out: the dispatcher, the ARP module, ICMP, the transmit memory and the driver
  together. An ARP request and a ping for the own address are each answered by the frame the
  requester expects.
\<close>

unbundle bit_operations_syntax

section \<open>Headers of received frames\<close>

lemma eth_header_at_frame:
  assumes "length d = 6" "length s = 6"
  shows "eth_header_at (d @ s @ half_bytes t @ p) 0 = Some \<lparr>eth_dest = d, eth_src = s, eth_type = t\<rparr>"
proof -
  have "half_at ((d @ s) @ half_bytes t @ p) (12 + 0) = Some t"
    using assms by (subst half_at_skip) (simp_all add: half_at_bytes)
  then show ?thesis using assms by (simp add: eth_header_at_def)
qed

lemma arp_header_at_skip: "length xs = n \<Longrightarrow> arp_header_at (xs @ ys) n = arp_header_at ys 0"
  using length_append [of xs ys]
  by (simp only: arp_header_at_def at_skip add_0 drop_append, auto simp: at_skip)

lemma length_arp_header_bytes: "eth_wf (shwaddr a) \<Longrightarrow> eth_wf (dhwaddr a) \<Longrightarrow> length (arp_header_bytes a) = 28"
  by (simp add: arp_header_bytes_def eth_wf_def)

lemma arp_header_at_bytes:
  assumes "eth_wf (shwaddr a)" "eth_wf (dhwaddr a)"
  shows "arp_header_at (arp_header_bytes a @ ys) 0 = Some a"
proof -
  obtain s0 s1 s2 s3 s4 s5 d0 d1 d2 d3 d4 d5 where s: "shwaddr a = [s0, s1, s2, s3, s4, s5]" "dhwaddr a = [d0, d1, d2, d3, d4, d5]"
    using assms by (auto simp: eth_wf_def numeral_eq_Suc length_Suc_conv)
  have "arp_header_at (arp_header_bytes a @ ys) 0 = Some \<lparr>hwtype = hwtype a, protocol = protocol a, hwlen = hwlen a, protolen = protolen a,
      opcode = opcode a, shwaddr = shwaddr a, sipaddr = sipaddr a, dhwaddr = dhwaddr a, dipaddr = dipaddr a\<rparr>"
    by (simp add: arp_header_at_def arp_header_bytes_def s half_at_def half_bytes_def rd_def word_at_def word_bytes_def
        half_value word_value)
  then show ?thesis by simp
qed

text \<open>A block that was handed out is not being sent.\<close>

lemma alloc_unlocked:
  assumes "cEthernetMM_alloc m hint = Some (b, k, m')"
  shows "\<not> is_lock (header_of m' b)"
  using alloc_upd [OF assms] by (auto simp: header_of_upd block_used_def)

section \<open>ARP\<close>

definition arp_reply :: "arp_header \<Rightarrow> ipv4_config \<Rightarrow> arp_header" where
  "arp_reply a c = \<lparr>hwtype = hwtype a, protocol = protocol a, hwlen = hwlen a, protolen = protolen a, opcode = HTONS ARP_REPLY,
     shwaddr = eth_mac c, sipaddr = ip_addr c, dhwaddr = shwaddr a, dipaddr = sipaddr a\<rparr>"

lemma arp_rx_request:
  assumes "28 \<le> k" "opcode a = HTONS ARP_REQUEST" "dipaddr a = ip_addr (arp_cfg t)"
  shows "cIPv4Arp_rx t a k e = (uip_arp_update t (sipaddr a) (shwaddr a), Some (arp_reply a (arp_cfg (uip_arp_update t (sipaddr a) (shwaddr a))),
    e\<lparr>eth_type := HTONS ETH_TYPE_ARP, eth_src := eth_mac (arp_cfg (uip_arp_update t (sipaddr a) (shwaddr a))), eth_dest := shwaddr a\<rparr>, 42))"
  using assms by (simp add: cIPv4Arp_rx_def TIPv4Addr_isEqual_def Let_def setArpTx_reply arp_reply_def not_less)

lemma update_cfg: "arp_inv t \<Longrightarrow> arp_cfg (uip_arp_update t ip e) = arp_cfg t"
  by (rule update_entry [of t ip e]) simp_all

text \<open>
  C32: An ARP request for the own address is answered by one frame to its sender with the own Ethernet
  and IP address, and from then on the sender's Ethernet address is known.
\<close>

theorem arp_request_frame:
  assumes "arp_inv (arp_st (net w))" "eth_wf (eth_mac cfg)" "cfg = arp_cfg (arp_st (net w))" "length d = 6" "length s = 6"
    "eth_wf (shwaddr a)" "eth_wf (dhwaddr a)" "opcode a = HTONS ARP_REQUEST" "dipaddr a = ip_addr cfg" "sipaddr a \<noteq> 0"
    "buf = d @ s @ half_bytes (HTONS ETH_TYPE_ARP) @ arp_header_bytes a @ tail" "42 \<le> rx_len"
    "cEthernetMM_alloc (mm (net w)) HINT_CTRL_PACKET = Some (b, k, m)" "42 \<le> length (mem (net w) b)"
    "(tx_produce (ring (net w)) + 1) mod NUM_TX_FRAG \<noteq> tx_consume (ring (net w))"
  shows "\<exists>w'. rx_frame now H w (buf, rx_len) = Some w' \<and>
    wire (net w') = wire (net w) @ [shwaddr a @ eth_mac cfg @ half_bytes (HTONS ETH_TYPE_ARP) @ arp_header_bytes (arp_reply a cfg)] \<and>
    cIPv4Arp_IPv4toEthAddr (arp_st (net w')) (sipaddr a) = Some (shwaddr a)"
proof -
  let ?n = "net w" and ?t = "uip_arp_update (arp_st (net w)) (sipaddr a) (shwaddr a)"
  have cfg: "arp_cfg ?t = cfg" using update_cfg [OF assms(1)] assms(3) by simp
  have len: "28 \<le> rx_len - 14" "rx_len \<noteq> 0" using assms(12) by (auto simp: word_le_nat_alt unat_sub_if')
  have e: "eth_header_at buf 0 = Some \<lparr>eth_dest = d, eth_src = s, eth_type = HTONS ETH_TYPE_ARP\<rparr>"
    unfolding assms(11) using assms(4,5) by (rule eth_header_at_frame)
  have "arp_header_at ((d @ s @ half_bytes (HTONS ETH_TYPE_ARP)) @ arp_header_bytes a @ tail) 14 = Some a"
    using assms(4,5) arp_header_at_bytes [OF assms(6,7)] by (subst arp_header_at_skip) simp_all
  then have ah: "arp_header_at buf 14 = Some a" by (simp add: assms(11))
  obtain e' where e': "eth_header_at (mem ?n b) 0 = Some e'"
    using assms(14) by (simp add: eth_header_at_def half_at_def rd_def)
  let ?e = "shwaddr a @ eth_mac cfg @ half_bytes (HTONS ETH_TYPE_ARP) @ arp_header_bytes (arp_reply a cfg)"
  have le: "length ?e = 42"
    using assms(2,6) length_arp_header_bytes [of "arp_reply a cfg"] by (simp add: eth_wf_def arp_reply_def)
  let ?f = "?e @ drop 42 (mem ?n b)"
  have b: "blit (mem ?n b) 0 ?e = Some ?f" using le assms(14) by (simp add: blit_def)
  let ?n' = "?n\<lparr>arp_st := ?t, mm := m, mem := (mem ?n)(b := ?f)\<rparr>"
  have rx: "cIPv4Arp_rx t a (rx_len - 14) h = (uip_arp_update t (sipaddr a) (shwaddr a), Some (arp_reply a cfg,
      h\<lparr>eth_type := HTONS ETH_TYPE_ARP, eth_src := eth_mac cfg, eth_dest := shwaddr a\<rparr>, 42))"
    if "arp_cfg t = cfg" "arp_inv t" for t h
    using arp_rx_request [OF len(1) assms(8), of t h] assms(9) that update_cfg [OF that(2)] by simp
  have "arp_rx_frame ?n buf (rx_len - 14) = Some (Some (b, 42), ?n')"
    using len ah e e' b assms(1,13) rx [OF assms(3) [symmetric]] rx [OF cfg update_inv]
    by (simp add: arp_rx_frame_def cMiMicIpNetIf_allocSysTxBuf_def eth_header_bytes_def not_less)
  moreover have "\<exists>m' r. send_frame ?n' b 42 = Some (?n'\<lparr>mm := m', ring := r, wire := wire ?n' @ [take (unat (42 :: u16)) (mem ?n' b)]\<rparr>)"
    using assms(15) alloc_unlocked [OF assms(13)] le assms(14) by (intro send_frame_wire) (simp_all add: can_send_def)
  then obtain m' r where "send_frame ?n' b 42 = Some (?n'\<lparr>mm := m', ring := r, wire := wire ?n @ [?e]\<rparr>)" using le by auto
  moreover have "HTONS ETH_TYPE_ARP \<noteq> HTONS ETH_TYPE_IP" by (simp add: ethII_type)
  moreover have "cIPv4Arp_IPv4toEthAddr ?t (sipaddr a) = Some (shwaddr a)" using arpc.known_learn assms(1,10) by blast
  ultimately show ?thesis using len(2) e
    by (simp add: rx_frame_def sendRawEthFrameNL_def cMiMicIpNetIf_releaseTxBuf_def)
qed

theorem arp_request_frame_witness:
  "\<forall>now H. \<exists>w'. rx_frame now H demo_stack (replicate 6 0xff @ [2, 0, 0, 0, 0, 9] @ half_bytes (HTONS ETH_TYPE_ARP) @
      arp_header_bytes \<lparr>hwtype = 0x100, protocol = 8, hwlen = 6, protolen = 4, opcode = HTONS 1, shwaddr = [2, 0, 0, 0, 0, 9],
        sipaddr = 0x0200a8c0, dhwaddr = replicate 6 0, dipaddr = 0x0100a8c0\<rparr> @ [], 60) = Some w' \<and>
    cIPv4Arp_IPv4toEthAddr (arp_st (net w')) 0x0200a8c0 = Some [2, 0, 0, 0, 0, 9] \<and> length (wire (net w')) = 1"
proof (intro allI)
  fix now H
  let ?a = "\<lparr>hwtype = 0x100, protocol = 8, hwlen = 6, protolen = 4, opcode = HTONS 1, shwaddr = [2, 0, 0, 0, 0, 9],
        sipaddr = 0x0200a8c0, dhwaddr = replicate 6 0, dipaddr = 0x0100a8c0\<rparr>"
  have n: "net demo_stack = demo_net" by (simp add: demo_stack_def)
  have "map_option (\<lambda>(b, k, m). (b, k)) (cEthernetMM_alloc (mm (net demo_stack)) HINT_CTRL_PACKET) = Some ((Buf64, 0), 64)" by code_simp
  then obtain m where m: "cEthernetMM_alloc (mm (net demo_stack)) HINT_CTRL_PACKET = Some ((Buf64, 0), 64, m)" by auto
  have inv: "arp_inv (arp_st (net demo_stack))" by (simp add: n demo_net_def arp_inv_def)
  have c: "eth_wf (eth_mac demo_config)" "demo_config = arp_cfg (arp_st (net demo_stack))" "length (replicate 6 (0xff :: u8)) = 6"
    "length [2, 0, 0, 0, 0, 9 :: u8] = 6" "eth_wf (shwaddr ?a)" "eth_wf (dhwaddr ?a)" "opcode ?a = HTONS ARP_REQUEST" "dipaddr ?a = ip_addr demo_config"
    "sipaddr ?a \<noteq> 0" "(42 :: u16) \<le> 60"
    by (simp_all add: n demo_net_def demo_config_def eth_wf_def)
  have r: "42 \<le> length (mem (net demo_stack) (Buf64, 0))" "(tx_produce (ring (net demo_stack)) + 1) mod 16 \<noteq> tx_consume (ring (net demo_stack))"
    by (simp_all add: n demo_net_def empty_ring_def)
  note f = arp_request_frame [OF inv c(1-9) refl c(10) m r, of now H "[]"]
  show "\<exists>w'. rx_frame now H demo_stack (replicate 6 0xff @ [2, 0, 0, 0, 0, 9] @ half_bytes (HTONS ETH_TYPE_ARP) @ arp_header_bytes ?a @ [], 60) = Some w' \<and>
    cIPv4Arp_IPv4toEthAddr (arp_st (net w')) 0x0200a8c0 = Some [2, 0, 0, 0, 0, 9] \<and> length (wire (net w')) = 1"
    using f by (auto simp: n demo_net_def)
qed

section \<open>Ping\<close>

lemma attach_Some:
  assumes "cIPv4Payload_attachRxBuf p k = Some (True, pl)"
  shows "pl_packet pl = p" "ipv4_header_at p = Some (pl_header pl)" "pl_rawbuf pl = TIPv4Header_getHeaderLength (pl_header pl)"
    "TIPv4Header_isCorrectIpCheckSum p = Some True" "ntohs (len16 (pl_header pl)) \<le> k"
  using assms by (auto simp: cIPv4Payload_attachRxBuf_def TIPv4Header_getHeaderLength_def Let_def split: Option.bind_splits if_splits)

lemma incoming_known:
  assumes "arp_inv t" "src \<noteq> 0" "src AND netmask (arp_cfg t) = ip_addr (arp_cfg t) AND netmask (arp_cfg t)"
  shows "cIPv4Arp_IPv4toEthAddr (cIPv4Arp_incomingIp t e src) src = Some (eth_src e)"
  using assms arpc.known_learn [OF assms(1,2)] by (simp add: cIPv4Arp_incomingIp_def)

text \<open>
  C6: A ping from a neighbour is answered by one frame: the sender's Ethernet address is learnt from the
  request, and the reply goes to it, with the addresses exchanged, the data of the request and
  a type and checksum to match.
\<close>

theorem ping_frame:
  assumes "arp_inv (arp_st (net w))" "cfg = arp_cfg (arp_st (net w))" "cfg = net_cfg (net w)" "ref_config w \<noteq> None"
    "length d = 6" "length s = 6" "eth_wf (eth_mac cfg)"
    "p = ipv4_header_bytes h @ opts @ ([ICMP_ECHO, code] @ half_bytes c @ rest) @ tail"
    "buf = d @ s @ half_bytes (HTONS ETH_TYPE_IP) @ p" "rx_len \<noteq> 0"
    "cIPv4Payload_attachRxBuf p (rx_len - 14) = Some (True, pl)" "proto h = UIP_PROTO_ICMP" "destipaddr h = ip_addr cfg"
    "srcipaddr h \<noteq> 0" "srcipaddr h AND netmask cfg = ip_addr cfg AND netmask cfg" "\<not> TIPv4Addr_isEqual (srcipaddr h) TIPv4Addr_BROADCAST"
    "\<not> TIPv4Addr_isEqualWithMask (srcipaddr h) TIPv4Addr_MULTICAST TIPv4Addr_MULTICAST_MASK"
    "TIPv4Header_getHeaderLength h = 20 + length opts" "unat (ntohs (len16 h)) = 24 + length opts + length rest" "4 \<le> length rest"
    "65535 dvd be_sum ([ICMP_ECHO, code] @ half_bytes c @ rest)"
    "cEthernetMM_alloc (mm (net w)) (ntohs (len16 h) + 14) = Some (b, sz, m)" "ntohs (len16 h) \<le> sz - 14"
    "14 + unat (sz - 14) = length (mem (net w) b)" "unat (ntohs (len16 h)) \<le> 1522"
    "(tx_produce (ring (net w)) + 1) mod NUM_TX_FRAG \<noteq> tx_consume (ring (net w))"
  shows "\<exists>w'. rx_frame now H w (buf, rx_len) = Some w' \<and>
    wire (net w') = wire (net w) @ [s @ eth_mac cfg @ half_bytes (HTONS ETH_TYPE_IP) @
      ipv4_header_bytes (h\<lparr>destipaddr := srcipaddr h, srcipaddr := destipaddr h\<rparr>) @ opts @
      ([ICMP_ECHO_REPLY, code] @ half_bytes (echo_chksum c) @ rest)]"
proof -
  let ?e = "\<lparr>eth_dest = d, eth_src = s, eth_type = HTONS ETH_TYPE_IP\<rparr>"
  let ?t = "cIPv4Arp_incomingIp (arp_st (net w)) ?e (srcipaddr h)"
  let ?n = "(net w)\<lparr>arp_st := ?t\<rparr>"
  let ?rep = "ipv4_header_bytes (h\<lparr>destipaddr := srcipaddr h, srcipaddr := destipaddr h\<rparr>) @ opts @ ([ICMP_ECHO_REPLY, code] @ half_bytes (echo_chksum c) @ rest)"
  note at = attach_Some [OF assms(11)]
  have pl: "pl_header pl = h" using at(2) by (simp add: assms(8) ipv4_header_at_iff)
  have e: "eth_header_at buf 0 = Some ?e" unfolding assms(9) using assms(5,6) by (rule eth_header_at_frame)
  have "word_at ((d @ s @ half_bytes (HTONS ETH_TYPE_IP)) @ p) (14 + 12) = word_at p 12" using assms(5,6) by (intro word_at_skip) simp
  moreover have "word_at p 12 = Some (srcipaddr h)"
    using at(2) pl by (clarsimp simp: ipv4_header_at_def split: Option.bind_splits) (drule arg_cong [where f = srcipaddr], simp)
  ultimately have src: "word_at buf 26 = Some (srcipaddr h)" by (simp add: assms(9))
  have rx: "drop 14 buf = p" using assms(5,6) by (simp add: assms(9))
  let ?n1 = "?n\<lparr>mm := m\<rparr>"
  have al: "cMiMicIpNetIf_allocTxBuf ?n (ntohs (len16 h)) = Some (b, sz - 14, ?n1)"
    using assms(22) by (simp add: cMiMicIpNetIf_allocTxBuf_def)
  have l: "unat (sz - 14) \<le> length (ip_at ?n1 b)" using assms(24) by (simp add: ip_at_def)
  have "destipaddr h = ip_addr (net_cfg ?n)" using assms(3,13) by simp
  from echo_reply [OF at(1) [unfolded assms(8)] pl _ assms(18,19,20) _ assms(21) this al assms(23) l]
  obtain n2 r where n2: "cIPv4IComp_rx ?n pl = Some (Some b, n2)" "ip_at n2 b = ?rep @ r" "n2 = put_ip ?n1 b (ip_at n2 b)"
    using at(1,3,4) pl by auto
  let ?n2 = "put_ip ?n1 b (?rep @ r)"
  let ?l = "unat (ntohs (len16 h))"
  have rep: "length ?rep = ?l" using assms(19) by simp
  let ?h = "h\<lparr>destipaddr := srcipaddr h, srcipaddr := destipaddr h\<rparr>"
  have m14: "14 \<le> length (mem (net w) b)" using assms(24) by linarith
  then have ip: "ip_at ?n2 b = ?rep @ r" by (simp add: ip_at_def put_ip_def)
  have n2': "n2 = ?n2" using n2(2,3) by (simp only:)
  have rx': "cIPv4_rx now H (w\<lparr>net := ?n\<rparr>) p (rx_len - 14) = Some (Some b, w\<lparr>net := ?n2\<rparr>)"
    using assms(4,11,12) n2(1) n2' pl by (auto simp: cIPv4_rx_def)
  have "\<exists>n'. cMiMicIpNetIf_sendIPv4Tx ?n2 b = Some n' \<and> ip_at n' b = ip_at ?n2 b \<and>
     wire n' = wire ?n2 @ [s @ eth_mac (net_cfg ?n2) @ half_bytes (HTONS ETH_TYPE_IP) @ take (unat (ntohs (len16 ?h))) (ip_at ?n2 b)]"
  proof (rule sendIPv4Tx_sent)
    show "ipv4_header_at (ip_at ?n2 b) = Some ?h" unfolding ip by (simp add: ipv4_header_at_iff)
    have "cIPv4Config_isLocalIP cfg (srcipaddr h)"
      using assms(15) by (simp add: cIPv4Config_isLocalIP_def TIPv4Addr_isEqualWithMask_def)
    moreover have "cIPv4Arp_IPv4toEthAddr ?t (srcipaddr h) = Some s"
      using incoming_known [OF assms(1,14), of ?e] assms(2,15) by simp
    ultimately show "eth_destination ?n2 (destipaddr ?h) = Some s"
      using assms(3,16,17) by (simp add: eth_destination_def put_ip_def)
    show "can_send ?n2 b" using alloc_unlocked [OF assms(22)] assms(26) by (simp add: can_send_def put_ip_def)
    show "14 + unat (ntohs (len16 ?h)) \<le> length (mem ?n2 b)" using m14 rep by (simp add: put_ip_def)
  qed (use assms(3,6,7,12,25) in \<open>simp_all add: eth_wf_def put_ip_def\<close>)
  moreover have "take (length ?rep) (?rep @ r) = ?rep" by (rule take_prefix) (rule refl)
  then have "take (unat (ntohs (len16 ?h))) (ip_at ?n2 b) = ?rep" unfolding ip rep by simp
  moreover have "wire ?n2 = wire (net w)" "eth_mac (net_cfg ?n2) = eth_mac cfg" using assms(3) by (simp_all add: put_ip_def)
  ultimately obtain n' where "cMiMicIpNetIf_sendIPv4Tx ?n2 b = Some n'"
    "wire n' = wire (net w) @ [s @ eth_mac cfg @ half_bytes (HTONS ETH_TYPE_IP) @ ?rep]"
    by (metis (no_types))
  then show ?thesis using assms(10) e src rx rx' by (simp add: rx_frame_def cMiMicIpNetIf_releaseTxBuf_def)
qed

theorem ping_frame_witness:
  "\<forall>now H. \<exists>w' r. rx_frame now H demo_stack (replicate 6 0xff @ [2, 0, 0, 0, 0, 9] @ half_bytes (HTONS ETH_TYPE_IP) @ pl_packet ping, 42) = Some w' \<and>
    wire (net w') = [[2, 0, 0, 0, 0, 9] @ [2, 0, 0, 0, 0, 1] @ r]"
proof (intro allI)
  fix now H
  have n: "net demo_stack = demo_net" by (simp add: demo_stack_def)
  have inv: "arp_inv (arp_st (net demo_stack))" by (simp add: n demo_net_def arp_inv_def)
  have c: "demo_config = arp_cfg (arp_st (net demo_stack))" "demo_config = net_cfg (net demo_stack)" "ref_config demo_stack \<noteq> None"
    "length (replicate 6 (0xff :: u8)) = 6" "length [2, 0, 0, 0, 0, 9 :: u8] = 6" "eth_wf (eth_mac demo_config)" "(42 :: u16) \<noteq> 0"
    by (simp_all add: n demo_net_def demo_config_def eth_wf_def demo_stack_def)
  have at: "cIPv4Payload_attachRxBuf (pl_packet ping) (42 - 14) = Some (True, ping)" by code_simp
  have h: "proto ping_header = UIP_PROTO_ICMP" "destipaddr ping_header = ip_addr demo_config" "srcipaddr ping_header \<noteq> 0"
    "srcipaddr ping_header AND netmask demo_config = ip_addr demo_config AND netmask demo_config"
    "\<not> TIPv4Addr_isEqual (srcipaddr ping_header) TIPv4Addr_BROADCAST"
    "\<not> TIPv4Addr_isEqualWithMask (srcipaddr ping_header) TIPv4Addr_MULTICAST TIPv4Addr_MULTICAST_MASK"
    "TIPv4Header_getHeaderLength ping_header = 20 + length ([] :: u8 list)"
    by code_simp+
  have len: "ntohs (len16 ping_header) = 28" by (simp add: ping_header_def)
  have l: "unat (ntohs (len16 ping_header)) = 24 + length ([] :: u8 list) + length ([0, 1, 0, 2] :: u8 list)" "4 \<le> length ([0, 1, 0, 2] :: u8 list)"
    "65535 dvd be_sum ([8, 0] @ half_bytes 0xfcf7 @ [0, 1, 0, 2])"
    unfolding len by (simp_all add: half_bytes_def)
  have "map_option (\<lambda>(b, k, m). (b, k)) (cEthernetMM_alloc (mm (net demo_stack)) (28 + 14)) = Some ((Buf128, 0), 128)" by code_simp
  then obtain m where m: "cEthernetMM_alloc (mm (net demo_stack)) (ntohs (len16 ping_header) + 14) = Some ((Buf128, 0), 128, m)" unfolding len by auto
  have r: "ntohs (len16 ping_header) \<le> 128 - 14" "14 + unat ((128 :: u16) - 14) = length (mem (net demo_stack) (Buf128, 0))"
    "unat (ntohs (len16 ping_header)) \<le> 1522" "(tx_produce (ring (net demo_stack)) + 1) mod 16 \<noteq> tx_consume (ring (net demo_stack))"
    unfolding len by (simp_all add: n demo_net_def empty_ring_def)
  note f = ping_frame [OF inv c(1-6) ping_simps(1) refl c(7) at h l m r, of now H]
  have "eth_mac demo_config = [2, 0, 0, 0, 0, 1]" "wire (net demo_stack) = []" by (simp_all add: n demo_net_def demo_config_def)
  then show "\<exists>w' r. rx_frame now H demo_stack (replicate 6 0xff @ [2, 0, 0, 0, 0, 9] @ half_bytes (HTONS ETH_TYPE_IP) @ pl_packet ping, 42) = Some w' \<and>
    wire (net w') = [[2, 0, 0, 0, 0, 9] @ [2, 0, 0, 0, 0, 1] @ r]"
    using f by auto
qed

end
