(* ===== verification/FormatWriter.thy ===== *)
theory FormatWriter
  imports Stdlib
begin

text \<open>
  \<open>NyLPC_cFormatWriter.c\<close>: formatted printing through a work buffer of 16 characters and a handler
  that takes the pieces, and the function that computes the length of the output beforehand.

  A variable argument is a 32-bit integer or a pointer to characters, given by the array from
  there on; \<open>None\<close> is an argument of the wrong kind or a missing one, a read behind the array, a
  write behind the work buffer, or a fault of the handler. The format is a C string.
\<close>

datatype fmt_arg = AInt u32 | APtr "char list"

type_synonym 'h print_handler = "'h \<Rightarrow> char list \<Rightarrow> (bool \<times> 'h) option"

definition NUM_OF_WORK :: nat where
  "NUM_OF_WORK = 16"

section \<open>Arguments and the format\<close>

fun va_int :: "fmt_arg list \<Rightarrow> (u32 \<times> fmt_arg list) option" where
  "va_int (AInt i # as) = Some (i, as)"
| "va_int _ = None"

fun va_ptr :: "fmt_arg list \<Rightarrow> (char list \<times> fmt_arg list) option" where
  "va_ptr (APtr p # as) = Some (p, as)"
| "va_ptr _ = None"

text \<open>The part \<open>.*\<close> of a conversion, which may be repeated: the flag \<open>FTYPE_LENGTH\<close> and the rest.\<close>

fun fmt_type :: "bool \<Rightarrow> string \<Rightarrow> bool \<times> string" where
  "fmt_type ftype (c # d # rp) = (if c = CHR ''.'' \<and> d = CHR ''*'' then fmt_type True rp else (ftype, c # d # rp))"
| "fmt_type ftype rp = (ftype, rp)"

lemma fmt_type_shorter: "fmt_type b rp = (t, s) \<Longrightarrow> length s \<le> length rp"
  by (induction b rp rule: fmt_type.induct) (auto split: if_splits)

text \<open>The limit of a conversion: the length argument, or \<open>d\<close> without one.\<close>

definition fmt_limit :: "bool \<Rightarrow> u32 \<Rightarrow> fmt_arg list \<Rightarrow> (u32 \<times> fmt_arg list) option" where
  "fmt_limit ftype d args = (if ftype then va_int args else Some (d, args))"

section \<open>Printing\<close>

text \<open>A character goes to the work buffer; a full buffer goes to the handler, whose result is not looked at.\<close>

definition put_work :: "'h print_handler \<Rightarrow> char list \<Rightarrow> char \<Rightarrow> 'h \<Rightarrow> (char list \<times> 'h) option" where
  "put_work H wk c h =
     (if length wk \<ge> NUM_OF_WORK then None
      else let wk = wk @ [c] in
        if length wk \<ge> NUM_OF_WORK then do { (r, h) \<leftarrow> H h wk; Some ([], h) } else Some (wk, h))"

definition flush_work :: "'h print_handler \<Rightarrow> char list \<Rightarrow> 'h \<Rightarrow> 'h option" where
  "flush_work H wk h = (if length wk > 0 then do { (r, h) \<leftarrow> H h wk; Some h } else Some h)"

text \<open>The loop of \<open>%s\<close>: the terminator is looked at before the limit.\<close>

fun print_str :: "'h print_handler \<Rightarrow> char list \<Rightarrow> nat \<Rightarrow> char list \<Rightarrow> 'h \<Rightarrow> (char list \<times> 'h) option" where
  "print_str H [] ut wk h = None"
| "print_str H (c # sp) ut wk h =
     (if c \<noteq> NUL \<and> ut > 0 then do { (wk, h) \<leftarrow> put_work H wk c h; print_str H sp (ut - 1) wk h }
      else Some (wk, h))"

text \<open>The loop of \<open>%.*B\<close>: two hexadecimal digits and a terminator are written behind the work.\<close>

fun print_hex :: "'h print_handler \<Rightarrow> char list \<Rightarrow> nat \<Rightarrow> char list \<Rightarrow> 'h \<Rightarrow> (char list \<times> 'h) option" where
  "print_hex H sp 0 wk h = Some (wk, h)"
| "print_hex H [] (Suc ut) wk h = None"
| "print_hex H (c # sp) (Suc ut) wk h = do {
     (wk, h) \<leftarrow> (if length wk \<ge> NUM_OF_WORK - 2 then do { (r, h) \<leftarrow> H h wk; Some ([], h) } else Some (wk, h));
     (t, n) \<leftarrow> uitoa2 (of_nat (ord c)) 16 2;
     if length wk + n + 1 > NUM_OF_WORK then None else print_hex H sp ut (wk @ take 2 t) h }"

definition print_num :: "'h print_handler \<Rightarrow> (string \<times> nat) option \<Rightarrow> char list \<Rightarrow> 'h \<Rightarrow> 'h option" where
  "print_num H num wk h = do {
     h \<leftarrow> flush_work H wk h;
     (t, n) \<leftarrow> num;
     if n + 1 > NUM_OF_WORK then None else do { (r, h) \<leftarrow> H h t; Some h } }"

text \<open>
  The loop over the format. In the default branch the character is written and the position stays on it, so
  that it is written a second time as plain text.
\<close>

function fmt_print :: "'h print_handler \<Rightarrow> string \<Rightarrow> fmt_arg list \<Rightarrow> char list \<Rightarrow> 'h \<Rightarrow> (bool \<times> 'h) option" where
  "fmt_print H [] args wk h = H h wk"
| "fmt_print H (c # rp) args wk h =
     (if c \<noteq> CHR ''%'' then do { (wk, h) \<leftarrow> put_work H wk c h; fmt_print H rp args wk h }
      else (case fmt_type False rp of
          (ftype, []) \<Rightarrow> fmt_print H [] args wk h
        | (ftype, f # fs) \<Rightarrow>
            if f = CHR ''.'' then do { (wk, h) \<leftarrow> put_work H wk f h; fmt_print H fs args wk h }
            else if f = CHR ''s'' then do {
              (ut, args) \<leftarrow> fmt_limit ftype 0x7FFFFFFF args;
              (sp, args) \<leftarrow> va_ptr args;
              (wk, h) \<leftarrow> print_str H sp (unat ut) wk h;
              fmt_print H fs args wk h }
            else if f = CHR ''c'' then do {
              (i, args) \<leftarrow> va_int args;
              (wk, h) \<leftarrow> put_work H wk (char_of (unat i mod 256)) h;
              fmt_print H fs args wk h }
            else if f = CHR ''d'' then do {
              (i, args) \<leftarrow> va_int args; h \<leftarrow> print_num H (itoa i 10) wk h; fmt_print H fs args [] h }
            else if f = CHR ''u'' then do {
              (i, args) \<leftarrow> va_int args; h \<leftarrow> print_num H (uitoa i 10) wk h; fmt_print H fs args [] h }
            else if f = CHR ''x'' then do {
              (i, args) \<leftarrow> va_int args; h \<leftarrow> print_num H (uitoa i 16) wk h; fmt_print H fs args [] h }
            else if f = CHR ''B'' then do {
              (ut, args) \<leftarrow> fmt_limit ftype 0 args;
              (sp, args) \<leftarrow> va_ptr args;
              (wk, h) \<leftarrow> print_hex H sp (unat ut) wk h;
              fmt_print H fs args wk h }
            else if f = CHR ''%'' then do { (wk, h) \<leftarrow> put_work H wk f h; fmt_print H fs args wk h }
            else do { (wk, h) \<leftarrow> put_work H wk f h; fmt_print H (f # fs) args wk h }))"
  by pat_completeness auto
termination
  by (relation "measure (\<lambda>(H, rp, args, wk, h). length rp)") (auto dest: fmt_type_shorter [OF sym])

declare fmt_print.simps [simp del]

definition cFormatWriter_print :: "'h print_handler \<Rightarrow> 'h \<Rightarrow> string \<Rightarrow> fmt_arg list \<Rightarrow> (bool \<times> 'h) option" where
  "cFormatWriter_print H h i_fmt args = fmt_print H i_fmt args [] h"

section \<open>The length\<close>

fun str_len :: "char list \<Rightarrow> nat \<Rightarrow> nat option" where
  "str_len [] ut = None"
| "str_len (c # sp) ut = (if c \<noteq> NUL \<and> ut > 0 then map_option Suc (str_len sp (ut - 1)) else Some 0)"

text \<open>The length is a signed 16-bit integer that wraps.\<close>

function fmt_len :: "string \<Rightarrow> fmt_arg list \<Rightarrow> u16 \<Rightarrow> u16 option" where
  "fmt_len [] args l = Some l"
| "fmt_len (c # rp) args l =
     (if c \<noteq> CHR ''%'' then fmt_len rp args (l + 1)
      else (case fmt_type False rp of
          (ftype, []) \<Rightarrow> Some l
        | (ftype, f # fs) \<Rightarrow>
            if f = CHR ''.'' then fmt_len fs args (l + 1)
            else if f = CHR ''s'' then do {
              (ut, args) \<leftarrow> fmt_limit ftype 0x7FFFFFFF args;
              (sp, args) \<leftarrow> va_ptr args;
              n \<leftarrow> str_len sp (unat ut);
              fmt_len fs args (l + of_nat n) }
            else if f = CHR ''c'' then do { (i, args) \<leftarrow> va_int args; fmt_len fs args (l + 1) }
            else if f = CHR ''d'' then do {
              (i, args) \<leftarrow> va_int args; (t, n) \<leftarrow> itoa i 10; fmt_len fs args (l + of_nat (length t)) }
            else if f = CHR ''u'' then do {
              (i, args) \<leftarrow> va_int args; (t, n) \<leftarrow> uitoa i 10; fmt_len fs args (l + of_nat (length t)) }
            else if f = CHR ''x'' then do {
              (i, args) \<leftarrow> va_int args; (t, n) \<leftarrow> uitoa i 16; fmt_len fs args (l + of_nat (length t)) }
            else if f = CHR ''B'' then do {
              (ut, args) \<leftarrow> fmt_limit ftype 0 args;
              (sp, args) \<leftarrow> va_ptr args;
              fmt_len fs args (l + ucast ut * 2) }
            else if f = CHR ''%'' then fmt_len fs args (l + 1)
            else fmt_len (f # fs) args (l + 1)))"
  by pat_completeness auto
termination
  by (relation "measure (\<lambda>(rp, args, l). length rp)") (auto dest: fmt_type_shorter [OF sym])

declare fmt_len.simps [simp del]

definition cFormatWriter_length :: "string \<Rightarrow> fmt_arg list \<Rightarrow> u16 option" where
  "cFormatWriter_length i_fmt args = fmt_len i_fmt args 0"

section \<open>The text of a format\<close>

text \<open>
  What is to be printed. \<open>%s\<close> reads to the terminator or to the limit, and one character further when it
  stops at the limit.
\<close>

definition str_shown :: "char list \<Rightarrow> nat \<Rightarrow> string option" where
  "str_shown sp ut = (let t = take ut (cstr sp) in if length t < length sp then Some t else None)"

definition hex_shown :: "char list \<Rightarrow> nat \<Rightarrow> string option" where
  "hex_shown sp ut = (if ut \<le> length sp
     then Some (concat (map (\<lambda>c. [digit_char (int (ord c div 16)), digit_char (int (ord c mod 16))]) (take ut sp))) else None)"

definition num_shown :: "(string \<times> nat) option \<Rightarrow> string option" where
  "num_shown num = map_option fst num"

function fmt_text :: "string \<Rightarrow> fmt_arg list \<Rightarrow> string option" where
  "fmt_text [] args = Some []"
| "fmt_text (c # rp) args =
     (if c \<noteq> CHR ''%'' then map_option ((@) [c]) (fmt_text rp args)
      else (case fmt_type False rp of
          (ftype, []) \<Rightarrow> Some []
        | (ftype, f # fs) \<Rightarrow>
            if f = CHR ''.'' then map_option ((@) [f]) (fmt_text fs args)
            else if f = CHR ''s'' then do {
              (ut, args) \<leftarrow> fmt_limit ftype 0x7FFFFFFF args;
              (sp, args) \<leftarrow> va_ptr args;
              t \<leftarrow> str_shown sp (unat ut);
              map_option ((@) t) (fmt_text fs args) }
            else if f = CHR ''c'' then do {
              (i, args) \<leftarrow> va_int args; map_option ((@) [char_of (unat i mod 256)]) (fmt_text fs args) }
            else if f = CHR ''d'' then do {
              (i, args) \<leftarrow> va_int args; t \<leftarrow> num_shown (itoa i 10); map_option ((@) t) (fmt_text fs args) }
            else if f = CHR ''u'' then do {
              (i, args) \<leftarrow> va_int args; t \<leftarrow> num_shown (uitoa i 10); map_option ((@) t) (fmt_text fs args) }
            else if f = CHR ''x'' then do {
              (i, args) \<leftarrow> va_int args; t \<leftarrow> num_shown (uitoa i 16); map_option ((@) t) (fmt_text fs args) }
            else if f = CHR ''B'' then do {
              (ut, args) \<leftarrow> fmt_limit ftype 0 args;
              (sp, args) \<leftarrow> va_ptr args;
              t \<leftarrow> hex_shown sp (unat ut);
              map_option ((@) t) (fmt_text fs args) }
            else if f = CHR ''%'' then map_option ((@) [f]) (fmt_text fs args)
            else map_option ((@) [f]) (fmt_text (f # fs) args)))"
  by pat_completeness auto
termination
  by (relation "measure (\<lambda>(rp, args). length rp)") (auto dest: fmt_type_shorter [OF sym])

declare fmt_text.simps [simp del]

section \<open>Pieces\<close>

text \<open>Passing pieces to a handler without looking at its results.\<close>

fun feed_all :: "'h print_handler \<Rightarrow> 'h \<Rightarrow> char list list \<Rightarrow> 'h option" where
  "feed_all H h [] = Some h"
| "feed_all H h (p # ps) = do { (r, h) \<leftarrow> H h p; feed_all H h ps }"

lemma feed_all_append: "feed_all H h (ps @ qs) = do { h \<leftarrow> feed_all H h ps; feed_all H h qs }"
  by (induction H h ps rule: feed_all.induct) (auto split: Option.bind_split)

text \<open>
  A step of the printer does the same for every handler: it turns the work buffer \<open>wk\<close> and the text \<open>t\<close> into
  pieces of at most 16 characters and a new work buffer; the printer as a whole ends with a last piece.
\<close>

definition emits :: "('h print_handler \<Rightarrow> 'h \<Rightarrow> (char list \<times> 'h) option) \<Rightarrow> char list \<Rightarrow> string \<Rightarrow> bool" where
  "emits k wk t \<longleftrightarrow> (\<exists>ps wk'. (\<forall>H h. k H h = do { h \<leftarrow> feed_all H h ps; Some (wk', h) }) \<and>
     concat ps @ wk' = wk @ t \<and> length wk' < NUM_OF_WORK \<and> (\<forall>p\<in>set ps. length p \<le> NUM_OF_WORK))"

definition prints :: "('h print_handler \<Rightarrow> 'h \<Rightarrow> (bool \<times> 'h) option) \<Rightarrow> char list \<Rightarrow> string \<Rightarrow> bool" where
  "prints k wk t \<longleftrightarrow> (\<exists>ps p. (\<forall>H h. k H h = do { h \<leftarrow> feed_all H h ps; H h p }) \<and>
     concat ps @ p = wk @ t \<and> (\<forall>q\<in>set (p # ps). length q \<le> NUM_OF_WORK))"

lemma bind_Some_split: "Option.bind (Option.bind x (\<lambda>a. Some (f a))) g = Option.bind x (\<lambda>a. g (f a))"
  by (cases x) simp_all

lemma emits_then:
  assumes "emits k wk t" "\<And>wk'. length wk' < NUM_OF_WORK \<Longrightarrow> emits (\<lambda>H. F H wk') wk' u"
  shows "emits (\<lambda>H h. do { (wk, h) \<leftarrow> k H h; F H wk h }) wk (t @ u)"
proof -
  obtain ps wk' where k: "\<And>H h. k H h = do { h \<leftarrow> feed_all H h ps; Some (wk', h) }" "concat ps @ wk' = wk @ t"
      "length wk' < NUM_OF_WORK" "\<forall>p\<in>set ps. length p \<le> NUM_OF_WORK"
    using assms(1) unfolding emits_def by blast
  obtain qs wk2 where F: "\<And>H h. F H wk' h = do { h \<leftarrow> feed_all H h qs; Some (wk2, h) }" "concat qs @ wk2 = wk' @ u"
      "length wk2 < NUM_OF_WORK" "\<forall>p\<in>set qs. length p \<le> NUM_OF_WORK"
    using assms(2) [OF k(3)] unfolding emits_def by blast
  show ?thesis unfolding emits_def
    using k F by (intro exI [of _ "ps @ qs"] exI [of _ wk2]) (auto simp: feed_all_append bind_Some_split)
qed

lemma prints_then:
  assumes "emits k wk t" "\<And>wk'. length wk' < NUM_OF_WORK \<Longrightarrow> prints (\<lambda>H. F H wk') wk' u"
  shows "prints (\<lambda>H h. do { (wk, h) \<leftarrow> k H h; F H wk h }) wk (t @ u)"
proof -
  obtain ps wk' where k: "\<And>H h. k H h = do { h \<leftarrow> feed_all H h ps; Some (wk', h) }" "concat ps @ wk' = wk @ t"
      "length wk' < NUM_OF_WORK" "\<forall>p\<in>set ps. length p \<le> NUM_OF_WORK"
    using assms(1) unfolding emits_def by blast
  obtain qs q where F: "\<And>H h. F H wk' h = do { h \<leftarrow> feed_all H h qs; H h q }" "concat qs @ q = wk' @ u"
      "\<forall>p\<in>set (q # qs). length p \<le> NUM_OF_WORK"
    using assms(2) [OF k(3)] unfolding prints_def by blast
  show ?thesis unfolding prints_def
    using k F by (intro exI [of _ "ps @ qs"] exI [of _ q]) (auto simp: feed_all_append bind_Some_split)
qed

lemma bind_prod_Some: "Option.bind x (\<lambda>(a, b). Some (f a b)) = map_option (\<lambda>(a, b). f a b) x"
  by (cases x) auto

lemma emits_put: "length wk < NUM_OF_WORK \<Longrightarrow> emits (\<lambda>H h. put_work H wk c h) wk [c]"
proof (cases "length wk + 1 < NUM_OF_WORK")
  case True
  then show ?thesis unfolding emits_def put_work_def by (intro exI [of _ "[]"] exI [of _ "wk @ [c]"]) simp
next
  case False
  moreover assume "length wk < NUM_OF_WORK"
  ultimately show ?thesis unfolding emits_def put_work_def
    by (intro exI [of _ "[wk @ [c]]"] exI [of _ "[]"]) (auto simp: NUM_OF_WORK_def split: Option.bind_split)
qed

lemma emits_Nil: "length wk < NUM_OF_WORK \<Longrightarrow> emits (\<lambda>H h. Some (wk, h)) wk []"
  unfolding emits_def by (intro exI [of _ "[]"] exI [of _ wk]) simp

lemma cstr_simps: "cstr [] = []" "cstr (c # s) = (if c = NUL then [] else c # cstr s)"
  by (simp_all add: cstr_def)

lemma emits_str:
  "length wk < NUM_OF_WORK \<Longrightarrow> str_shown sp ut = Some t \<Longrightarrow> emits (\<lambda>(H :: 'h print_handler) h. print_str H sp ut wk h) wk t"
proof (induction sp arbitrary: ut wk t)
  case (Cons c sp)
  show ?case
  proof (cases "c \<noteq> NUL \<and> ut > 0")
    case True
    then obtain u where t: "t = [c] @ u" "str_shown sp (ut - 1) = Some u"
      using Cons.prems(2) by (cases ut) (auto simp: str_shown_def cstr_simps Let_def split: if_splits)
    have "emits (\<lambda>(H :: 'h print_handler) h. do { (wk, h) \<leftarrow> put_work H wk c h; print_str H sp (ut - 1) wk h }) wk ([c] @ u)"
      by (rule emits_then [OF emits_put [OF Cons.prems(1)]]) (rule Cons.IH [OF _ t(2)])
    then show ?thesis using True by (simp add: t(1))
  next
    case False
    then show ?thesis using Cons.prems emits_Nil by (auto simp: str_shown_def cstr_simps)
  qed
qed (simp add: str_shown_def)

lemma byte_hex:
  "uitoa2 (of_nat (ord c)) 16 2 = Some ([digit_char (int (ord c div 16)), digit_char (int (ord c mod 16))], 2)"
proof -
  have c: "ord c < 256" by simp
  have u: "unat (of_nat (ord c) :: u32) = ord c" using c order.strict_trans [OF c, of "2 ^ 32"] by (simp add: unat_of_nat)
  have d: "ord c div 16 < 16" using c by linarith
  have "udigits 16 (ord c) = (if ord c div 16 = 0 then [digit_char (int (ord c mod 16))]
      else [digit_char (int (ord c mod 16)), digit_char (int (ord c div 16))])"
    using d by (simp add: udigits.simps [of 16 "ord c"] udigits.simps [of 16 "ord c div 16"])
  moreover have "CHR ''0'' = digit_char 0" by code_simp
  ultimately show ?thesis by (auto simp: uitoa2_def u Let_def)
qed

lemma emits_hex:
  "length wk < NUM_OF_WORK \<Longrightarrow> hex_shown sp ut = Some t \<Longrightarrow> emits (\<lambda>(H :: 'h print_handler) h. print_hex H sp ut wk h) wk t"
proof (induction sp arbitrary: ut wk t)
  case Nil
  then show ?case using emits_Nil by (cases ut) (auto simp: hex_shown_def)
next
  case (Cons c sp)
  show ?case
  proof (cases ut)
    case 0
    then show ?thesis using Cons.prems emits_Nil by (auto simp: hex_shown_def)
  next
    case (Suc n)
    let ?d = "[digit_char (int (ord c div 16)), digit_char (int (ord c mod 16))]"
    obtain u where t: "t = ?d @ u" "hex_shown sp n = Some u"
      using Cons.prems(2) Suc by (auto simp: hex_shown_def split: if_splits)
    let ?k = "\<lambda>(H :: 'h print_handler) h. do {
       (wk, h) \<leftarrow> (if length wk \<ge> NUM_OF_WORK - 2 then do { (r, h) \<leftarrow> H h wk; Some ([], h) } else Some (wk, h));
       Some (wk @ ?d, h) }"
    have k: "emits ?k wk ?d"
    proof (cases "length wk \<ge> NUM_OF_WORK - 2")
      case True
      then show ?thesis unfolding emits_def using Cons.prems(1)
        by (intro exI [of _ "[wk]"] exI [of _ ?d]) (auto simp: NUM_OF_WORK_def split: Option.bind_split)
    next
      case False
      then show ?thesis unfolding emits_def by (intro exI [of _ "[]"] exI [of _ "wk @ ?d"]) (auto simp: NUM_OF_WORK_def)
    qed
    have "emits (\<lambda>(H :: 'h print_handler) h. do { (wk, h) \<leftarrow> ?k H h; print_hex H sp n wk h }) wk (?d @ u)"
      by (rule emits_then [OF k]) (rule Cons.IH [OF _ t(2)])
    moreover have "print_hex H (c # sp) (Suc n) wk h = do { (wk, h) \<leftarrow> ?k H h; print_hex H sp n wk h }" for H :: "'h print_handler" and h
      using Cons.prems(1) by (auto simp: byte_hex NUM_OF_WORK_def split: Option.bind_split)
    ultimately show ?thesis by (simp add: Suc t(1))
  qed
qed

lemma num_lengths:
  "uitoa i 10 = Some (t, n) \<Longrightarrow> n = length t \<and> length t \<le> 10" "uitoa i 16 = Some (t, n) \<Longrightarrow> n = length t \<and> length t \<le> 8"
  "itoa i 10 = Some (t, n) \<Longrightarrow> n = length t \<and> length t \<le> 11"
proof -
  have d: "length (udigits 10 (unat j)) \<le> 10" "length (udigits 16 (unat j)) \<le> 8" for j :: u32
    using length_udigits [of 10 "unat j" 9] length_udigits [of 16 "unat j" 7] unat_u32_less [of j] by simp_all
  show "uitoa i 10 = Some (t, n) \<Longrightarrow> n = length t \<and> length t \<le> 10" "uitoa i 16 = Some (t, n) \<Longrightarrow> n = length t \<and> length t \<le> 8"
    using d by (auto simp: uitoa_def Let_def)
  have "nat (sint j) = unat j" if "0 \<le> sint j" for j :: u32 using that by (simp add: nat_sint)
  then show "itoa i 10 = Some (t, n) \<Longrightarrow> n = length t \<and> length t \<le> 11"
    using d le_trans [OF d(1), of 11] by (auto simp: itoa_def Let_def le_SucI split: if_splits)
qed

lemma emits_num:
  assumes "length wk < NUM_OF_WORK" "num = Some (t, n)" "n = length t" "length t \<le> 15"
  shows "emits (\<lambda>H h. do { h \<leftarrow> print_num H num wk h; Some ([], h) }) wk t"
  unfolding emits_def print_num_def flush_work_def using assms
  by (intro exI [of _ "if wk = [] then [t] else [wk, t]"] exI [of _ "[]"])
    (auto simp: NUM_OF_WORK_def split: Option.bind_split)

lemma prints_cong: "prints k' wk t \<Longrightarrow> (\<And>H h. k H h = k' H h) \<Longrightarrow> prints k wk t"
  by (simp add: prints_def)

lemma prints_end: "length wk < NUM_OF_WORK \<Longrightarrow> prints (\<lambda>H h. fmt_print H [] args wk h) wk []"
  unfolding prints_def by (intro exI [of _ "[]"] exI [of _ wk]) (simp add: fmt_print.simps)

lemma prints_put:
  assumes "length wk < NUM_OF_WORK" "\<And>wk. length wk < NUM_OF_WORK \<Longrightarrow> prints (\<lambda>(H :: 'h print_handler) h. fmt_print H rp args wk h) wk u"
  shows "prints (\<lambda>(H :: 'h print_handler) h. do { (wk, h) \<leftarrow> put_work H wk c h; fmt_print H rp args wk h }) wk (c # u)"
  using prints_then [OF emits_put [OF assms(1)] assms(2)] by simp

lemma prints_num:
  assumes "length wk < NUM_OF_WORK" "num_shown num = Some t" "\<And>n. num = Some (t, n) \<Longrightarrow> n = length t \<and> length t \<le> 15"
    and "\<And>wk. length wk < NUM_OF_WORK \<Longrightarrow> prints (\<lambda>(H :: 'h print_handler) h. fmt_print H rp args wk h) wk u"
  shows "prints (\<lambda>(H :: 'h print_handler) h. do { h \<leftarrow> print_num H num wk h; fmt_print H rp args [] h }) wk (t @ u)"
proof -
  obtain n where n: "num = Some (t, n)" using assms(2) by (auto simp: num_shown_def)
  have "emits (\<lambda>(H :: 'h print_handler) h. do { h \<leftarrow> print_num H num wk h; Some ([], h) }) wk t"
    using emits_num [OF assms(1) n] assms(3) [OF n] by blast
  from prints_then [OF this assms(4)] show ?thesis by (simp add: bind_Some_split)
qed

text \<open>The printer and the length function follow the text.\<close>

lemma fmt_print_prints:
  "fmt_text rp args = Some t \<Longrightarrow> length wk < NUM_OF_WORK \<Longrightarrow> prints (\<lambda>(H :: 'h print_handler) h. fmt_print H rp args wk h) wk t"
proof (induction "length rp" arbitrary: rp args t wk rule: less_induct)
  case less
  have IH: "prints (\<lambda>(H :: 'h print_handler) h. fmt_print H s ar wk h) wk u"
    if "length s < length rp" "fmt_text s ar = Some u" "length wk < NUM_OF_WORK" for s ar u wk
    using less.hyps that by blast
  note wk = less.prems(2)
  show ?case
  proof (cases rp)
    case Nil
    then show ?thesis using less.prems prints_end by (auto simp: fmt_text.simps)
  next
    case (Cons c rp')
    note shw = trans [OF fmt_text.simps(2) [symmetric] less.prems(1) [unfolded Cons]]
    obtain ftype s where ft: "fmt_type False rp' = (ftype, s)" by force
    have s: "length s \<le> length rp'" using fmt_type_shorter [OF ft] .
    show ?thesis
    proof (cases "c = CHR ''%''")
      case False
      obtain u where u: "t = c # u" "fmt_text rp' args = Some u" using shw by (auto simp: False)
      have "prints (\<lambda>(H :: 'h print_handler) h. fmt_print H rp' args wk h) wk u" if "length wk < NUM_OF_WORK" for wk
        using IH [OF _ u(2) that] Cons by simp
      then show ?thesis unfolding u(1) Cons by (intro prints_cong [OF prints_put [OF wk]]) (simp_all add: fmt_print.simps(2) False)
    next
      case c: True
      show ?thesis
      proof (cases s)
        case Nil
        have t: "t = []" using shw by (simp add: ft c Nil)
        show ?thesis unfolding t by (rule prints_cong, rule prints_end [OF wk]) (simp add: Cons c fmt_print.simps(2) ft Nil)
      next
        case f: (Cons f fs)
        have IH1: "prints (\<lambda>(H :: 'h print_handler) h. fmt_print H fs ar wk h) wk u"
          if "fmt_text fs ar = Some u" "length wk < NUM_OF_WORK" for ar u wk using IH [OF _ that] s f Cons by simp
        have IH2: "prints (\<lambda>(H :: 'h print_handler) h. fmt_print H (f # fs) ar wk h) wk u"
          if "fmt_text (f # fs) ar = Some u" "length wk < NUM_OF_WORK" for ar u wk using IH [OF _ that] s f Cons by simp
        note eqs = Cons c fmt_print.simps(2) ft f
        consider "f = CHR ''.''" | "f = CHR ''s''" | "f = CHR ''c''" | "f = CHR ''d''" | "f = CHR ''u''" | "f = CHR ''x''" | "f = CHR ''B''"
          | "f = CHR ''%''" | "f \<noteq> CHR ''.''" "f \<noteq> CHR ''s''" "f \<noteq> CHR ''c''" "f \<noteq> CHR ''d''" "f \<noteq> CHR ''u''" "f \<noteq> CHR ''x''" "f \<noteq> CHR ''B''"
            "f \<noteq> CHR ''%''" by blast
        then show ?thesis
        proof cases
          case 1
          obtain u where u: "t = f # u" "fmt_text fs args = Some u" using shw by (auto simp: ft f c 1)
          show ?thesis unfolding u(1) by (rule prints_cong, rule prints_put [OF wk IH1 [OF u(2)]], assumption) (simp add: eqs 1)
        next
          case 2
          obtain ut as1 sp as2 v u where u: "fmt_limit ftype 0x7FFFFFFF args = Some (ut, as1)" "va_ptr as1 = Some (sp, as2)"
              "str_shown sp (unat ut) = Some v" "t = v @ u" "fmt_text fs as2 = Some u"
            using shw by (auto simp: ft f c 2 split: Option.bind_splits)
          show ?thesis unfolding u(4) by (rule prints_cong, rule prints_then [OF emits_str [OF wk u(3)] IH1 [OF u(5)]], assumption) (simp add: eqs 2 u(1,2))
        next
          case 3
          obtain k as1 u where u: "va_int args = Some (k, as1)" "t = char_of (unat k mod 256) # u" "fmt_text fs as1 = Some u"
            using shw by (auto simp: ft f c 3 split: Option.bind_splits)
          show ?thesis unfolding u(2) by (rule prints_cong, rule prints_put [OF wk IH1 [OF u(3)]], assumption) (simp add: eqs 3 u(1))
        next
          case 4
          obtain k as1 v u where u: "va_int args = Some (k, as1)" "num_shown (itoa k 10) = Some v" "t = v @ u" "fmt_text fs as1 = Some u"
            using shw by (auto simp: ft f c 4 split: Option.bind_splits)
          have "n = length v \<and> length v \<le> 15" if "itoa k 10 = Some (v, n)" for n using num_lengths(3) [OF that] by simp
          then show ?thesis unfolding u(3) by (intro prints_cong [OF prints_num [OF wk u(2) _ IH1 [OF u(4)]]]) (simp_all add: eqs 4 u(1))
        next
          case 5
          obtain k as1 v u where u: "va_int args = Some (k, as1)" "num_shown (uitoa k 10) = Some v" "t = v @ u" "fmt_text fs as1 = Some u"
            using shw by (auto simp: ft f c 5 split: Option.bind_splits)
          have "n = length v \<and> length v \<le> 15" if "uitoa k 10 = Some (v, n)" for n using num_lengths(1) [OF that] by simp
          then show ?thesis unfolding u(3) by (intro prints_cong [OF prints_num [OF wk u(2) _ IH1 [OF u(4)]]]) (simp_all add: eqs 5 u(1))
        next
          case 6
          obtain k as1 v u where u: "va_int args = Some (k, as1)" "num_shown (uitoa k 16) = Some v" "t = v @ u" "fmt_text fs as1 = Some u"
            using shw by (auto simp: ft f c 6 split: Option.bind_splits)
          have "n = length v \<and> length v \<le> 15" if "uitoa k 16 = Some (v, n)" for n using num_lengths(2) [OF that] by simp
          then show ?thesis unfolding u(3) by (intro prints_cong [OF prints_num [OF wk u(2) _ IH1 [OF u(4)]]]) (simp_all add: eqs 6 u(1))
        next
          case 7
          obtain ut as1 sp as2 v u where u: "fmt_limit ftype 0 args = Some (ut, as1)" "va_ptr as1 = Some (sp, as2)"
              "hex_shown sp (unat ut) = Some v" "t = v @ u" "fmt_text fs as2 = Some u"
            using shw by (auto simp: ft f c 7 split: Option.bind_splits)
          show ?thesis unfolding u(4) by (rule prints_cong, rule prints_then [OF emits_hex [OF wk u(3)] IH1 [OF u(5)]], assumption) (simp add: eqs 7 u(1,2))
        next
          case 8
          obtain u where u: "t = f # u" "fmt_text fs args = Some u" using shw by (auto simp: ft f c 8)
          show ?thesis unfolding u(1) by (rule prints_cong, rule prints_put [OF wk IH1 [OF u(2)]], assumption) (simp add: eqs 8)
        next
          case 9
          obtain u where u: "t = f # u" "fmt_text (f # fs) args = Some u" using shw by (auto simp: ft f c 9)
          show ?thesis unfolding u(1) by (rule prints_cong, rule prints_put [OF wk IH2 [OF u(2)]], assumption) (simp add: Cons c ft f fmt_print.simps(2) [of _ "CHR ''%''" rp'] 9)
        qed
      qed
    qed
  qed
qed

lemma str_len_shown: "str_shown sp ut = Some t \<Longrightarrow> str_len sp ut = Some (length t)"
proof (induction sp ut arbitrary: t rule: str_len.induct)
  case (2 c sp ut)
  then show ?case by (cases ut) (auto simp: str_shown_def cstr_simps Let_def split: if_splits)
qed (simp add: str_shown_def)

lemma length_hex_shown: "hex_shown sp ut = Some t \<Longrightarrow> length t = 2 * ut"
proof -
  have "length (concat (map (\<lambda>c. [f c, g c]) xs)) = 2 * length xs" for f g :: "char \<Rightarrow> char" and xs by (induction xs) auto
  then show "hex_shown sp ut = Some t \<Longrightarrow> length t = 2 * ut" by (auto simp: hex_shown_def split: if_splits)
qed

lemma ucast_u32_u16: "(ucast (x :: u32) :: u16) = of_nat (unat x)"
  by simp

lemma fmt_len_text:
  "fmt_text rp args = Some t \<Longrightarrow> fmt_len rp args l = Some (l + of_nat (length t))"
proof (induction "length rp" arbitrary: rp args t l rule: less_induct)
  case less
  have IH: "fmt_len s ar l = Some (l + of_nat (length u))"
    if "length s < length rp" "fmt_text s ar = Some u" for s ar u l
    using less.hyps that by blast
  show ?case
  proof (cases rp)
    case Nil
    then show ?thesis using less.prems by (auto simp: fmt_text.simps fmt_len.simps)
  next
    case (Cons c rp')
    note shw = trans [OF fmt_text.simps(2) [symmetric] less.prems(1) [unfolded Cons]]
    obtain ftype s where ft: "fmt_type False rp' = (ftype, s)" by force
    have s: "length s \<le> length rp'" using fmt_type_shorter [OF ft] .
    show ?thesis
    proof (cases "c = CHR ''%''")
      case False
      then show ?thesis using shw IH [of rp'] Cons by (auto simp: fmt_len.simps(2))
    next
      case c: True
      show ?thesis
      proof (cases s)
        case Nil
        then show ?thesis using shw ft c Cons by (simp add: fmt_len.simps(2))
      next
        case f: (Cons f fs)
        have IH1: "fmt_len fs ar l = Some (l + of_nat (length u))" if "fmt_text fs ar = Some u" for ar u l
          using IH [OF _ that] s f Cons by simp
        have IH2: "fmt_len (f # fs) ar l = Some (l + of_nat (length u))" if "fmt_text (f # fs) ar = Some u" for ar u l
          using IH [OF _ that] s f Cons by simp
        have lens: "fmt_len (c # rp') args l = (case (ftype, f # fs) of (ftype, f # fs) \<Rightarrow>
            if f = CHR ''.'' then fmt_len fs args (l + 1)
            else if f = CHR ''s'' then do {
              (ut, args) \<leftarrow> fmt_limit ftype 0x7FFFFFFF args;
              (sp, args) \<leftarrow> va_ptr args;
              n \<leftarrow> str_len sp (unat ut);
              fmt_len fs args (l + of_nat n) }
            else if f = CHR ''c'' then do { (i, args) \<leftarrow> va_int args; fmt_len fs args (l + 1) }
            else if f = CHR ''d'' then do {
              (i, args) \<leftarrow> va_int args; (t, n) \<leftarrow> itoa i 10; fmt_len fs args (l + of_nat (length t)) }
            else if f = CHR ''u'' then do {
              (i, args) \<leftarrow> va_int args; (t, n) \<leftarrow> uitoa i 10; fmt_len fs args (l + of_nat (length t)) }
            else if f = CHR ''x'' then do {
              (i, args) \<leftarrow> va_int args; (t, n) \<leftarrow> uitoa i 16; fmt_len fs args (l + of_nat (length t)) }
            else if f = CHR ''B'' then do {
              (ut, args) \<leftarrow> fmt_limit ftype 0 args;
              (sp, args) \<leftarrow> va_ptr args;
              fmt_len fs args (l + ucast ut * 2) }
            else if f = CHR ''%'' then fmt_len fs args (l + 1)
            else fmt_len (f # fs) args (l + 1))"
          using c ft f by (subst fmt_len.simps(2)) simp
        consider "f = CHR ''.''" | "f = CHR ''s''" | "f = CHR ''c''" | "f = CHR ''d''" | "f = CHR ''u''" | "f = CHR ''x''" | "f = CHR ''B''"
          | "f = CHR ''%''" | "f \<noteq> CHR ''.''" "f \<noteq> CHR ''s''" "f \<noteq> CHR ''c''" "f \<noteq> CHR ''d''" "f \<noteq> CHR ''u''" "f \<noteq> CHR ''x''" "f \<noteq> CHR ''B''"
            "f \<noteq> CHR ''%''" by blast
        then show ?thesis
        proof cases
          case 1
          then show ?thesis unfolding Cons lens using shw IH1 by (auto simp: ft f c)
        next
          case 2
          obtain ut as1 sp as2 v u where u: "fmt_limit ftype 0x7FFFFFFF args = Some (ut, as1)" "va_ptr as1 = Some (sp, as2)"
              "str_shown sp (unat ut) = Some v" "t = v @ u" "fmt_text fs as2 = Some u"
            using shw by (auto simp: ft f c 2 split: Option.bind_splits)
          then show ?thesis unfolding Cons lens by (simp add: 2 str_len_shown IH1)
        next
          case 3
          obtain k as1 u where u: "va_int args = Some (k, as1)" "t = char_of (unat k mod 256) # u" "fmt_text fs as1 = Some u"
            using shw by (auto simp: ft f c 3 split: Option.bind_splits)
          then show ?thesis unfolding Cons lens by (simp add: 3 IH1)
        next
          case 4
          obtain k as1 v n u where u: "va_int args = Some (k, as1)" "itoa k 10 = Some (v, n)" "t = v @ u" "fmt_text fs as1 = Some u"
            using shw by (auto simp: ft f c 4 num_shown_def split: Option.bind_splits)
          then show ?thesis unfolding Cons lens by (simp add: 4 IH1)
        next
          case 5
          obtain k as1 v n u where u: "va_int args = Some (k, as1)" "uitoa k 10 = Some (v, n)" "t = v @ u" "fmt_text fs as1 = Some u"
            using shw by (auto simp: ft f c 5 num_shown_def split: Option.bind_splits)
          then show ?thesis unfolding Cons lens by (simp add: 5 IH1)
        next
          case 6
          obtain k as1 v n u where u: "va_int args = Some (k, as1)" "uitoa k 16 = Some (v, n)" "t = v @ u" "fmt_text fs as1 = Some u"
            using shw by (auto simp: ft f c 6 num_shown_def split: Option.bind_splits)
          then show ?thesis unfolding Cons lens by (simp add: 6 IH1)
        next
          case 7
          obtain ut as1 sp as2 v u where u: "fmt_limit ftype 0 args = Some (ut, as1)" "va_ptr as1 = Some (sp, as2)"
              "hex_shown sp (unat ut) = Some v" "t = v @ u" "fmt_text fs as2 = Some u"
            using shw by (auto simp: ft f c 7 split: Option.bind_splits)
          then show ?thesis unfolding Cons lens by (simp add: 7 IH1 length_hex_shown)
        next
          case 8
          obtain u where u: "t = f # u" "fmt_text fs args = Some u" using shw by (auto simp: ft f c 8)
          then show ?thesis unfolding Cons lens by (simp add: 8 IH1)
        next
          case 9
          obtain u where u: "t = f # u" "fmt_text (f # fs) args = Some u" using shw by (auto simp: ft f c 9)
          have "fmt_len (f # fs) args (l + 1) = Some (l + 1 + of_nat (length u))" by (rule IH2 [OF u(2)])
          then show ?thesis unfolding Cons lens u(1) using 9 by simp
        qed
      qed
    qed
  qed
qed

text \<open>
  C40: Formatted printing: where the arguments fit the format, the handler receives the text in pieces of at most 16
  characters, whatever it answers to the first ones, and the result is its last answer; the length that is
  computed beforehand is the length of the text, as a 16-bit integer.
\<close>

theorem format_printed:
  assumes "fmt_text fmt args = Some t"
  shows "\<exists>ps p. concat ps @ p = t \<and> (\<forall>q\<in>set (p # ps). length q \<le> 16) \<and>
    (\<forall>H (h :: 'h). cFormatWriter_print H h fmt args = do { h \<leftarrow> feed_all H h ps; H h p }) \<and>
    cFormatWriter_length fmt args = Some (of_nat (length t))"
  using fmt_print_prints [OF assms, of "[]", where 'h = 'h] fmt_len_text [OF assms, of 0]
  by (auto simp: prints_def cFormatWriter_print_def cFormatWriter_length_def NUM_OF_WORK_def)

theorem format_printed_witness:
  "\<exists>ps p. concat ps @ p = ''-7 mbed 1f'' \<and> (\<forall>q\<in>set (p # ps). length q \<le> 16) \<and>
    (\<forall>H (h :: unit). cFormatWriter_print H h ''%d %.*s %x'' [AInt (- 7), AInt 4, APtr ''mbedJS'', AInt 31] =
       do { h \<leftarrow> feed_all H h ps; H h p }) \<and>
    cFormatWriter_length ''%d %.*s %x'' [AInt (- 7), AInt 4, APtr ''mbedJS'', AInt 31] = Some 10"
proof -
  have t: "fmt_text ''%d %.*s %x'' [AInt (- 7), AInt 4, APtr ''mbedJS'', AInt 31] = Some ''-7 mbed 1f''"
    by code_simp
  show ?thesis using format_printed [OF t, where 'h = unit] by simp
qed

end
