(* ===== verification/HttpStream.thy ===== *)
theory HttpStream
  imports Stdlib
begin

text \<open>
  \<open>NyLPC_cHttpStream.c\<close>: the buffered stream that HTTP messages are written to. It collects text in a
  transmit buffer of the TCP socket and hands the buffer to the socket when it is full; in the chunked
  encoding each buffer becomes one chunk, for which seven bytes are set aside.

  The socket is used through its interface, \<open>NyLPC_TiTcpSocket_t\<close>, which the model has as a record
  of functions on a world \<open>'w\<close>. The interface names a buffer (\<open>'b\<close>) and gives the bytes behind the pointer
  it returned; the stream owns them until it passes the buffer back. \<open>None\<close> is an access
  outside a buffer, or a call that does not return.
\<close>

unbundle bit_operations_syntax

abbreviation (input) "HTTP_TX_BUF_HINT \<equiv> (1024 :: u16)"
abbreviation (input) "DEFAULT_HTTP_TIMEOUT \<equiv> (8000 :: u32)"

record ('b, 'w) tcp_if =
  if_precv :: "u32 \<Rightarrow> 'w \<Rightarrow> ((int \<times> char list) \<times> 'w) option"
  if_pseek :: "u16 \<Rightarrow> 'w \<Rightarrow> 'w option"
  if_allocSendBuf :: "u16 \<Rightarrow> u32 \<Rightarrow> 'w \<Rightarrow> (('b \<times> char list \<times> u16) option \<times> 'w) option"
  if_psend :: "'b \<Rightarrow> char list \<Rightarrow> int \<Rightarrow> u32 \<Rightarrow> 'w \<Rightarrow> (bool \<times> 'w) option"
  if_releaseSendBuf :: "'b \<Rightarrow> 'w \<Rightarrow> 'w"

datatype encoding = ET_NONE | ET_CHUNKED

record 'b http_stream =
  txb :: "('b \<times> char list) option"
  txb_size :: u16
  tx_len :: u16
  re_type :: encoding
  we_type :: encoding

text \<open>An operation returns a result, the stream and the world.\<close>

type_synonym ('r, 'b, 'w) stream_result = "('r \<times> 'b http_stream \<times> 'w) option"

section \<open>Operations\<close>

definition cHttpStream_initialize :: "'b http_stream \<Rightarrow> 'b http_stream" where
  "cHttpStream_initialize st = st\<lparr>we_type := ET_NONE, re_type := ET_NONE, txb := None\<rparr>"

definition cHttpStream_finalize :: "('b, 'w) tcp_if \<Rightarrow> 'b http_stream \<Rightarrow> 'w \<Rightarrow> 'w" where
  "cHttpStream_finalize I st w = (case txb st of None \<Rightarrow> w | Some (b, m) \<Rightarrow> if_releaseSendBuf I b w)"

definition pread_func :: "('b, 'w) tcp_if \<Rightarrow> u32 \<Rightarrow> 'w \<Rightarrow> ((int \<times> char list) \<times> 'w) option" where
  "pread_func I i_timeout w = if_precv I i_timeout w"

definition pseek_func :: "('b, 'w) tcp_if \<Rightarrow> u16 \<Rightarrow> 'w \<Rightarrow> 'w option" where
  "pseek_func I i_seek w = if_pseek I i_seek w"

definition upper_digit :: "u16 \<Rightarrow> char" where
  "upper_digit v = ''0123456789ABCDEF'' ! unat v"

definition put_chunked_header :: "u16 \<Rightarrow> char list \<Rightarrow> char list option" where
  "put_chunked_header i_val m =
     blit m 0 [upper_digit (drop_bit 8 (i_val AND 0x0f00)), upper_digit (drop_bit 4 (i_val AND 0x00f0)), upper_digit (i_val AND 0x000f),
       CHR 0x0D, CHR 0x0A]"

definition flush_func :: "('b, 'w) tcp_if \<Rightarrow> 'b http_stream \<Rightarrow> 'w \<Rightarrow> (bool, 'b, 'w) stream_result" where
  "flush_func I st w =
     (case txb st of
        None \<Rightarrow> Some (True, st, w)
      | Some (b, m) \<Rightarrow> do {
          (m, l) \<leftarrow> (if we_type st = ET_CHUNKED then do {
             m \<leftarrow> put_chunked_header (tx_len st - 5) m;
             m \<leftarrow> wr m (unat (tx_len st)) (CHR 0x0D);
             m \<leftarrow> wr m (unat (tx_len st) + 1) (CHR 0x0A);
             Some (m, tx_len st + 2) }
           else Some (m, tx_len st));
          (ok, w) \<leftarrow> if_psend I b m (int (unat l)) DEFAULT_HTTP_TIMEOUT w;
          Some (ok, st\<lparr>tx_len := l, txb := None\<rparr>, if ok then w else if_releaseSendBuf I b w) })"

text \<open>The first lines of the loop of \<open>write_func\<close>: a new buffer where there is none.\<close>

definition alloc_txb :: "('b, 'w) tcp_if \<Rightarrow> 'b http_stream \<Rightarrow> 'w \<Rightarrow> (bool, 'b, 'w) stream_result" where
  "alloc_txb I st w =
     (if txb st \<noteq> None then Some (True, st, w)
      else do {
        (r, w) \<leftarrow> if_allocSendBuf I HTTP_TX_BUF_HINT DEFAULT_HTTP_TIMEOUT w;
        (case r of
           None \<Rightarrow> Some (False, st, w)
         | Some (b, m, s) \<Rightarrow> Some (True, (if we_type st = ET_CHUNKED then st\<lparr>txb := Some (b, m), tx_len := 5, txb_size := s - 7\<rparr>
             else st\<lparr>txb := Some (b, m), tx_len := 0, txb_size := s\<rparr>), w)) })"

partial_function (option) write_loop ::
    "('b, 'w) tcp_if \<Rightarrow> 'b http_stream \<Rightarrow> char list \<Rightarrow> nat \<Rightarrow> 'w \<Rightarrow> (bool, 'b, 'w) stream_result" where
  [code]: "write_loop I st src l w =
     (if l = 0 then Some (True, st, w)
      else Option.bind (alloc_txb I st w) (\<lambda>(ok, st, w).
        if \<not> ok then Some (False, st, w)
        else Option.bind (txb st) (\<lambda>(b, m).
          let free_size = txb_size st - tx_len st in
          if unat free_size > l then Option.bind (copy_at m (unat (tx_len st)) src 0 l) (\<lambda>m.
            Some (True, st\<lparr>txb := Some (b, m), tx_len := tx_len st + of_nat l\<rparr>, w))
          else Option.bind (copy_at m (unat (tx_len st)) src 0 (unat free_size)) (\<lambda>m.
            Option.bind (flush_func I (st\<lparr>txb := Some (b, m), tx_len := tx_len st + free_size\<rparr>) w) (\<lambda>(ok, st, w).
              if \<not> ok then Some (False, st, w)
              else write_loop I st (drop (unat free_size) src) (l - unat free_size) w)))))"

text \<open>A negative length stands for a C string.\<close>

definition write_func :: "('b, 'w) tcp_if \<Rightarrow> 'b http_stream \<Rightarrow> char list \<Rightarrow> int \<Rightarrow> 'w \<Rightarrow> (bool, 'b, 'w) stream_result" where
  "write_func I st i_data i_length w =
     write_loop I st i_data (if i_length < 0 then length i_data else nat i_length) w"

definition setWriteEncoding_func :: "('b, 'w) tcp_if \<Rightarrow> 'b http_stream \<Rightarrow> encoding \<Rightarrow> 'w \<Rightarrow> ('b http_stream \<times> 'w) option" where
  "setWriteEncoding_func I st i_et w =
     (if we_type st = i_et then Some (st, w)
      else if txb st \<noteq> None then do {
        (ok, st, w) \<leftarrow> flush_func I st w;
        if \<not> ok then Some (st, w) else Some (st\<lparr>we_type := i_et\<rparr>, w) }
      else Some (st\<lparr>we_type := i_et\<rparr>, w))"

section \<open>What is sent\<close>

text \<open>
  The contract of a socket that the stream relies on: a transmit buffer has at least \<open>lo\<close> and at most \<open>hi\<close> bytes
  and lies in the memory behind the pointer; what \<open>psend\<close> accepts is appended to what was sent, and nothing
  else changes that.
\<close>

locale tx_socket =
  fixes I :: "('b, 'w) tcp_if"
    and inv :: "'w \<Rightarrow> bool"
    and sent :: "'w \<Rightarrow> char list"
    and lo hi :: nat
  assumes alloc_law: "inv w \<Longrightarrow> if_allocSendBuf I h t w = Some (r, w') \<Longrightarrow> inv w' \<and> sent w' = sent w \<and>
      (\<forall>b m s. r = Some (b, m, s) \<longrightarrow> lo \<le> unat s \<and> unat s \<le> hi \<and> unat s \<le> length m)"
    and psend_law: "inv w \<Longrightarrow> 0 \<le> l \<Longrightarrow> nat l \<le> length m \<Longrightarrow> if_psend I b m l t w = Some (ok, w') \<Longrightarrow>
      inv w' \<and> sent w' = sent w @ (if ok then take (nat l) m else [])"
    and release_law: "inv w \<Longrightarrow> inv (if_releaseSendBuf I b w) \<and> sent (if_releaseSendBuf I b w) = sent w"

text \<open>A socket that refuses nothing.\<close>

definition ready :: "('b, 'w) tcp_if \<Rightarrow> ('w \<Rightarrow> bool) \<Rightarrow> bool" where
  "ready I ok \<longleftrightarrow> (\<forall>w h t. ok w \<longrightarrow> (\<exists>r w'. if_allocSendBuf I h t w = Some (Some r, w'))) \<and>
     (\<forall>w b m l t. ok w \<longrightarrow> 0 \<le> l \<longrightarrow> nat l \<le> length m \<longrightarrow> (\<exists>w'. if_psend I b m l t w = Some (True, w')))"

text \<open>The text in the buffer, and how a list of buffers is encoded.\<close>

definition head_len :: "'b http_stream \<Rightarrow> nat" where
  "head_len st = (if we_type st = ET_CHUNKED then 5 else 0)"

definition pending_text :: "'b http_stream \<Rightarrow> char list" where
  "pending_text st = (case txb st of None \<Rightarrow> [] | Some (b, m) \<Rightarrow> take (unat (tx_len st) - head_len st) (drop (head_len st) m))"

definition chunk_digits :: "nat \<Rightarrow> string" where
  "chunk_digits n = [''0123456789ABCDEF'' ! (n div 256 mod 16), ''0123456789ABCDEF'' ! (n div 16 mod 16), ''0123456789ABCDEF'' ! (n mod 16)]"

definition chunk_packet :: "string \<Rightarrow> string" where
  "chunk_packet d = chunk_digits (length d) @ [CHR 0x0D, CHR 0x0A] @ d @ [CHR 0x0D, CHR 0x0A]"

definition encoded :: "encoding \<Rightarrow> string list \<Rightarrow> string" where
  "encoded e ds = concat (if e = ET_CHUNKED then map chunk_packet ds else ds)"

lemma encoded_simps [simp]: "encoded e [] = []" "encoded e (ds @ es) = encoded e ds @ encoded e es"
  by (simp_all add: encoded_def)

text \<open>A buffer that is in use holds text, has room, and leaves room for the framing of a chunk.\<close>

definition stream_ok :: "nat \<Rightarrow> 'b http_stream \<Rightarrow> bool" where
  "stream_ok hi st \<longleftrightarrow> (case txb st of None \<Rightarrow> True | Some (b, m) \<Rightarrow>
     head_len st < unat (tx_len st) \<and> unat (tx_len st) < unat (txb_size st) \<and> unat (txb_size st) \<le> hi \<and>
     unat (txb_size st) + (if we_type st = ET_CHUNKED then 7 else 0) \<le> length m)"

definition flushable :: "'b http_stream \<Rightarrow> bool" where
  "flushable st \<longleftrightarrow> (case txb st of None \<Rightarrow> True | Some (b, m) \<Rightarrow>
     head_len st \<le> unat (tx_len st) \<and> unat (tx_len st) + (if we_type st = ET_CHUNKED then 2 else 0) \<le> length m \<and> unat (tx_len st) < 65534)"

lemma stream_ok_flushable: "stream_ok hi st \<Longrightarrow> hi < 65527 \<Longrightarrow> flushable st"
  by (auto simp: stream_ok_def flushable_def split: option.splits)

lemma upper_digits:
  fixes v :: u16
  shows "upper_digit (drop_bit 8 (v AND 0x0f00)) = ''0123456789ABCDEF'' ! (unat v div 256 mod 16)"
    "upper_digit (drop_bit 4 (v AND 0x00f0)) = ''0123456789ABCDEF'' ! (unat v div 16 mod 16)"
    "upper_digit (v AND 0x000f) = ''0123456789ABCDEF'' ! (unat v mod 16)"
proof -
  have m: "(0x0f00 :: u16) = push_bit 8 (mask 4)" "(0x00f0 :: u16) = push_bit 4 (mask 4)" "(0x000f :: u16) = mask 4"
    by (simp_all add: mask_eq_exp_minus_1)
  have d: "drop_bit n (v AND push_bit n (mask 4)) = take_bit 4 (drop_bit n v)" if "n \<le> 8" for n
    by (rule bit_word_eqI) (use that in \<open>auto simp: bit_simps\<close>)
  have u: "unat (take_bit 4 (drop_bit n v)) = unat v div 2 ^ n mod 16" for n
  proof -
    have "unat (take_bit 4 (drop_bit n v)) = take_bit 4 (drop_bit n (take_bit 16 (unat v)))"
      by (simp only: unsigned_take_bit_eq unsigned_drop_bit_eq) simp
    then show ?thesis by (simp add: take_bit_eq_mod drop_bit_eq_div)
  qed
  show "upper_digit (drop_bit 8 (v AND 0x0f00)) = ''0123456789ABCDEF'' ! (unat v div 256 mod 16)"
    "upper_digit (drop_bit 4 (v AND 0x00f0)) = ''0123456789ABCDEF'' ! (unat v div 16 mod 16)"
    using u [of 8] u [of 4] d [of 8] d [of 4] unfolding upper_digit_def m by simp_all
  show "upper_digit (v AND 0x000f) = ''0123456789ABCDEF'' ! (unat v mod 16)"
    using u [of 0] by (simp add: upper_digit_def m take_bit_eq_mask)
qed

lemma put_chunked_header_Some:
  assumes "5 \<le> length m"
  shows "put_chunked_header v m = Some (chunk_digits (unat v) @ [CHR 0x0D, CHR 0x0A] @ drop 5 m)"
proof -
  have "length (chunk_digits (unat v) @ [CHR 0x0D, CHR 0x0A]) = 5" by (simp add: chunk_digits_def)
  moreover have "put_chunked_header v m = blit m 0 (chunk_digits (unat v) @ [CHR 0x0D, CHR 0x0A])"
    unfolding put_chunked_header_def upper_digits chunk_digits_def by simp
  ultimately show ?thesis using assms by (simp only: blit_def) simp
qed

lemma list_update_two: "length p = n \<Longrightarrow> (p @ x # y # r)[n := a, n + 1 := b] = p @ a # b # r"
  by (auto simp: list_update_append)

lemma take_two: "length p = n \<Longrightarrow> take (n + 2) (p @ a # b # r) = p @ [a, b]"
  by auto

lemma flush_chunk:
  assumes "txb st = Some (b, m)" "we_type st = ET_CHUNKED" "5 \<le> unat (tx_len st)" "unat (tx_len st) + 2 \<le> length m"
    "unat (tx_len st) < 65534"
  shows "\<exists>m'. flush_func I st w = do {
      (ok, w) \<leftarrow> if_psend I b m' (int (unat (tx_len st + 2))) DEFAULT_HTTP_TIMEOUT w;
      Some (ok, st\<lparr>tx_len := tx_len st + 2, txb := None\<rparr>, if ok then w else if_releaseSendBuf I b w) } \<and>
    length m' = length m \<and> take (unat (tx_len st + 2)) m' = chunk_packet (pending_text st)"
proof -
  let ?n = "unat (tx_len st)"
  let ?d = "take (?n - 5) (drop 5 m)"
  have v: "unat (tx_len st - 5) = ?n - 5" using assms(3) by (subst unat_sub) (simp_all add: word_le_nat_alt)
  have u: "unat (tx_len st + 2) = ?n + 2" using assms(5) by (subst unat_add_small) simp_all
  let ?h = "chunk_digits (?n - 5) @ [CHR 0x0D, CHR 0x0A]"
  have lh: "length ?h = 5" by (simp add: chunk_digits_def)
  let ?m1 = "?h @ drop 5 m"
  let ?m' = "?m1[?n := CHR 0x0D, ?n + 1 := CHR 0x0A]"
  have p: "put_chunked_header (tx_len st - 5) m = Some ?m1" using assms(3,4) v by (simp add: put_chunked_header_Some)
  have w1: "wr ?m1 ?n (CHR 0x0D) = Some (?m1[?n := CHR 0x0D])" "wr (?m1[?n := CHR 0x0D]) (?n + 1) (CHR 0x0A) = Some ?m'"
    using assms(3,4) lh by (simp_all add: wr_def)
  have "drop 5 m = ?d @ drop ?n m" using append_take_drop_id [of "?n - 5" "drop 5 m"] assms(3) by simp
  moreover define x y r where "x = m ! ?n" and "y = m ! Suc ?n" and "r = drop (Suc (Suc ?n)) m"
  then have "drop ?n m = x # y # r" using assms(4) by (simp add: Cons_nth_drop_Suc)
  ultimately have "?m1 = (?h @ ?d) @ x # y # r" by simp
  moreover have ld: "length (?h @ ?d) = ?n" using lh assms(3,4) by simp
  ultimately have m': "?m' = (?h @ ?d) @ CHR 0x0D # CHR 0x0A # r" by (simp only: list_update_two)
  have dl: "length ?d = ?n - 5" using assms(3,4) by simp
  have "pending_text st = ?d" using assms(1,2) by (simp add: pending_text_def head_len_def)
  then have "chunk_packet (pending_text st) = ?h @ ?d @ [CHR 0x0D, CHR 0x0A]" using dl by (simp add: chunk_packet_def)
  moreover have "take (?n + 2) ?m' = (?h @ ?d) @ [CHR 0x0D, CHR 0x0A]" unfolding m' by (rule take_two [OF ld])
  moreover have "length ?m' = length m" using lh assms(3,4) by simp
  moreover have "flush_func I st w = do {
      (ok, w) \<leftarrow> if_psend I b ?m' (int (unat (tx_len st + 2))) DEFAULT_HTTP_TIMEOUT w;
      Some (ok, st\<lparr>tx_len := tx_len st + 2, txb := None\<rparr>, if ok then w else if_releaseSendBuf I b w) }"
    unfolding flush_func_def using assms(1,2) p w1 by simp
  ultimately show ?thesis unfolding u by (intro exI [of _ ?m']) simp
qed

text \<open>The bytes of a buffer that the encoding needs: a smaller one cannot be used.\<close>

definition framing :: "'b http_stream \<Rightarrow> nat" where
  "framing st = (if we_type st = ET_CHUNKED then 12 else 0)"

context tx_socket
begin

lemma flush_sent:
  assumes "inv w" "flushable st" "flush_func I st w = Some (ok, st', w')"
  shows "inv w'" "txb st' = None" "we_type st' = we_type st"
    "sent w' = sent w @ (if ok \<and> txb st \<noteq> None then encoded (we_type st) [pending_text st] else [])"
proof -
  have "inv w' \<and> txb st' = None \<and> we_type st' = we_type st \<and>
    sent w' = sent w @ (if ok \<and> txb st \<noteq> None then encoded (we_type st) [pending_text st] else [])"
  proof (cases "txb st")
    case None
    then show ?thesis using assms by (simp add: flush_func_def)
  next
    case (Some p)
    obtain b m where p: "p = (b, m)" by (cases p)
    show ?thesis
    proof (cases "we_type st")
      case ET_NONE
      then have l: "nat (int (unat (tx_len st))) \<le> length m" using assms(2) Some p by (simp add: flushable_def)
      obtain w1 where w1: "if_psend I b m (int (unat (tx_len st))) DEFAULT_HTTP_TIMEOUT w = Some (ok, w1)"
          "st' = st\<lparr>txb := None\<rparr>" "w' = (if ok then w1 else if_releaseSendBuf I b w1)"
        using assms(3) Some p ET_NONE by (auto simp: flush_func_def split: Option.bind_splits)
      have "inv w1 \<and> sent w1 = sent w @ (if ok then take (unat (tx_len st)) m else [])"
        using psend_law [OF assms(1) _ l w1(1)] by simp
      then show ?thesis using w1(2,3) release_law [of w1 b] Some p ET_NONE by (simp add: pending_text_def head_len_def encoded_def)
    next
      case ET_CHUNKED
      then have n: "5 \<le> unat (tx_len st)" "unat (tx_len st) + 2 \<le> length m" "unat (tx_len st) < 65534"
        using assms(2) Some p by (simp_all add: flushable_def head_len_def)
      obtain m' where m': "flush_func I st w = do {
            (ok, w) \<leftarrow> if_psend I b m' (int (unat (tx_len st + 2))) DEFAULT_HTTP_TIMEOUT w;
            Some (ok, st\<lparr>tx_len := tx_len st + 2, txb := None\<rparr>, if ok then w else if_releaseSendBuf I b w) }"
          "length m' = length m" "take (unat (tx_len st + 2)) m' = chunk_packet (pending_text st)"
        using flush_chunk [OF Some [unfolded p] ET_CHUNKED n(1-3), of I w] by (elim exE conjE)
      have "unat (tx_len st + 2) = unat (tx_len st) + 2" using n(3) by (subst unat_add_small) simp_all
      then have l: "nat (int (unat (tx_len st + 2))) \<le> length m'" unfolding nat_int m'(2) using n(2) by linarith
      obtain w1 where w1: "if_psend I b m' (int (unat (tx_len st + 2))) DEFAULT_HTTP_TIMEOUT w = Some (ok, w1)"
          "st' = st\<lparr>tx_len := tx_len st + 2, txb := None\<rparr>" "w' = (if ok then w1 else if_releaseSendBuf I b w1)"
        using assms(3) unfolding m'(1) by (auto split: Option.bind_splits)
      have "inv w1 \<and> sent w1 = sent w @ (if ok then take (unat (tx_len st + 2)) m' else [])"
        using psend_law [OF assms(1) _ l w1(1)] by simp
      then show ?thesis using w1(2,3) release_law [of w1 b] Some p ET_CHUNKED m'(3) by (simp add: encoded_def)
    qed
  qed
  then show "inv w'" "txb st' = None" "we_type st' = we_type st"
    "sent w' = sent w @ (if ok \<and> txb st \<noteq> None then encoded (we_type st) [pending_text st] else [])" by blast+
qed

lemma alloc_txb_ok:
  assumes "inv w" "stream_ok hi st" "framing st < lo" "alloc_txb I st w = Some (True, st', w')"
  shows "inv w' \<and> we_type st' = we_type st \<and> sent w' = sent w \<and> pending_text st' = pending_text st \<and>
    (\<exists>b m. txb st' = Some (b, m) \<and> head_len st \<le> unat (tx_len st') \<and> unat (tx_len st') < unat (txb_size st') \<and> unat (txb_size st') \<le> hi \<and>
      unat (txb_size st') + (if we_type st = ET_CHUNKED then 7 else 0) \<le> length m)"
proof (cases "txb st")
  case None
  obtain r w1 where r: "if_allocSendBuf I HTTP_TX_BUF_HINT DEFAULT_HTTP_TIMEOUT w = Some (r, w1)"
    using assms(4) None by (auto simp: alloc_txb_def split: Option.bind_splits)
  then obtain b m s where s: "r = Some (b, m, s)" using assms(4) None by (cases r) (auto simp: alloc_txb_def)
  have law: "inv w1" "sent w1 = sent w" "lo \<le> unat s" "unat s \<le> hi" "unat s \<le> length m"
    using alloc_law [OF assms(1) r] s by simp_all
  then have "unat (s - 7) = unat s - 7" if "we_type st = ET_CHUNKED"
    using assms(3) that by (subst unat_sub) (simp_all add: framing_def word_le_nat_alt)
  then show ?thesis using assms(3,4) None r s law by (auto simp: alloc_txb_def framing_def head_len_def pending_text_def)
next
  case (Some p)
  then show ?thesis using assms by (cases p) (auto simp: alloc_txb_def stream_ok_def split: if_splits)
qed

lemma pending_copy:
  "k \<le> n \<Longrightarrow> copy_at m n src 0 l = Some m' \<Longrightarrow> take (n + l - k) (drop k m') = take (n - k) (drop k m) @ take l src"
  by (auto simp: accesses drop_take)

lemma write_loop_step:
  "l \<noteq> 0 \<Longrightarrow> write_loop I st src l w = Option.bind (alloc_txb I st w) (\<lambda>(ok, st, w).
        if \<not> ok then Some (False, st, w)
        else Option.bind (txb st) (\<lambda>(b, m).
          let free_size = txb_size st - tx_len st in
          if unat free_size > l then Option.bind (copy_at m (unat (tx_len st)) src 0 l) (\<lambda>m.
            Some (True, st\<lparr>txb := Some (b, m), tx_len := tx_len st + of_nat l\<rparr>, w))
          else Option.bind (copy_at m (unat (tx_len st)) src 0 (unat free_size)) (\<lambda>m.
            Option.bind (flush_func I (st\<lparr>txb := Some (b, m), tx_len := tx_len st + free_size\<rparr>) w) (\<lambda>(ok, st, w).
              if \<not> ok then Some (False, st, w)
              else write_loop I st (drop (unat free_size) src) (l - unat free_size) w))))"
  by (subst write_loop.simps) simp

lemma write_sent:
  assumes "inv w" "stream_ok hi st" "framing st < lo" "hi < 65527" "l \<le> length src" "write_loop I st src l w = Some (True, st', w')"
  shows "inv w' \<and> stream_ok hi st' \<and> we_type st' = we_type st \<and>
    (\<exists>ds. sent w' = sent w @ encoded (we_type st) ds \<and> concat ds @ pending_text st' = pending_text st @ take l src \<and>
      (\<forall>d\<in>set ds. d \<noteq> [] \<and> length d \<le> hi))"
  using assms
proof (induction l arbitrary: st w src rule: less_induct)
  case (less l)
  show ?case
  proof (cases "l = 0")
    case True
    then show ?thesis using less.prems by (intro conjI exI [of _ "[]"]) (simp_all add: write_loop.simps)
  next
    case False
    note wl = less.prems(6) [unfolded write_loop_step [OF False]]
    obtain st1 w1 where a: "alloc_txb I st w = Some (True, st1, w1)"
      using wl by (cases "alloc_txb I st w") (auto split: if_splits)
    note law = alloc_txb_ok [OF less.prems(1-3) a]
    obtain b m where m: "txb st1 = Some (b, m)" "head_len st \<le> unat (tx_len st1)" "unat (tx_len st1) < unat (txb_size st1)" "unat (txb_size st1) \<le> hi"
        "unat (txb_size st1) + (if we_type st = ET_CHUNKED then 7 else 0) \<le> length m"
      using law by blast
    have we: "we_type st1 = we_type st" "head_len st1 = head_len st" "pending_text st1 = pending_text st" using law by (simp_all add: head_len_def)
    have p1: "pending_text st1 = take (unat (tx_len st1) - head_len st) (drop (head_len st) m)"
      using m(1) we(2) by (simp add: pending_text_def)
    let ?free = "txb_size st1 - tx_len st1"
    have fr: "unat ?free = unat (txb_size st1) - unat (tx_len st1)" using m(3) by (intro unat_sub) (simp add: word_le_nat_alt)
    note wl1 = wl [unfolded a option.simps(5) Option.bind.simps m(1) prod.case Let_def]
    show ?thesis
    proof (cases "unat ?free > l")
      case True
      obtain m' where c: "copy_at m (unat (tx_len st1)) src 0 l = Some m'" "st' = st1\<lparr>txb := Some (b, m'), tx_len := tx_len st1 + of_nat l\<rparr>" "w' = w1"
        using wl1 True by (auto split: Option.bind_splits)
      have u: "unat (tx_len st1 + of_nat l) = unat (tx_len st1) + l"
      proof -
        have "l < 65536" "unat (tx_len st1) + l < 65536" using True fr unat_u16_less [of "txb_size st1"] by linarith+
        then show ?thesis by (subst unat_add_small) (simp_all add: unat_of_nat_u16)
      qed
      have "pending_text st' = pending_text st @ take l src"
        using pending_copy [OF m(2) c(1)] u we p1 by (simp add: c(2) pending_text_def head_len_def)
      moreover have "stream_ok hi st'" using m copy_at_length [OF c(1)] u True fr False we by (simp add: c(2) stream_ok_def head_len_def)
      ultimately show ?thesis using law c(2,3) by (intro conjI exI [of _ "[]"]) (simp_all add: head_len_def)
    next
      case False
      have full: "tx_len st1 + ?free = txb_size st1" by simp
      let ?st2 = "\<lambda>m. st1\<lparr>txb := Some (b, m), tx_len := txb_size st1\<rparr>"
      obtain m' where c: "copy_at m (unat (tx_len st1)) src 0 (unat ?free) = Some m'"
        using wl1 False by (auto split: Option.bind_splits)
      obtain st3 w3 where f: "flush_func I (?st2 m') w1 = Some (True, st3, w3)"
          "write_loop I st3 (drop (unat ?free) src) (l - unat ?free) w3 = Some (True, st', w')"
        using wl1 False unfolding c full by (auto split: Option.bind_splits if_splits)
      have tot: "unat (tx_len st1) + unat ?free = unat (txb_size st1)" using fr m(3) by simp
      have p2: "pending_text (?st2 m') = pending_text st @ take (unat ?free) src"
        using pending_copy [OF m(2) c] tot we p1 by (simp add: pending_text_def head_len_def)
      have "flushable (?st2 m')" using m(2,3,5) copy_at_length [OF c] m(4) less.prems(4) we by (auto simp: flushable_def head_len_def)
      note fl = flush_sent [OF _ this f(1)]
      have inv1: "inv w1" using law by simp
      have st3: "we_type st3 = we_type st" "txb st3 = None" "inv w3" using fl [OF inv1] we by simp_all
      have s3: "sent w3 = sent w @ encoded (we_type st) [pending_text (?st2 m')]"
        using fl(4) [OF inv1] we law by simp
      have IH: "inv w' \<and> stream_ok hi st' \<and> we_type st' = we_type st3 \<and>
        (\<exists>ds. sent w' = sent w3 @ encoded (we_type st3) ds \<and> concat ds @ pending_text st' = pending_text st3 @ take (l - unat ?free) (drop (unat ?free) src) \<and>
          (\<forall>d\<in>set ds. d \<noteq> [] \<and> length d \<le> hi))"
        by (rule less.IH [OF _ st3(3) _ _ less.prems(4) _ f(2)])
          (use fr m(3) \<open>l \<noteq> 0\<close> less.prems(3,5) st3 in \<open>auto simp: stream_ok_def framing_def\<close>)
      then obtain ds where ds: "sent w' = sent w3 @ encoded (we_type st) ds"
          "concat ds @ pending_text st' = take (l - unat ?free) (drop (unat ?free) src)" "\<forall>d\<in>set ds. d \<noteq> [] \<and> length d \<le> hi"
        using st3 by (auto simp: pending_text_def)
      let ?d = "pending_text (?st2 m')"
      have "length ?d \<le> hi" using m(4) by (simp add: pending_text_def)
      moreover have "?d \<noteq> []" unfolding p2 using fr m(3) False less.prems(5) by auto
      moreover have "sent w' = sent w @ encoded (we_type st) (?d # ds)"
        using ds(1) s3 by (simp add: encoded_def)
      moreover have "concat (?d # ds) @ pending_text st' = pending_text st @ take l src"
        using ds(2) p2 False take_add [of "unat ?free" "l - unat ?free" src] by simp
      ultimately show ?thesis using IH st3(1) ds(3) by (intro conjI exI [of _ "?d # ds"]) auto
    qed
  qed
qed

text \<open>With such a socket the stream does not fail either, and its loop ends.\<close>

lemma flush_returns:
  assumes "inv w" "flushable st" "ready I inv"
  shows "\<exists>st' w'. flush_func I st w = Some (True, st', w')"
proof (cases "txb st")
  case (Some p)
  obtain b m where p: "p = (b, m)" by (cases p)
  have r: "\<exists>w'. if_psend I b m' (int (unat (l :: u16))) t w = Some (True, w')" if "unat l \<le> length m'" for m' l t
    using assms(1,3) that unfolding ready_def by simp
  show ?thesis
  proof (cases "we_type st")
    case ET_NONE
    then have "unat (tx_len st) \<le> length m" using assms(2) Some p by (simp add: flushable_def)
    then obtain w' where "if_psend I b m (int (unat (tx_len st))) DEFAULT_HTTP_TIMEOUT w = Some (True, w')" using r by blast
    then show ?thesis using Some p ET_NONE by (simp add: flush_func_def)
  next
    case ET_CHUNKED
    then have n: "5 \<le> unat (tx_len st)" "unat (tx_len st) + 2 \<le> length m" "unat (tx_len st) < 65534"
      using assms(2) Some p by (simp_all add: flushable_def head_len_def)
    from flush_chunk [OF Some [unfolded p] ET_CHUNKED n, of I w] obtain m' where m': "flush_func I st w = do {
          (ok, w) \<leftarrow> if_psend I b m' (int (unat (tx_len st + 2))) DEFAULT_HTTP_TIMEOUT w;
          Some (ok, st\<lparr>tx_len := tx_len st + 2, txb := None\<rparr>, if ok then w else if_releaseSendBuf I b w) }"
        "length m' = length m" by (elim exE conjE)
    have "unat (tx_len st + 2) = unat (tx_len st) + 2" using n(3) by (subst unat_add_small) simp_all
    then have "unat (tx_len st + 2) \<le> length m'" unfolding m'(2) using n(2) by linarith
    from r [OF this, of DEFAULT_HTTP_TIMEOUT] show ?thesis unfolding m'(1) by auto
  qed
qed (simp add: flush_func_def)

lemma write_returns:
  assumes "inv w" "stream_ok hi st" "framing st < lo" "hi < 65527" "l \<le> length src" "ready I inv"
  shows "\<exists>st' w'. write_loop I st src l w = Some (True, st', w')"
  using assms(1-5)
proof (induction l arbitrary: st w src rule: less_induct)
  case (less l)
  show ?case
  proof (cases "l = 0")
    case True
    then show ?thesis by (simp add: write_loop.simps)
  next
    case False
    obtain r w0 where "if_allocSendBuf I HTTP_TX_BUF_HINT DEFAULT_HTTP_TIMEOUT w = Some (Some r, w0)"
      using less.prems(1) assms(6) unfolding ready_def by blast
    then obtain st1 w1 where a: "alloc_txb I st w = Some (True, st1, w1)"
      by (cases r; cases "txb st") (auto simp: alloc_txb_def)
    note law = alloc_txb_ok [OF less.prems(1-3) a]
    obtain b m where m: "txb st1 = Some (b, m)" "head_len st \<le> unat (tx_len st1)" "unat (tx_len st1) < unat (txb_size st1)" "unat (txb_size st1) \<le> hi"
        "unat (txb_size st1) + (if we_type st = ET_CHUNKED then 7 else 0) \<le> length m"
      using law by blast
    have we: "we_type st1 = we_type st" "head_len st1 = head_len st" using law by (simp_all add: head_len_def)
    let ?free = "txb_size st1 - tx_len st1"
    have fr: "unat ?free = unat (txb_size st1) - unat (tx_len st1)" using m(3) by (intro unat_sub) (simp add: word_le_nat_alt)
    have room: "unat (tx_len st1) + k \<le> length m" if "k \<le> unat ?free" for k using that fr m(3,5) by (simp split: if_splits)
    note wl = write_loop_step [OF False, of st src w, unfolded a option.simps(5) Option.bind.simps m(1) prod.case Let_def]
    show ?thesis
    proof (cases "unat ?free > l")
      case True
      then obtain m' where "copy_at m (unat (tx_len st1)) src 0 l = Some m'"
        using room [of l] less.prems(5) by (auto simp: copy_at_def blit_def)
      then show ?thesis unfolding wl using True by (simp add: m(1))
    next
      case False
      obtain m' where c: "copy_at m (unat (tx_len st1)) src 0 (unat ?free) = Some m'"
        using room [of "unat ?free"] False less.prems(5) by (auto simp: copy_at_def blit_def)
      let ?st2 = "st1\<lparr>txb := Some (b, m'), tx_len := txb_size st1\<rparr>"
      have fl: "flushable ?st2" using m copy_at_length [OF c] less.prems(4) we by (auto simp: flushable_def head_len_def)
      have inv1: "inv w1" using law by simp
      obtain st3 w3 where f: "flush_func I ?st2 w1 = Some (True, st3, w3)" using flush_returns [OF inv1 fl assms(6)] by blast
      note st3 = flush_sent [OF inv1 fl f]
      have "\<exists>st' w'. write_loop I st3 (drop (unat ?free) src) (l - unat ?free) w3 = Some (True, st', w')"
        by (rule less.IH) (use fr m(3) \<open>l \<noteq> 0\<close> less.prems(3-5) st3 we in \<open>auto simp: stream_ok_def framing_def\<close>)
      moreover have "tx_len st1 + ?free = txb_size st1" by simp
      ultimately show ?thesis unfolding wl using False c f by (simp add: m(1))
    qed
  qed
qed

end

end
