(* ===== verification/TcpStream.thy ===== *)
theory TcpStream
  imports TcpApi HttpStream
begin

text \<open>
  The TCP socket as the provider of the stream's interface (the function table of
  \<open>NyLPC_cMiMicIpTcpSocket.c\<close>). The world of the interface is the socket, the network interface, the time and
  the script of the other threads; \<open>taken\<close> records the text that \<open>psend\<close> accepted.
\<close>

record tcp_env =
  clock :: u32
  sock_world :: tcp_world
  script :: "tcp_world script"
  taken :: "char list"

definition chars_of :: "u8 list \<Rightarrow> char list" where
  "chars_of = map (\<lambda>b. char_of (unat b))"

definition bytes_of :: "char list \<Rightarrow> u8 list" where
  "bytes_of = map (\<lambda>c. of_nat (ord c))"

text \<open>The pointer that \<open>allocSendBuf\<close> returns is behind the headers.\<close>

definition tcp_alloc :: "u16 \<Rightarrow> u32 \<Rightarrow> tcp_env \<Rightarrow> ((block \<times> char list \<times> u16) option \<times> tcp_env) option" where
  "tcp_alloc h t e = do {
     (r, now, w, env) \<leftarrow> allocSendBuf (clock e) (sock_world e) h t (script e);
     Some (map_option (\<lambda>(b, s). (b, chars_of (drop 40 (ip_at (snd w) b)), s)) r, e\<lparr>clock := now, sock_world := w, script := env\<rparr>) }"

definition tcp_psend :: "block \<Rightarrow> char list \<Rightarrow> int \<Rightarrow> u32 \<Rightarrow> tcp_env \<Rightarrow> (bool \<times> tcp_env) option" where
  "tcp_psend b m l t e = do {
     let (s, n) = sock_world e;
     p \<leftarrow> blit (ip_at n b) 40 (bytes_of m);
     (ok, now, w, env) \<leftarrow> psend (clock e) (s, put_ip n b p) b l t (script e);
     Some (ok, e\<lparr>clock := now, sock_world := w, script := env, taken := taken e @ (if ok then take (nat l) m else [])\<rparr>) }"

definition tcp_release :: "block \<Rightarrow> tcp_env \<Rightarrow> tcp_env" where
  "tcp_release b e = e\<lparr>sock_world := releaseSendBuf (sock_world e) b\<rparr>"

definition tcp_precv :: "u32 \<Rightarrow> tcp_env \<Rightarrow> ((int \<times> char list) \<times> tcp_env) option" where
  "tcp_precv t e = do {
     ((n, p), now, w, env) \<leftarrow> precv (clock e) (sock_world e) t (script e);
     Some ((n, chars_of p), e\<lparr>clock := now, sock_world := w, script := env\<rparr>) }"

definition tcp_pseek :: "u16 \<Rightarrow> tcp_env \<Rightarrow> tcp_env option" where
  "tcp_pseek k e = do {
     (s, n) \<leftarrow> pseek (fst (sock_world e)) (snd (sock_world e)) k;
     Some (e\<lparr>sock_world := (s, n)\<rparr>) }"

definition tcp_interface :: "(block, tcp_env) tcp_if" where
  "tcp_interface = \<lparr>if_precv = tcp_precv, if_pseek = tcp_pseek, if_allocSendBuf = tcp_alloc, if_psend = tcp_psend,
     if_releaseSendBuf = tcp_release\<rparr>"

section \<open>Invariant\<close>

text \<open>
  Every block of the transmit memory has its size, the peer takes segments of at least one byte, and the other
  threads keep it so.
\<close>

definition world_ok :: "tcp_world \<Rightarrow> bool" where
  "world_ok w \<longleftrightarrow> (\<forall>b. length (mem (snd w) b) = unat (block_size (fst b))) \<and> 0 < peer_mss (conn (fst w))"

definition script_ok :: "tcp_world script \<Rightarrow> bool" where
  "script_ok env \<longleftrightarrow> (\<forall>(t, f)\<in>set env. \<forall>w. world_ok w \<longrightarrow> world_ok (f w))"

definition env_ok :: "tcp_env \<Rightarrow> bool" where
  "env_ok e \<longleftrightarrow> world_ok (sock_world e) \<and> script_ok (script e)"

lemma script_ok_Cons: "script_ok ((t, f) # env) \<longleftrightarrow> (\<forall>w. world_ok w \<longrightarrow> world_ok (f w)) \<and> script_ok env"
  by (simp add: script_ok_def)

lemma world_ok_upd:
  "world_ok (s, n\<lparr>mm := m\<rparr>) = world_ok (s, n)" "world_ok (s, n\<lparr>ring := r\<rparr>) = world_ok (s, n)"
  "world_ok (s, n\<lparr>wire := x\<rparr>) = world_ok (s, n)" "world_ok (s, n\<lparr>ip_pid := i\<rparr>) = world_ok (s, n)"
  "world_ok (s\<lparr>q_wp := k\<rparr>, n) = world_ok (s, n)" "world_ok (s\<lparr>txq := q\<rparr>, n) = world_ok (s, n)"
  "world_ok (s, n) \<Longrightarrow> length f = length (mem n b) \<Longrightarrow> world_ok (s, n\<lparr>mem := (mem n)(b := f)\<rparr>)"
  by (auto simp: world_ok_def)

lemma world_ok_put: "world_ok (s, n) \<Longrightarrow> length p = length (ip_at n b) \<Longrightarrow> world_ok (s, put_ip n b p)"
  unfolding put_ip_def by (rule world_ok_upd) (auto simp: ip_at_def world_ok_def)

lemma send_frame_ok: "send_frame n b k = Some n' \<Longrightarrow> world_ok (s, n) \<Longrightarrow> world_ok (s, n')"
  by (auto simp: send_frame_def world_ok_upd Let_def split: Option.bind_splits option.splits if_splits)

lemma sendArpRequest_ok:
  assumes "cMiMicIpNetIf_sendArpRequest n a = Some n'" "world_ok (s, n)"
  shows "world_ok (s, n')"
  using assms unfolding cMiMicIpNetIf_sendArpRequest_def
  by (auto simp: Let_def cMiMicIpNetIf_allocSysTxBuf_def cMiMicIpNetIf_releaseTxBuf_def world_ok_upd
      split: Option.bind_splits option.splits prod.splits intro!: world_ok_upd(7) dest!: send_frame_ok blit_length)

lemma sendIPv4Tx_ok:
  assumes "cMiMicIpNetIf_sendIPv4Tx n b = Some n'" "world_ok (s, n)"
  shows "world_ok (s, n')"
  using assms unfolding cMiMicIpNetIf_sendIPv4Tx_def sendIPv4Tx_def
  by (auto simp: Let_def world_ok_upd split: Option.bind_splits option.splits prod.splits if_splits
      intro!: world_ok_upd(7) elim!: send_frame_ok sendArpRequest_ok dest!: blit_length)

lemma getTxQ_ok:
  "getTxQ now sw w env = Some (r, now', w', env') \<Longrightarrow> world_ok w \<Longrightarrow> script_ok env \<Longrightarrow> world_ok w' \<and> script_ok env'"
proof (induction now sw w env rule: getTxQ.induct)
  case (1 now sw w env)
  then show ?case
    by (subst (asm) (2) getTxQ.simps)
      (cases w, auto simp: Let_def world_ok_upd script_ok_Cons split: if_splits list.splits prod.splits)
qed

lemma alloc_from_size: "alloc_from m ps = Some (b, k, m') \<Longrightarrow> k = block_size (fst b)"
  by (induction m ps rule: alloc_from.induct) (auto simp: Let_def split: option.splits)

lemma allocTxBuf_ok:
  "cMiMicIpNetIf_allocTxBuf n h = Some (b, k, n') \<Longrightarrow> world_ok (s, n) \<Longrightarrow> world_ok (s, n') \<and> k = block_size (fst b) - 14"
  by (auto simp: cMiMicIpNetIf_allocTxBuf_def cEthernetMM_alloc_def world_ok_upd dest: alloc_from_size split: option.splits)

lemma alloc_send_loop_ok:
  "alloc_send_loop now sw h w env = Some ((r, sw'), now', w', env') \<Longrightarrow> world_ok w \<Longrightarrow> script_ok env \<Longrightarrow>
     world_ok w' \<and> script_ok env' \<and> (\<forall>b k. r = Some (b, k) \<longrightarrow> k = block_size (fst b) - 14)"
proof (induction now sw h w env rule: alloc_send_loop.induct)
  case (1 now sw h w env)
  obtain s n where w: "w = (s, n)" by (cases w)
  show ?case
  proof (cases "cMiMicIpNetIf_allocTxBuf n h")
    case None
    then show ?thesis using 1 w
      by (subst (asm) (2) alloc_send_loop.simps) (auto simp: Let_def script_ok_Cons split: if_splits list.splits prod.splits)
  next
    case (Some p)
    then show ?thesis using 1(2-) w allocTxBuf_ok [of n h _ _ _ s]
      by (subst (asm) alloc_send_loop.simps) (cases p, auto simp: Let_def split: if_splits)
  qed
qed

lemma wait_send_window_ok:
  "wait_send_window now sw w env = Some ((ok, sw'), now', w', env') \<Longrightarrow> world_ok w \<Longrightarrow> script_ok env \<Longrightarrow>
     world_ok w' \<and> script_ok env' \<and> (ok \<longrightarrow> peer_win (conn (fst w')) \<noteq> 0)"
proof (induction now sw w env rule: wait_send_window.induct)
  case (1 now sw w env)
  then show ?case
    by (subst (asm) (2) wait_send_window.simps) (cases w, auto simp: Let_def script_ok_Cons split: if_splits list.splits prod.splits)
qed

lemma release_ok: "world_ok w \<Longrightarrow> world_ok (releaseSendBuf w b)"
  by (cases w) (simp add: releaseSendBuf_def cMiMicIpNetIf_releaseTxBuf_def world_ok_upd)

lemma block_sizes: "54 < unat (block_size p)" "unat (block_size p) \<le> 1514"
  by (cases p; simp)+

lemma allocSendBuf_ok:
  assumes "allocSendBuf now w h t env = Some (r, now', w', env')" "world_ok w" "script_ok env"
  shows "world_ok w' \<and> script_ok env' \<and> (\<forall>b k. r = Some (b, k) \<longrightarrow> 0 < unat k \<and> unat k \<le> unat (block_size (fst b)) - 54)"
proof -
  obtain r1 sw now1 w1 env1 where a: "alloc_send_loop now (cStopwatch_startExpire now \<lparr>sw_tick = 0, ex_timeout = 0\<rparr> t)
      (h + SIZE_OF_IPv4_TCPIP_HEADER) w env = Some ((r1, sw), now1, w1, env1)"
    using assms(1) by (auto simp: allocSendBuf_def split: Option.bind_splits)
  note a1 = alloc_send_loop_ok [OF a assms(2,3)]
  show ?thesis
  proof (cases r1)
    case None
    then show ?thesis using a a1 assms(1) by (simp add: allocSendBuf_def)
  next
    case (Some p)
    obtain b k where p: "p = (b, k)" by (cases p)
    have k: "k = block_size (fst b) - 14" using a1 Some p by simp
    obtain ok sw2 now2 w2 env2 where x: "wait_send_window now1 sw w1 env1 = Some ((ok, sw2), now2, w2, env2)"
      using assms(1) a Some p by (auto simp: allocSendBuf_def split: Option.bind_splits)
    note x1 = wait_send_window_ok [OF x]
    show ?thesis
    proof (cases ok)
      case True
      have "r = Some (b, send_size (conn (fst w2)) k)" "w' = w2" "env' = env2"
        using assms(1) a Some p x True by (auto simp: allocSendBuf_def)
      moreover have "world_ok w2" "script_ok env2" "peer_win (conn (fst w2)) \<noteq> 0" using x1 a1 True by blast+
      moreover have "0 < peer_mss (conn (fst w2))" using \<open>world_ok w2\<close> by (simp add: world_ok_def)
      moreover have "unat (k - SIZE_OF_IPv4_TCPIP_HEADER) = unat (block_size (fst b)) - 54"
        unfolding k by (cases "fst b") simp_all
      ultimately show ?thesis
        using block_sizes(1) [of "fst b"] by (auto simp: send_size_def Let_def word_less_nat_alt word_gt_0 unat_gt_0)
    next
      case False
      then show ?thesis using assms(1) a Some p x x1 a1 release_ok [of w2 b] by (simp add: allocSendBuf_def releaseSendBuf_def)
    qed
  qed
qed

lemma close_segment_length: "close_segment p h t = Some q \<Longrightarrow> length q = length p"
  by (auto simp: close_segment_def split: Option.bind_splits dest!: blit_length)

lemma setTxPacketHeader_length: "setTxPacketHeader pid sp c tx f l = Some (i, q) \<Longrightarrow> length q = length tx"
  by (auto simp: setTxPacketHeader_def Let_def split: Option.bind_splits prod.splits dest!: close_segment_length)

lemma psend_ok:
  assumes "psend now w b l t env = Some (ok, now', w', env')" "world_ok w" "script_ok env"
  shows "world_ok w' \<and> script_ok env'"
proof (cases "tcpstateflags (fst w) \<noteq> UIP_ESTABLISHED \<or> l < 1")
  case True
  then show ?thesis using assms release_ok [OF assms(2), of b] by (auto simp: psend_def split: if_splits)
next
  case False
  then obtain r sw now1 w1 env1 where q: "getTxQ now (cStopwatch_startExpire now \<lparr>sw_tick = 0, ex_timeout = 0\<rparr> t) w env = Some ((r, sw), now1, w1, env1)"
    using assms(1) by (auto simp: psend_def split: Option.bind_splits)
  note q1 = getTxQ_ok [OF q assms(2,3)]
  show ?thesis
  proof (cases r)
    case None
    then show ?thesis using assms(1) False q q1 by (auto simp: psend_def)
  next
    case (Some i)
    obtain s n where w1: "w1 = (s, n)" by (cases w1)
    note ps = assms(1) [unfolded psend_def q Some w1]
    obtain pid p where p: "setTxPacketHeader (ip_pid n) (cFifoBuffer_getSpace (rxbuf s)) (conn s) (ip_at n b) (TCP_ACK OR TCP_PSH) (of_int l) = Some (pid, p)"
      using ps False by (auto simp: Let_def split: Option.bind_splits)
    let ?n = "put_ip (n\<lparr>ip_pid := pid\<rparr>) b p"
    obtain n2 where n2: "cMiMicIpNetIf_sendIPv4Tx ?n b = Some n2" "snd w' = n2" "peer_mss (conn (fst w')) = peer_mss (conn s)" "env' = env1"
      using ps False p by (auto simp: Let_def put_txq_def split: Option.bind_splits)
    have "world_ok (s, n\<lparr>ip_pid := pid\<rparr>)" using q1 w1 by (simp add: world_ok_upd)
    then have "world_ok (s, ?n)" using setTxPacketHeader_length [OF p] by (intro world_ok_put) (simp_all add: ip_at_def)
    from sendIPv4Tx_ok [OF n2(1) this] show ?thesis using n2(2-4) q1 by (cases w') (simp add: world_ok_def)
  qed
qed

section \<open>The provider\<close>

interpretation tcp_tx: tx_socket tcp_interface env_ok taken 1 1460
proof
  fix w h t r w'
  assume ok: "env_ok w" and a: "if_allocSendBuf tcp_interface h t w = Some (r, w')"
  obtain r1 now x env where x: "allocSendBuf (clock w) (sock_world w) h t (script w) = Some (r1, now, x, env)"
      "r = map_option (\<lambda>(b, s). (b, chars_of (drop 40 (ip_at (snd x) b)), s)) r1" "w' = w\<lparr>clock := now, sock_world := x, script := env\<rparr>"
    using a by (auto simp: tcp_interface_def tcp_alloc_def split: Option.bind_splits)
  have law: "world_ok x" "script_ok env" "\<And>b k. r1 = Some (b, k) \<Longrightarrow> 0 < unat k \<and> unat k \<le> unat (block_size (fst b)) - 54"
    using allocSendBuf_ok [OF x(1)] ok by (auto simp: env_ok_def)
  have "length (mem (snd x) b) = unat (block_size (fst b))" for b using law(1) unfolding world_ok_def by blast
  then have "length (ip_at (snd x) b) = unat (block_size (fst b)) - 14" for b by (simp add: ip_at_def)
  moreover have "unat (block_size p) - 54 \<le> 1460" for p using block_sizes(2) [of p] by linarith
  ultimately show "env_ok w' \<and> taken w' = taken w \<and> (\<forall>b m s. r = Some (b, m, s) \<longrightarrow> 1 \<le> unat s \<and> unat s \<le> 1460 \<and> unat s \<le> length m)"
    using law x(2,3) by (cases r1) (auto simp: env_ok_def chars_of_def Suc_le_eq intro: order_trans)
next
  fix w l m b t ok w'
  assume w: "env_ok w" and l: "0 \<le> l" "nat l \<le> length m" and p: "if_psend tcp_interface b m l t w = Some (ok, w')"
  obtain s n where sn: "sock_world w = (s, n)" by (cases "sock_world w")
  obtain q now x env where q: "blit (ip_at n b) 40 (bytes_of m) = Some q" "psend (clock w) (s, put_ip n b q) b l t (script w) = Some (ok, now, x, env)"
      "w' = w\<lparr>clock := now, sock_world := x, script := env, taken := taken w @ (if ok then take (nat l) m else [])\<rparr>"
    using p sn by (auto simp: tcp_interface_def tcp_psend_def split: Option.bind_splits)
  have "world_ok (s, put_ip n b q)" using w sn blit_length [OF q(1)] by (intro world_ok_put) (simp_all add: env_ok_def)
  from psend_ok [OF q(2) this] show "env_ok w' \<and> taken w' = taken w @ (if ok then take (nat l) m else [])"
    using w q(3) by (simp add: env_ok_def)
next
  fix w b
  assume "env_ok w"
  then show "env_ok (if_releaseSendBuf tcp_interface b w) \<and> taken (if_releaseSendBuf tcp_interface b w) = taken w"
    by (simp add: tcp_interface_def tcp_release_def env_ok_def release_ok)
qed

text \<open>
  C39: Text written to a stream on a TCP socket arrives: whenever \<open>write\<close> succeeds, what the socket took over and what
  waits in the buffer are what they were before, followed by the text, whatever other threads do meanwhile.
\<close>

theorem tcp_stream_written:
  assumes "env_ok e" "stream_ok 1460 st" "we_type st = ET_NONE"
    "write_func tcp_interface st data (int (length data)) e = Some (True, st', e')"
  shows "env_ok e' \<and> stream_ok 1460 st' \<and> taken e' @ pending_text st' = taken e @ pending_text st @ data"
  using tcp_tx.write_sent [OF assms(1,2) _ _ _ assms(4) [unfolded write_func_def]] assms(3)
  by (auto simp: framing_def encoded_def)

definition demo_env :: tcp_env where
  "demo_env = \<lparr>clock = 0, sock_world = (demo_socket, demo_net\<lparr>mm := \<lparr>buf_max = [], buf_512 = [], buf_256 = [],
     buf_128 = [\<lparr>ref = 0, is_lock = False\<rparr>], buf_64 = []\<rparr>\<rparr>), script = [], taken = ''ab''\<rparr>"

definition empty_stream :: "'b http_stream" where
  "empty_stream = \<lparr>txb = None, txb_size = 0, tx_len = 0, re_type = ET_NONE, we_type = ET_NONE\<rparr>"

lemma empty_stream_ok: "stream_ok hi empty_stream" "pending_text empty_stream = []" "we_type empty_stream = ET_NONE"
  by (simp_all add: empty_stream_def stream_ok_def pending_text_def)

lemma demo_env_ok: "env_ok demo_env" "taken demo_env = ''ab''"
  by (simp_all add: env_ok_def demo_env_def world_ok_def script_ok_def demo_net_def demo_socket_def demo_conn_def)

theorem tcp_stream_written_witness:
  "case write_func tcp_interface empty_stream ''cde'' (int (length ''cde'')) demo_env of
     None \<Rightarrow> False | Some (ok, st', e') \<Rightarrow> ok \<and> taken e' @ pending_text st' = ''abcde''"
proof -
  have "case write_func tcp_interface empty_stream ''cde'' (int (length ''cde'')) demo_env of None \<Rightarrow> False | Some (ok, st', e') \<Rightarrow> ok"
    by code_simp
  then obtain st' e' where w: "write_func tcp_interface empty_stream ''cde'' (int (length ''cde'')) demo_env = Some (True, st', e')"
    by (auto split: option.splits)
  show ?thesis unfolding w
    using tcp_stream_written [OF demo_env_ok(1) empty_stream_ok(1,3) w] by (simp add: demo_env_ok(2) empty_stream_ok(2))
qed

end
