(* ===== verification/HttpWriter.thy ===== *)
theory HttpWriter
  imports HttpStream FormatWriter HttpHeader IpTypes
begin

text \<open>
  \<open>NyLPC_cHttpHeaderWriter.c\<close> and \<open>NyLPC_cHttpBodyWriter.c\<close>: the writers of message headers and bodies on a
  stream. A writer keeps a pointer to its stream; the model passes the stream and the world of its
  socket along.
\<close>

section \<open>The header\<close>

record header_writer =
  hw_is_chunked :: bool
  hw_is_close :: bool
  hw_is_error :: bool
  hw_content_length :: u32
  hw_size_of_sent :: u32

type_synonym ('o, 'b, 'w) writer_result = "(bool \<times> 'o \<times> 'b http_stream \<times> 'w) option"

definition cHttpHeaderWriter_initialize ::
  "('b, 'w) tcp_if \<Rightarrow> header_writer \<Rightarrow> http_header option \<Rightarrow> 'b http_stream \<Rightarrow> 'w \<Rightarrow> (header_writer, 'b, 'w) writer_result" where
  "cHttpHeaderWriter_initialize I hw i_req_header st w = do {
     let hw = hw\<lparr>hw_is_chunked := False, hw_content_length := 0, hw_is_error := False\<rparr>;
     (st, w) \<leftarrow> setWriteEncoding_func I st ET_NONE w;
     (case i_req_header of
        None \<Rightarrow> Some (True, hw\<lparr>hw_is_close := True\<rparr>, st, w)
      | Some h \<Rightarrow>
          if htype h \<noteq> TYPE_REQUEST then Some (False, hw, st, w)
          else Some (True, hw\<lparr>hw_is_close := connection h = CONN_CLOSE \<or> version h \<noteq> VERSION_11\<rparr>, st, w)) }"

definition cHttpHeaderWriter_setChunked :: "header_writer \<Rightarrow> header_writer" where
  "cHttpHeaderWriter_setChunked hw = hw\<lparr>hw_is_chunked := True\<rparr>"

definition cHttpHeaderWriter_setContentLength :: "header_writer \<Rightarrow> u32 \<Rightarrow> header_writer" where
  "cHttpHeaderWriter_setContentLength hw n = hw\<lparr>hw_content_length := n\<rparr>"

definition cHttpHeaderWriter_setConnectionClose :: "header_writer \<Rightarrow> bool \<Rightarrow> header_writer" where
  "cHttpHeaderWriter_setConnectionClose hw i_is_close = hw\<lparr>hw_is_close := i_is_close\<rparr>"

definition status_line_tbl :: "(u16 \<times> string) list" where
  "status_line_tbl = [(200, ''OK''), (301, ''Moved Permanently''), (302, ''Moved Temporarily''), (400, ''Bad Request''),
     (403, ''Forbidden''), (404, ''Not Found''), (405, ''Method Not Allowed''), (500, ''Internal Server Error'')]"

definition getStatusMessage :: "u16 \<Rightarrow> string option" where
  "getStatusMessage i_status = map_of status_line_tbl i_status"

text \<open>A sequence of writes, each with its length argument; the first one that fails ends it.\<close>

fun write_seq :: "('b, 'w) tcp_if \<Rightarrow> 'b http_stream \<Rightarrow> (string \<times> int) list \<Rightarrow> 'w \<Rightarrow> (bool, 'b, 'w) stream_result" where
  "write_seq I st [] w = Some (True, st, w)"
| "write_seq I st ((t, l) # ts) w = do {
     (ok, st, w) \<leftarrow> write_func I st t l w;
     if \<not> ok then Some (False, st, w) else write_seq I st ts w }"

definition writeln :: "string \<Rightarrow> (string \<times> int) list" where
  "writeln t = [(t, - 1), ([CR, LF], 2)]"

text \<open>The lines that say how the body is delimited, and whether the connection is closed.\<close>

definition connection_lines :: "header_writer \<Rightarrow> (string \<times> int) list" where
  "connection_lines hw = (if hw_is_close hw then [(''Connection: CLOSE'' @ [CR, LF], - 1)] else [])"

definition length_lines :: "header_writer \<Rightarrow> (string \<times> int) list option" where
  "length_lines hw =
     (if hw_is_chunked hw then Some [(''Transfer-Encoding: chunked'' @ [CR, LF], - 1)]
      else map_option (\<lambda>(v, n). (''Content-Length: '', - 1) # writeln v) (uitoa (hw_content_length hw) 10))"

text \<open>After an error \<open>_is_error\<close> is set to FALSE: the writer does not remember it.\<close>

definition finish_lines :: "(bool, 'b, 'w) stream_result \<Rightarrow> header_writer \<Rightarrow> (header_writer, 'b, 'w) writer_result" where
  "finish_lines r hw = map_option (\<lambda>(ok, st, w).
     if ok then (True, hw\<lparr>hw_size_of_sent := 0\<rparr>, st, w) else (False, hw\<lparr>hw_is_error := False\<rparr>, st, w)) r"

definition cHttpHeaderWriter_writeRequestHeader ::
  "('b, 'w) tcp_if \<Rightarrow> header_writer \<Rightarrow> u8 \<Rightarrow> ipv4_addr \<Rightarrow> u16 \<Rightarrow> string \<Rightarrow> 'b http_stream \<Rightarrow> 'w \<Rightarrow> (header_writer, 'b, 'w) writer_result" where
  "cHttpHeaderWriter_writeRequestHeader I hw i_method i_host i_port i_path st w =
     (if hw_is_error hw then Some (False, hw, st, w)
      else (case THttpMethodType_toString i_method of
         None \<Rightarrow> Some (False, hw, st, w)
       | Some t \<Rightarrow> do {
           (p, n) \<leftarrow> uitoa (ucast i_port) 10;
           ls \<leftarrow> length_lines hw;
           finish_lines (write_seq I st
             ([(t, - 1), ([SP], 1), (i_path, - 1), (SP # ''HTTP/1.1'' @ [CR, LF], 11), (''Host: '', 6), (fst (TIPv4Addr_toString i_host), - 1),
               ('':'', 1)] @ writeln p @ connection_lines hw @ ls) w) hw }))"

definition cHttpHeaderWriter_writeResponseHeader ::
  "('b, 'w) tcp_if \<Rightarrow> header_writer \<Rightarrow> u16 \<Rightarrow> 'b http_stream \<Rightarrow> 'w \<Rightarrow> (header_writer, 'b, 'w) writer_result" where
  "cHttpHeaderWriter_writeResponseHeader I hw i_status st w =
     (if hw_is_error hw then Some (False, hw, st, w)
      else let (i_status, m) = (case getStatusMessage i_status of
             None \<Rightarrow> (500, the (getStatusMessage 500)) | Some m \<Rightarrow> (i_status, m)) in do {
        (v, n) \<leftarrow> itoa (ucast i_status) 10;
        ls \<leftarrow> length_lines hw;
        finish_lines (write_seq I st
          ([(''HTTP/1.1 '', 9), (v, - 1), ([SP], 1)] @ writeln m @ [(''Server: MiMicHttpd/0.39'' @ [CR, LF], - 1)] @
            connection_lines hw @ ls) w) hw })"

definition cHttpHeaderWriter_writeMessage ::
  "('b, 'w) tcp_if \<Rightarrow> header_writer \<Rightarrow> string \<Rightarrow> string \<Rightarrow> 'b http_stream \<Rightarrow> 'w \<Rightarrow> (header_writer, 'b, 'w) writer_result" where
  "cHttpHeaderWriter_writeMessage I hw i_name i_field st w =
     (if hw_is_error hw then Some (False, hw, st, w)
      else map_option (\<lambda>(ok, st, w). (ok, if ok then hw else hw\<lparr>hw_is_error := False\<rparr>, st, w))
        (write_seq I st ([(i_name, - 1), ('': '', 2)] @ writeln i_field) w))"

definition cHttpHeaderWriter_writeRawMessage ::
  "('b, 'w) tcp_if \<Rightarrow> header_writer \<Rightarrow> string \<Rightarrow> 'b http_stream \<Rightarrow> 'w \<Rightarrow> (header_writer, 'b, 'w) writer_result" where
  "cHttpHeaderWriter_writeRawMessage I hw i_additional_header st w =
     (if hw_is_error hw then Some (False, hw, st, w)
      else map_option (\<lambda>(ok, st, w). (ok, if ok then hw else hw\<lparr>hw_is_error := False\<rparr>, st, w))
        (write_func I st i_additional_header (int (length i_additional_header)) w))"

definition cHttpHeaderWriter_close ::
  "('b, 'w) tcp_if \<Rightarrow> header_writer \<Rightarrow> 'b http_stream \<Rightarrow> 'w \<Rightarrow> (header_writer, 'b, 'w) writer_result" where
  "cHttpHeaderWriter_close I hw st w =
     (if hw_is_error hw then Some (False, hw, st, w)
      else do {
        (ok, st, w) \<leftarrow> write_func I st [CR, LF] 2 w;
        if \<not> ok then Some (False, hw, st, w)
        else do { (ok, st, w) \<leftarrow> flush_func I st w; Some (ok, hw, st, w) } })"

section \<open>The body\<close>

record body_writer =
  bw_is_chunked :: bool
  bw_is_error :: bool
  bw_size_of_sent :: u32
  bw_content_length :: u32

definition printHandler :: "('b, 'w) tcp_if \<Rightarrow> (body_writer \<times> 'b http_stream \<times> 'w) print_handler" where
  "printHandler I s i_buf = (case s of (bw, st, w) \<Rightarrow>
     if bw_is_error bw then Some (False, bw, st, w)
     else do {
       let bw = bw\<lparr>bw_size_of_sent := bw_size_of_sent bw + of_nat (length i_buf)\<rparr>;
       (ok, st, w) \<leftarrow> write_func I st i_buf (int (length i_buf)) w;
       Some (ok, if ok then bw else bw\<lparr>bw_is_error := True\<rparr>, st, w) })"

definition cHttpBodyWriter_initialize :: "('b, 'w) tcp_if \<Rightarrow> 'b http_stream \<Rightarrow> 'w \<Rightarrow> (body_writer \<times> 'b http_stream \<times> 'w) option" where
  "cHttpBodyWriter_initialize I st w = do {
     (st, w) \<leftarrow> setWriteEncoding_func I st ET_NONE w;
     Some (\<lparr>bw_is_chunked = False, bw_is_error = False, bw_size_of_sent = 0, bw_content_length = 0\<rparr>, st, w) }"

definition cHttpBodyWriter_setChunked :: "('b, 'w) tcp_if \<Rightarrow> body_writer \<Rightarrow> 'b http_stream \<Rightarrow> 'w \<Rightarrow> (body_writer \<times> 'b http_stream \<times> 'w) option" where
  "cHttpBodyWriter_setChunked I bw st w = do {
     (st, w) \<leftarrow> setWriteEncoding_func I st ET_CHUNKED w;
     Some (bw\<lparr>bw_is_chunked := True\<rparr>, st, w) }"

definition cHttpBodyWriter_setContentLength ::
  "('b, 'w) tcp_if \<Rightarrow> body_writer \<Rightarrow> u32 \<Rightarrow> 'b http_stream \<Rightarrow> 'w \<Rightarrow> (body_writer \<times> 'b http_stream \<times> 'w) option" where
  "cHttpBodyWriter_setContentLength I bw n st w = do {
     (st, w) \<leftarrow> setWriteEncoding_func I st ET_NONE w;
     Some (bw\<lparr>bw_is_chunked := False, bw_content_length := n\<rparr>, st, w) }"

definition cHttpBodyWriter_write :: "('b, 'w) tcp_if \<Rightarrow> body_writer \<Rightarrow> string \<Rightarrow> 'b http_stream \<Rightarrow> 'w \<Rightarrow> (body_writer, 'b, 'w) writer_result" where
  "cHttpBodyWriter_write I bw i_buf st w = printHandler I (bw, st, w) i_buf"

definition cHttpBodyWriter_close :: "('b, 'w) tcp_if \<Rightarrow> body_writer \<Rightarrow> 'b http_stream \<Rightarrow> 'w \<Rightarrow> (body_writer, 'b, 'w) writer_result" where
  "cHttpBodyWriter_close I bw st w =
     (if bw_is_error bw then Some (False, bw, st, w)
      else do {
        (ok, st, w) \<leftarrow> (if bw_is_chunked bw then do {
             (st, w) \<leftarrow> setWriteEncoding_func I st ET_NONE w;
             write_func I st (''0'' @ [CR, LF, CR, LF]) 5 w }
           else Some (True, st, w));
        if \<not> ok then Some (False, bw\<lparr>bw_is_error := True\<rparr>, st, w)
        else do { (ok, st, w) \<leftarrow> flush_func I st w; Some (True, bw, st, w) } })"

definition cHttpBodyWriter_format ::
  "('b, 'w) tcp_if \<Rightarrow> body_writer \<Rightarrow> string \<Rightarrow> fmt_arg list \<Rightarrow> 'b http_stream \<Rightarrow> 'w \<Rightarrow> (body_writer, 'b, 'w) writer_result" where
  "cHttpBodyWriter_format I bw i_fmt args st w =
     (if bw_is_error bw then Some (False, bw, st, w) else cFormatWriter_print (printHandler I) (bw, st, w) i_fmt args)"

end
