(* ===== verification/HttpClient.thy ===== *)
theory HttpClient
  imports HttpWriter HttpBody HttpRequest
begin

text \<open>
  \<open>NyLPC_cHttpClient.c\<close>: the HTTP client, a state machine around a TCP socket, a stream and the writers and parsers
  of messages. The socket is used through its interface, here with the calls that the client makes itself; the
  header writer and the header parser live only inside one operation and the other two
  members of the union \<open>pw\<close> are the constructors of a datatype. \<open>None\<close> is also a use of the union as
  a member that it does not hold.
\<close>

abbreviation (input) "CST_CLOSED \<equiv> (0x00 :: u8)"
abbreviation (input) "CST_IDLE \<equiv> (0x01 :: u8)"
abbreviation (input) "CST_SEND_REQ_BODY \<equiv> (0x21 :: u8)"
abbreviation (input) "CST_RECV_RES_HEAD \<equiv> (0x23 :: u8)"
abbreviation (input) "CST_RECV_RES_BODY \<equiv> (0x24 :: u8)"
abbreviation (input) "CONTENT_LENGTH_UNLIMITED \<equiv> (0xffffffff :: u32)"

record ('b, 'w) client_if = "('b, 'w) tcp_if" +
  if_connect :: "ipv4_addr \<Rightarrow> u16 \<Rightarrow> u32 \<Rightarrow> 'w \<Rightarrow> (bool \<times> 'w) option"
  if_close :: "u32 \<Rightarrow> 'w \<Rightarrow> 'w option"
  if_finalize :: "'w \<Rightarrow> 'w option"
  if_getPeerAddr :: "'w \<Rightarrow> ipv4_addr"
  if_getPeerPort :: "'w \<Rightarrow> u16"


datatype client_pw = PwNone | PwBodyWriter body_writer | PwBodyParser "read_buf body_parser"

record 'b http_client =
  cl_state :: u8
  cl_stream :: "'b http_stream"
  pw :: client_pw


section \<open>Opening and closing\<close>

text \<open>The argument is whether the socket could be created; the buffer that the caller passes is not used.\<close>

definition cHttpClient_initialize :: "bool \<Rightarrow> 'b http_client \<Rightarrow> bool \<times> 'b http_client" where
  "cHttpClient_initialize sock c = (if \<not> sock then (False, c) else (True, c\<lparr>cl_state := CST_CLOSED\<rparr>))"

definition cHttpClient_close :: "('b, 'w) client_if \<Rightarrow> 'b http_client \<Rightarrow> 'w \<Rightarrow> ('b http_client \<times> 'w) option" where
  "cHttpClient_close S c w =
     (if cl_state c = CST_CLOSED then Some (c, w)
      else do { w \<leftarrow> if_close S 1000 w; Some (c\<lparr>cl_state := CST_CLOSED\<rparr>, w) })"

definition cHttpClient_finalize :: "('b, 'w) client_if \<Rightarrow> 'b http_client \<Rightarrow> 'w \<Rightarrow> ('b http_client \<times> 'w) option" where
  "cHttpClient_finalize S c w = do {
     (c, w) \<leftarrow> cHttpClient_close S c w;
     w \<leftarrow> if_finalize S w;
     Some (c, w) }"


section \<open>Sending a request\<close>







section \<open>Receiving the response\<close>









section \<open>The states\<close>














section \<open>What is sent\<close>






section \<open>The request\<close>







section \<open>The body\<close>








section \<open>Reading the request back\<close>














end
