(* ===== verification/Spec2Isabelle.thy ===== *)
theory Spec2Isabelle
  imports Prelude Stdlib ByteQueue FifoBuffer RingBuffer PtrTbl MiMicVM TxtCompiler DbCompiler CharMachine JsonRpcParser Memory IpTypes Arp Str HttpHeader HttpRequest HttpBody
    EthernetMM EthDriver PacketLayout TcpPacket NetTx TcpSocket TcpReceive Stopwatch TcpListener UdpSocket UdpDatagram TcpApi TcpCalls Icmp IpStack IpDispatch IpFrames
    FormatWriter HttpStream TcpStream HttpWriter HttpClient
begin

text \<open>
  Verification of the core of the MiMic library (\<open>src/libMiMic/core\<close>).
\<close>

end
